(* ===== verification/Netfault_Prelude.thy ===== *)
theory Netfault_Prelude
  imports Main "HOL-Library.Word"
begin

text \<open>
  The prelude of the development: the machine types, the exceptions the sources throw, unsigned
  64-bit arithmetic with its wrap-around, and the loop combinator every \<^verbatim>\<open>while\<close> of the sources
  is expressed with.

  Conventions shared by all theories.
  \<^item> \<^verbatim>\<open>std::byte\<close> is an \<open>8 word\<close>; event counters (\<^verbatim>\<open>std::uint64_t\<close> values that are only ever
    incremented) are \<open>64 word\<close>, so their wrap-around is that of the machine.
  \<^item> \<^verbatim>\<open>std::size_t\<close> lengths and positions are \<open>nat\<close>. Where the source subtracts or multiplies
    them so that the result can leave the 64-bit range, the operations \<open>add64\<close>, \<open>sub64\<close> and
    \<open>mul64\<close> write the reduction modulo \<open>2 ^ 64\<close> out.
  \<^item> \<^verbatim>\<open>std::chrono\<close> time points and durations are \<open>int\<close> counts of nanoseconds (milliseconds
    in the configuration), as the 64-bit signed representation is.
  \<^item> A function that may throw returns \<open>exn + 'a\<close>, with \<open>Inl\<close> for the exception.
\<close>

section \<open>Types\<close>

type_synonym byte = "8 word"
type_synonym u64 = "64 word"
type_synonym time = int \<comment> \<open>\<^verbatim>\<open>steady_clock::time_point\<close> or a duration, in nanoseconds\<close>

datatype exn =
    InvalidArgument string \<comment> \<open>\<^verbatim>\<open>std::invalid_argument\<close>\<close>
  | OutOfRange string      \<comment> \<open>\<^verbatim>\<open>std::out_of_range\<close>\<close>
  | RuntimeError string    \<comment> \<open>\<^verbatim>\<open>std::runtime_error\<close>\<close>
  | UndefinedBehavior string \<comment> \<open>the abstract machine gives the program no meaning here\<close>

named_theorems inv_intros \<open>preservation of component invariants\<close>
named_theorems abs_simps \<open>effect of operations on the abstraction functions\<close>

section \<open>Unsigned 64-bit arithmetic on nat\<close>

definition u64_modulus :: nat where
  "u64_modulus = 18446744073709551616"

definition add64 :: "nat \<Rightarrow> nat \<Rightarrow> nat" where
  "add64 a b = (a + b) mod u64_modulus"

definition mul64 :: "nat \<Rightarrow> nat \<Rightarrow> nat" where
  "mul64 a b = (a * b) mod u64_modulus"

definition sub64 :: "nat \<Rightarrow> nat \<Rightarrow> nat" where
  "sub64 a b = (a + (u64_modulus - b mod u64_modulus)) mod u64_modulus"

lemma u64_modulus_pos [simp]: "0 < u64_modulus"
  by (simp add: u64_modulus_def)

lemma add64_exact [simp]: "a + b < u64_modulus \<Longrightarrow> add64 a b = a + b"
  by (simp add: add64_def)

lemma mul64_exact [simp]: "a * b < u64_modulus \<Longrightarrow> mul64 a b = a * b"
  by (simp add: mul64_def)

lemma sub64_exact [simp]:
  assumes "b \<le> a" and "a < u64_modulus"
  shows "sub64 a b = a - b"
proof -
  have "a + (u64_modulus - b) = (a - b) + u64_modulus"
    using assms by simp
  then have "(a + (u64_modulus - b)) mod u64_modulus = (a - b) mod u64_modulus"
    by simp
  also have "\<dots> = a - b" using assms by simp
  finally show ?thesis using assms by (simp add: sub64_def)
qed

lemma add64_less [simp]: "add64 a b < u64_modulus"
  by (simp add: add64_def)

lemma mul64_less [simp]: "mul64 a b < u64_modulus"
  by (simp add: mul64_def)

lemma ceil_div_ge:
  assumes "0 < (r::nat)"
  shows "n \<le> (n + r - 1) div r * r"
proof -
  have "(n + r - 1) mod r \<le> r - 1"
    using mod_less_divisor [OF assms, of "n + r - 1"] by linarith
  then show ?thesis
    using div_mult_mod_eq [of "n + r - 1" r] assms by linarith
qed

lemma ceil_div_le: "0 < (r::nat) \<Longrightarrow> (n + r - 1) div r * r \<le> n + r - 1"
  by (simp add: div_times_less_eq_dividend)

text \<open>\<^verbatim>\<open>std::chrono::duration_cast\<close> to a coarser unit truncates towards zero.\<close>

definition duration_cast :: "int \<Rightarrow> time \<Rightarrow> int" where
  "duration_cast unit t = sgn t * (\<bar>t\<bar> div unit)"

text \<open>A \<^verbatim>\<open>std::size_t\<close> stored in the signed 64-bit count of \<^verbatim>\<open>std::chrono::milliseconds\<close>.\<close>

definition s64_of_size :: "nat \<Rightarrow> int" where
  "s64_of_size n = (if n < 9223372036854775808 then int n else int n - 18446744073709551616)"

section \<open>Exceptions\<close>

text \<open>Sequencing of code that may throw.\<close>

definition bind_sum :: "exn + 'a \<Rightarrow> ('a \<Rightarrow> exn + 'b) \<Rightarrow> exn + 'b" where
  "bind_sum m f = (case m of Inl e \<Rightarrow> Inl e | Inr x \<Rightarrow> f x)"

lemma bind_sum_Inr: "bind_sum m f = Inr y \<longleftrightarrow> (\<exists>x. m = Inr x \<and> f x = Inr y)"
  by (cases m) (auto simp: bind_sum_def)

section \<open>Loops\<close>

text \<open>
  One iteration of a loop either asks for another round with a new state or leaves the loop with
  a result. An iteration that itself does not return (a system call retried forever) is \<open>None\<close>,
  and so is a loop that never halts.
\<close>

datatype ('s, 'r) loop_outcome = Again 's | Halt 'r

partial_function (option) run_loop ::
  "('s \<Rightarrow> ('s, 'r) loop_outcome option) \<Rightarrow> 's \<Rightarrow> 'r option" where
  "run_loop body s =
     (case body s of
        None \<Rightarrow> None
      | Some out \<Rightarrow> (case out of Again s' \<Rightarrow> run_loop body s' | Halt r \<Rightarrow> Some r))"

text \<open>
  Total correctness of a loop: an invariant, a measure every further round decreases, and a
  postcondition every way out establishes.
\<close>

definition loop_ok ::
  "('s \<Rightarrow> bool) \<Rightarrow> ('s \<Rightarrow> nat) \<Rightarrow> ('r \<Rightarrow> bool) \<Rightarrow> 's \<Rightarrow> ('s, 'r) loop_outcome option \<Rightarrow> bool" where
  "loop_ok I m Q s out =
     (case out of
        None \<Rightarrow> False
      | Some (Again s') \<Rightarrow> I s' \<and> m s' < m s
      | Some (Halt r) \<Rightarrow> Q r)"

lemma loop_ok_simps [simp]:
  "loop_ok I m Q s None \<longleftrightarrow> False"
  "loop_ok I m Q s (Some (Again s')) \<longleftrightarrow> I s' \<and> m s' < m s"
  "loop_ok I m Q s (Some (Halt r)) \<longleftrightarrow> Q r"
  by (simp_all add: loop_ok_def)

lemma run_loop_total:
  assumes "I s" and step: "\<And>s. I s \<Longrightarrow> loop_ok I m Q s (body s)"
  shows "\<exists>r. run_loop body s = Some r \<and> Q r"
  using assms(1)
proof (induction "m s" arbitrary: s rule: less_induct)
  case less
  from step [OF less.prems] show ?case
    by (cases "body s" rule: option.exhaust)
       (auto simp: run_loop.simps [of body s] loop_ok_def less.hyps split: loop_outcome.splits)
qed

text \<open>The same with a well-founded order, for loops that progress in more than one respect.\<close>

definition loop_progress ::
  "('s \<Rightarrow> bool) \<Rightarrow> ('s \<times> 's) set \<Rightarrow> ('r \<Rightarrow> bool) \<Rightarrow> 's \<Rightarrow> ('s, 'r) loop_outcome option \<Rightarrow> bool" where
  "loop_progress I R Q s out =
     (case out of
        None \<Rightarrow> False
      | Some (Again s') \<Rightarrow> I s' \<and> (s', s) \<in> R
      | Some (Halt r) \<Rightarrow> Q r)"

lemma loop_progress_simps [simp]:
  "loop_progress I R Q s None \<longleftrightarrow> False"
  "loop_progress I R Q s (Some (Again s')) \<longleftrightarrow> I s' \<and> (s', s) \<in> R"
  "loop_progress I R Q s (Some (Halt r)) \<longleftrightarrow> Q r"
  by (simp_all add: loop_progress_def)

lemma run_loop_progress:
  assumes "wf R" and "I s" and step: "\<And>s. I s \<Longrightarrow> loop_progress I R Q s (body s)"
  shows "\<exists>r. run_loop body s = Some r \<and> Q r"
  using assms(1,2)
proof (induction s rule: wf_induct_rule)
  case (less s)
  from step [OF less.prems] show ?case
    by (cases "body s" rule: option.exhaust)
       (auto simp: run_loop.simps [of body s] loop_progress_def less.IH split: loop_outcome.splits)
qed

lemma run_loop_Again: "body s = Some (Again s') \<Longrightarrow> run_loop body s = run_loop body s'"
  by (simp add: run_loop.simps [of body s])

lemma run_loop_Halt: "body s = Some (Halt r) \<Longrightarrow> run_loop body s = Some r"
  by (simp add: run_loop.simps [of body s])

text \<open>Partial correctness: a result is one that some round left the loop with.\<close>

lemma run_loop_partial:
  assumes "run_loop body s = Some r" and "\<And>s r. body s = Some (Halt r) \<Longrightarrow> Q r"
  shows "Q r"
proof -
  have "(\<forall>s r. body s = Some (Halt r) \<longrightarrow> Q r) \<longrightarrow> Q r"
    by (rule run_loop.raw_induct [OF _ assms(1), where P = "\<lambda>body s r. (\<forall>s r. body s = Some (Halt r) \<longrightarrow> Q r) \<longrightarrow> Q r"])
      (auto split: option.splits loop_outcome.splits)
  with assms(2) show ?thesis by blast
qed

text \<open>An invariant holds in the round that leaves the loop.\<close>

lemma run_loop_invariant:
  assumes "run_loop body s = Some r" and "J s"
    and "\<And>s s'. J s \<Longrightarrow> body s = Some (Again s') \<Longrightarrow> J s'"
  obtains s' where "J s'" and "body s' = Some (Halt r)"
proof -
  let ?ok = "\<lambda>body. \<forall>s s'. J s \<longrightarrow> body s = Some (Again s') \<longrightarrow> J s'"
  have "?ok body \<longrightarrow> J s \<longrightarrow> (\<exists>s'. J s' \<and> body s' = Some (Halt r))"
    by (rule run_loop.raw_induct [OF _ assms(1),
        where P = "\<lambda>body s r. ?ok body \<longrightarrow> J s \<longrightarrow> (\<exists>s'. J s' \<and> body s' = Some (Halt r))"])
      (auto split: option.splits loop_outcome.splits)
  with assms(2,3) that show ?thesis by blast
qed

text \<open>A loop whose rounds all return and that does not end goes through infinitely many rounds.\<close>

lemma run_loop_diverges:
  assumes "run_loop body s = None" and total: "\<And>s. body s \<noteq> None"
  obtains f where "f 0 = s" and "\<And>n. body (f n) = Some (Again (f (Suc n)))"
proof -
  define f where "f = rec_nat s (\<lambda>_ t. case body t of Some (Again t') \<Rightarrow> t' | _ \<Rightarrow> t)"
  have again: "\<exists>t'. body t = Some (Again t') \<and> run_loop body t' = None" if "run_loop body t = None" for t
    using that total [of t] by (cases "body t") (auto simp: run_loop.simps [of body t] split: loop_outcome.splits)
  have "body (f n) = Some (Again (f (Suc n))) \<and> run_loop body (f (Suc n)) = None" if "run_loop body (f n) = None" for n
    using again [OF that] by (auto simp: f_def)
  moreover have "run_loop body (f n) = None" for n
  proof (induction n)
    case (Suc n)
    with calculation show ?case by blast
  qed (simp add: f_def assms(1))
  ultimately have "body (f n) = Some (Again (f (Suc n)))" for n by blast
  moreover have "f 0 = s" by (simp add: f_def)
  ultimately show thesis by (rule that [rotated])
qed

section \<open>Lists and optional values\<close>

lemma pred_option_iff: "pred_option P x \<longleftrightarrow> (\<forall>y. x = Some y \<longrightarrow> P y)"
  by (cases x) simp_all

lemma mod_twice:
  assumes "x < 2 * (n::nat)"
  shows "x mod n = (if x < n then x else x - n)"
  using assms by (simp add: mod_if)

lemma takeWhile_append_replicate:
  "takeWhile P (replicate n x @ ys) = (if P x then replicate n x @ takeWhile P ys
     else if n = 0 then takeWhile P ys else [])"
  by (induction n) auto

lemma take_takeWhile_holds: "n \<le> length (takeWhile P xs) \<Longrightarrow> x \<in> set (take n xs) \<Longrightarrow> P x"
proof (induction xs arbitrary: n)
  case (Cons a xs)
  then show ?case by (cases n) (auto split: if_splits)
qed simp

lemma dropWhile_nonempty: "length (takeWhile P xs) < length xs \<Longrightarrow> dropWhile P xs \<noteq> []"
  by (metis takeWhile_dropWhile_id append_Nil2 less_irrefl)

lemma sorted_filter_takeWhile:
  "sorted xs \<Longrightarrow> filter (\<lambda>t. t \<le> n) xs = takeWhile (\<lambda>t. t \<le> n) xs"
  by (induction xs) (auto simp: takeWhile_eq_Nil_iff dest: order.trans [rotated])

lemma sorted_append_replicate:
  "sorted xs \<Longrightarrow> (\<And>y. y \<in> set xs \<Longrightarrow> y \<le> x) \<Longrightarrow> sorted (xs @ replicate n x)"
  by (auto simp: sorted_append sorted_replicate)

end
