(* ===== verification/Fifo_Interface.thy ===== *)
theory Fifo_Interface
  imports Netfault_Prelude
begin

text \<open>
  The contract of a first-in first-out store, as the relay relies on it: what a store holds is a
  list, adding appends to it, removing drops from its front, and neither operation throws within
  its bounds. The bounded byte queue and the delay line of eligibility times both promise it; the
  stream law below is proved once for every store that keeps the contract.
\<close>

datatype 'x fifo_op = Put 'x | Get nat

locale fifo =
  fixes invar :: "'q \<Rightarrow> bool"
    and contents :: "'q \<Rightarrow> 'b list"
    and put :: "'x \<Rightarrow> 'q \<Rightarrow> exn + 'q"
    and get :: "nat \<Rightarrow> 'q \<Rightarrow> exn + 'q"
    and items :: "'x \<Rightarrow> 'q \<Rightarrow> 'b list"
    and fits :: "'x \<Rightarrow> 'q \<Rightarrow> bool"
  assumes put_ok: "invar q \<Longrightarrow> fits x q \<Longrightarrow>
      \<exists>q'. put x q = Inr q' \<and> invar q' \<and> contents q' = contents q @ items x q"
    and get_ok: "invar q \<Longrightarrow> n \<le> length (contents q) \<Longrightarrow>
      \<exists>q'. get n q = Inr q' \<and> invar q' \<and> contents q' = drop n (contents q)"
begin

text \<open>
  A run of operations: the final store, everything that was added and everything that was
  removed, in order. An operation outside its bounds ends the run.
\<close>

fun fifo_run :: "'x fifo_op list \<Rightarrow> 'q \<Rightarrow> 'b list \<Rightarrow> 'b list \<Rightarrow> ('q \<times> 'b list \<times> 'b list) option" where
  "fifo_run [] q ins outs = Some (q, ins, outs)"
| "fifo_run (Put x # ops) q ins outs =
     (if fits x q
      then (case put x q of Inl _ \<Rightarrow> None | Inr q' \<Rightarrow> fifo_run ops q' (ins @ items x q) outs)
      else None)"
| "fifo_run (Get n # ops) q ins outs =
     (if n \<le> length (contents q)
      then (case get n q of Inl _ \<Rightarrow> None
            | Inr q' \<Rightarrow> fifo_run ops q' ins (outs @ take n (contents q)))
      else None)"

lemma put_appends:
  assumes "invar q" and "fits x q" and "put x q = Inr q'"
  shows "invar q'" and "contents q' = contents q @ items x q"
  using put_ok [OF assms(1,2)] assms(3) by auto

lemma get_drops:
  assumes "invar q" and "n \<le> length (contents q)" and "get n q = Inr q'"
  shows "invar q'" and "contents q' = drop n (contents q)"
  using get_ok [OF assms(1,2)] assms(3) by auto

text \<open>The stream law: nothing is lost, duplicated or reordered between the two ends.\<close>

lemma fifo_run_stream:
  assumes "fifo_run ops q ins outs = Some (q', ins', outs')"
    and "invar q" and "ins = outs @ contents q"
  shows "invar q' \<and> ins' = outs' @ contents q'"
  using assms
proof (induction ops arbitrary: q ins outs)
  case Nil
  then show ?case by auto
next
  case (Cons op ops)
  show ?case
  proof (cases op)
    case (Put x)
    with Cons.prems obtain q1 where q1: "fits x q" "put x q = Inr q1"
      "fifo_run ops q1 (ins @ items x q) outs = Some (q', ins', outs')"
      by (auto split: if_splits sum.splits)
    with Cons.prems(2,3) put_appends [of q x q1] show ?thesis
      by (intro Cons.IH [OF q1(3)]) auto
  next
    case (Get n)
    with Cons.prems obtain q1 where q1: "n \<le> length (contents q)" "get n q = Inr q1"
      "fifo_run ops q1 ins (outs @ take n (contents q)) = Some (q', ins', outs')"
      by (auto split: if_splits sum.splits)
    with Cons.prems(2,3) get_drops [of q n q1] show ?thesis
      by (intro Cons.IH [OF q1(3)]) auto
  qed
qed

end

end
