(* ===== verification/Byte_Queue.thy ===== *)
theory Byte_Queue
  imports Fifo_Interface
begin

text \<open>
  \<^verbatim>\<open>include/netfault/byte_queue.hpp\<close>: the fixed-capacity circular byte queue. The model keeps
  the storage vector, the head index, the size and the lifetime high-water mark; a
  \<^verbatim>\<open>std::span\<close> into the storage is the pair of its offset and its length. The abstraction
  \<open>bq_list\<close> reads the queued bytes in order; the lemmas show that the ring refines a bounded
  list and that the two spans are exactly the free space behind and the bytes in front.
\<close>

section \<open>State and operations\<close>

record byte_queue =
  bq_storage :: "byte list"
  bq_head :: nat
  bq_size :: nat
  bq_high_water_mark :: nat

definition bq_new :: "nat \<Rightarrow> exn + byte_queue" where
  "bq_new capacity =
     (if capacity = 0 then Inl (InvalidArgument ''ByteQueue capacity must be positive'')
      else Inr \<lparr>bq_storage = replicate capacity 0, bq_head = 0, bq_size = 0,
                bq_high_water_mark = 0\<rparr>)"

definition bq_capacity :: "byte_queue \<Rightarrow> nat" where
  "bq_capacity q = length (bq_storage q)"

definition bq_available :: "byte_queue \<Rightarrow> nat" where
  "bq_available q = sub64 (bq_capacity q) (bq_size q)"

definition bq_empty :: "byte_queue \<Rightarrow> bool" where
  "bq_empty q \<longleftrightarrow> bq_size q = 0"

definition bq_full :: "byte_queue \<Rightarrow> bool" where
  "bq_full q \<longleftrightarrow> bq_size q = bq_capacity q"

definition bq_writable_span :: "byte_queue \<Rightarrow> nat \<times> nat" where
  "bq_writable_span q =
     (if bq_full q then (0, 0)
      else let tail = add64 (bq_head q) (bq_size q) mod bq_capacity q;
               contiguous = min (bq_available q) (sub64 (bq_capacity q) tail)
           in (tail, contiguous))"

definition bq_readable_span :: "byte_queue \<Rightarrow> nat \<times> nat" where
  "bq_readable_span q =
     (if bq_empty q then (0, 0)
      else let contiguous = min (bq_size q) (sub64 (bq_capacity q) (bq_head q))
           in (bq_head q, contiguous))"

definition bq_commit_write :: "byte_queue \<Rightarrow> nat \<Rightarrow> exn + byte_queue" where
  "bq_commit_write q count =
     (if count > bq_available q
      then Inl (OutOfRange ''ByteQueue write exceeds available capacity'')
      else let size' = add64 (bq_size q) count
           in Inr (q\<lparr>bq_size := size', bq_high_water_mark := max (bq_high_water_mark q) size'\<rparr>))"

definition bq_consume :: "byte_queue \<Rightarrow> nat \<Rightarrow> exn + byte_queue" where
  "bq_consume q count =
     (if count > bq_size q
      then Inl (OutOfRange ''ByteQueue consume exceeds queued bytes'')
      else let head' = add64 (bq_head q) count mod bq_capacity q;
               size' = bq_size q - count
           in Inr (q\<lparr>bq_head := (if size' = 0 then 0 else head'), bq_size := size'\<rparr>))"

text \<open>
  What a caller does with a span: read the bytes it covers, or overwrite the first of them in
  place (\<^verbatim>\<open>recv\<close> into the writable span).
\<close>

definition bq_span_bytes :: "byte_queue \<Rightarrow> nat \<times> nat \<Rightarrow> byte list" where
  "bq_span_bytes q = (\<lambda>(offset, len). take len (drop offset (bq_storage q)))"

definition bq_fill :: "byte_queue \<Rightarrow> nat \<Rightarrow> byte list \<Rightarrow> byte_queue" where
  "bq_fill q offset bytes =
     q\<lparr>bq_storage := take offset (bq_storage q) @ bytes @
                     drop (offset + length bytes) (bq_storage q)\<rparr>"

section \<open>Invariant and abstraction\<close>

text \<open>
  A vector's length is at most \<^verbatim>\<open>PTRDIFF_MAX\<close>, so a capacity is below \<open>2 ^ 63\<close>; with it no sum of
  the operations leaves the 64-bit range.
\<close>

definition bq_inv :: "byte_queue \<Rightarrow> bool" where
  "bq_inv q \<longleftrightarrow>
     0 < bq_capacity q \<and> bq_capacity q < 9223372036854775808 \<and>
     bq_head q < bq_capacity q \<and> bq_size q \<le> bq_capacity q \<and>
     bq_size q \<le> bq_high_water_mark q \<and> bq_high_water_mark q \<le> bq_capacity q \<and>
     (bq_size q = 0 \<longrightarrow> bq_head q = 0)"

definition bq_list :: "byte_queue \<Rightarrow> byte list" where
  "bq_list q = map (\<lambda>i. bq_storage q ! ((bq_head q + i) mod bq_capacity q)) [0..<bq_size q]"

lemma bq_invD:
  assumes "bq_inv q"
  shows "0 < bq_capacity q" and "2 * bq_capacity q < u64_modulus" and "bq_head q < bq_capacity q"
    and "bq_size q \<le> bq_capacity q" and "bq_size q \<le> bq_high_water_mark q"
    and "bq_high_water_mark q \<le> bq_capacity q" and "bq_size q = 0 \<Longrightarrow> bq_head q = 0"
  using assms by (auto simp: bq_inv_def u64_modulus_def)

lemma bq_capacity_update [simp]:
  "bq_capacity (q\<lparr>bq_head := h\<rparr>) = bq_capacity q" "bq_capacity (q\<lparr>bq_size := n\<rparr>) = bq_capacity q"
  "bq_capacity (q\<lparr>bq_high_water_mark := m\<rparr>) = bq_capacity q"
  by (simp_all add: bq_capacity_def)

lemma bq_list_length [simp]: "length (bq_list q) = bq_size q"
  by (simp add: bq_list_def)

lemma bq_empty_iff: "bq_empty q \<longleftrightarrow> bq_list q = []"
  by (simp add: bq_empty_def bq_list_def)

lemma bq_available_eq [abs_simps]: "bq_inv q \<Longrightarrow> bq_available q = bq_capacity q - bq_size q"
  using bq_invD [of q] by (simp add: bq_available_def)

lemma bq_available_room: "bq_inv q \<Longrightarrow> bq_size q < bq_capacity q \<Longrightarrow> 0 < bq_available q"
  by (simp add: bq_available_eq)

lemma bq_new_ok:
  assumes "0 < capacity" and "capacity < 9223372036854775808"
  shows "\<exists>q. bq_new capacity = Inr q \<and> bq_inv q \<and> bq_list q = [] \<and> bq_capacity q = capacity \<and>
    bq_size q = 0 \<and> bq_high_water_mark q = 0"
  using assms by (simp add: bq_new_def bq_inv_def bq_list_def bq_capacity_def)

section \<open>The spans\<close>

lemma bq_tail_eq:
  assumes "bq_inv q"
  shows "add64 (bq_head q) (bq_size q) mod bq_capacity q =
    (if bq_head q + bq_size q < bq_capacity q then bq_head q + bq_size q
     else bq_head q + bq_size q - bq_capacity q)"
proof -
  note inv = bq_invD [OF assms]
  have "bq_head q + bq_size q < 2 * bq_capacity q" using inv(3,4) by simp
  moreover from this have "add64 (bq_head q) (bq_size q) = bq_head q + bq_size q"
    using inv(2) by simp
  ultimately show ?thesis by (simp add: mod_twice)
qed

lemma bq_writable_span_eq:
  assumes "bq_inv q" and "\<not> bq_full q"
  shows "bq_writable_span q =
    (if bq_head q + bq_size q < bq_capacity q
     then (bq_head q + bq_size q, bq_capacity q - (bq_head q + bq_size q))
     else (bq_head q + bq_size q - bq_capacity q, bq_capacity q - bq_size q))"
  using bq_invD [OF assms(1)] assms
  by (auto simp: bq_writable_span_def bq_tail_eq bq_available_eq Let_def simp del: add64_exact)

lemma bq_writable_span_bounds:
  assumes "bq_inv q" and "bq_writable_span q = (off, len)"
  shows "off + len \<le> bq_capacity q" and "len \<le> bq_capacity q - bq_size q"
    and "bq_size q < bq_capacity q \<Longrightarrow> 0 < len"
proof -
  show "off + len \<le> bq_capacity q" and "len \<le> bq_capacity q - bq_size q"
    and "bq_size q < bq_capacity q \<Longrightarrow> 0 < len"
    using bq_invD [OF assms(1)] assms(2) bq_writable_span_eq [OF assms(1)]
    by (cases "bq_full q"; auto simp: bq_writable_span_def bq_full_def split: if_splits)+
qed

lemma bq_readable_span_eq:
  assumes "bq_inv q"
  shows "bq_readable_span q =
    (if bq_size q = 0 then (0, 0) else (bq_head q, min (bq_size q) (bq_capacity q - bq_head q)))"
  using bq_invD [OF assms] by (simp add: bq_readable_span_def bq_empty_def Let_def)

text \<open>The readable span covers a prefix of the queued bytes, and it is not empty when they are not.\<close>

lemma bq_readable_span_prefix:
  assumes "bq_inv q"
  shows "bq_span_bytes q (bq_readable_span q) = take (snd (bq_readable_span q)) (bq_list q)"
    and "snd (bq_readable_span q) \<le> bq_size q"
    and "0 < bq_size q \<Longrightarrow> 0 < snd (bq_readable_span q)"
proof -
  note inv = bq_invD [OF assms]
  show "bq_span_bytes q (bq_readable_span q) = take (snd (bq_readable_span q)) (bq_list q)"
    using inv(1,3)
    by (intro nth_equalityI)
       (auto simp: bq_readable_span_eq [OF assms] bq_span_bytes_def bq_list_def bq_capacity_def)
  show "snd (bq_readable_span q) \<le> bq_size q"
    by (simp add: bq_readable_span_eq [OF assms])
  show "0 < bq_size q \<Longrightarrow> 0 < snd (bq_readable_span q)"
    using inv by (simp add: bq_readable_span_eq [OF assms])
qed

lemma bq_span_bytes_length:
  "off + len \<le> bq_capacity q \<Longrightarrow> length (bq_span_bytes q (off, len)) = len"
  by (simp add: bq_span_bytes_def bq_capacity_def)

section \<open>The ring refines a bounded list\<close>

lemma bq_fill_capacity [simp]:
  "off + length xs \<le> bq_capacity q \<Longrightarrow> bq_capacity (bq_fill q off xs) = bq_capacity q"
  by (simp add: bq_fill_def bq_capacity_def)

lemma bq_fill_fields [simp]:
  "bq_head (bq_fill q off xs) = bq_head q" "bq_size (bq_fill q off xs) = bq_size q"
  "bq_high_water_mark (bq_fill q off xs) = bq_high_water_mark q"
  by (simp_all add: bq_fill_def)

lemma bq_fill_nth:
  assumes "off + length xs \<le> bq_capacity q" and "i < bq_capacity q"
  shows "bq_storage (bq_fill q off xs) ! i =
    (if off \<le> i \<and> i < off + length xs then xs ! (i - off) else bq_storage q ! i)"
  using assms by (auto simp: bq_fill_def bq_capacity_def nth_append)

lemma bq_fill_inv [inv_intros]:
  "bq_inv q \<Longrightarrow> off + length xs \<le> bq_capacity q \<Longrightarrow> bq_inv (bq_fill q off xs)"
  by (simp add: bq_inv_def)

lemma bq_slot_old:
  assumes "bq_inv q" and "bq_writable_span q = (off, len)" and "i < bq_size q"
  shows "\<not> (off \<le> (bq_head q + i) mod bq_capacity q \<and> (bq_head q + i) mod bq_capacity q < off + len)"
proof -
  note inv = bq_invD [OF assms(1)]
  have "(bq_head q + i) mod bq_capacity q =
      (if bq_head q + i < bq_capacity q then bq_head q + i else bq_head q + i - bq_capacity q)"
    using inv assms(3) by (intro mod_twice) simp
  then show ?thesis
    using inv assms bq_writable_span_eq [OF assms(1)]
    by (cases "bq_full q") (auto simp: bq_writable_span_def split: if_splits)
qed

lemma bq_slot_new:
  assumes "bq_inv q" and "bq_writable_span q = (off, len)" and "bq_size q \<le> i" and "i < bq_size q + len"
  shows "(bq_head q + i) mod bq_capacity q = off + (i - bq_size q)"
proof -
  note inv = bq_invD [OF assms(1)]
  have nf: "\<not> bq_full q" using assms by (auto simp: bq_writable_span_def)
  have "bq_head q + i < 2 * bq_capacity q"
    using inv assms bq_writable_span_bounds [OF assms(1,2)] by simp
  then have "(bq_head q + i) mod bq_capacity q =
      (if bq_head q + i < bq_capacity q then bq_head q + i else bq_head q + i - bq_capacity q)"
    by (rule mod_twice)
  then show ?thesis
    using inv assms bq_writable_span_eq [OF assms(1) nf] by (auto split: if_splits)
qed

text \<open>Filling the writable span alone leaves the queued bytes as they are.\<close>

lemma bq_fill_list:
  assumes "bq_inv q" and "bq_writable_span q = (off, len)" and "length xs \<le> len"
  shows "bq_list (bq_fill q off xs) = bq_list q"
proof (rule nth_equalityI)
  have fits: "off + length xs \<le> bq_capacity q" using bq_writable_span_bounds [OF assms(1,2)] assms(3) by simp
  fix k assume "k < length (bq_list (bq_fill q off xs))"
  then have k: "k < bq_size q" by simp
  have "bq_storage (bq_fill q off xs) ! ((bq_head q + k) mod bq_capacity q) =
      bq_storage q ! ((bq_head q + k) mod bq_capacity q)"
    using bq_slot_old [OF assms(1,2) k] fits bq_invD(1) [OF assms(1)] assms(3)
    by (subst bq_fill_nth) auto
  with k fits show "bq_list (bq_fill q off xs) ! k = bq_list q ! k" by (simp add: bq_list_def)
qed simp

text \<open>Filling the writable span and committing \<open>n\<close> of its bytes appends them to the queue.\<close>

lemma bq_fill_commit:
  assumes inv: "bq_inv q" and span: "bq_writable_span q = (off, len)"
    and xs: "length xs \<le> len" and n: "n \<le> length xs"
  shows "\<exists>q'. bq_commit_write (bq_fill q off xs) n = Inr q' \<and> bq_inv q' \<and>
    bq_list q' = bq_list q @ take n xs \<and> bq_capacity q' = bq_capacity q \<and>
    bq_size q' = bq_size q + n \<and> bq_high_water_mark q' = max (bq_high_water_mark q) (bq_size q + n)"
proof -
  note b = bq_writable_span_bounds [OF inv span] and i = bq_invD [OF inv]
  let ?f = "bq_fill q off xs"
  let ?q = "?f\<lparr>bq_size := bq_size q + n, bq_high_water_mark := max (bq_high_water_mark q) (bq_size q + n)\<rparr>"
  have fits: "off + length xs \<le> bq_capacity q" using b xs by simp
  have c: "bq_capacity ?q = bq_capacity q" using fits by (simp add: bq_capacity_def bq_fill_def)
  have "bq_inv ?f" using inv fits by (rule bq_fill_inv)
  then have "bq_commit_write ?f n = Inr ?q"
    using fits b i xs n by (simp add: bq_commit_write_def bq_available_eq Let_def)
  moreover have "bq_inv ?q" using i b xs n inv unfolding bq_inv_def c by auto
  moreover have "bq_list ?q = bq_list q @ take n xs"
  proof (rule nth_equalityI)
    fix k assume k: "k < length (bq_list ?q)"
    then have slot: "bq_list ?q ! k = bq_storage ?f ! ((bq_head q + k) mod bq_capacity q)"
      using c by (simp add: bq_list_def)
    show "bq_list ?q ! k = (bq_list q @ take n xs) ! k"
    proof (cases "k < bq_size q")
      case True
      with slot bq_slot_old [OF inv span True] fits i(1) xs show ?thesis
        by (auto simp: bq_fill_nth bq_list_def nth_append)
    next
      case False
      then obtain j where "k = bq_size q + j"
        using le_Suc_ex not_less by blast
      with slot bq_slot_new [OF inv span, of k] fits b k xs n show ?thesis
        by (simp add: bq_fill_nth nth_append)
    qed
  qed (use n in simp)
  ultimately show ?thesis using c by simp
qed

text \<open>Consuming drops from the front.\<close>

lemma bq_consume_ok:
  assumes inv: "bq_inv q" and n: "n \<le> bq_size q"
  shows "\<exists>q'. bq_consume q n = Inr q' \<and> bq_inv q' \<and> bq_list q' = drop n (bq_list q) \<and>
    bq_capacity q' = bq_capacity q \<and> bq_size q' = bq_size q - n \<and>
    bq_high_water_mark q' = bq_high_water_mark q"
proof -
  note i = bq_invD [OF inv]
  let ?h = "(bq_head q + n) mod bq_capacity q"
  let ?q = "q\<lparr>bq_head := (if bq_size q - n = 0 then 0 else ?h), bq_size := bq_size q - n\<rparr>"
  have c: "bq_capacity ?q = bq_capacity q" by (simp add: bq_capacity_def)
  have "bq_consume q n = Inr ?q"
    using n i by (simp add: bq_consume_def)
  moreover have "bq_inv ?q" using i n inv unfolding bq_inv_def c by auto
  moreover have "bq_list ?q = drop n (bq_list q)"
    by (rule nth_equalityI) (auto simp: bq_list_def mod_add_left_eq add.assoc)
  ultimately show ?thesis using c by simp
qed

lemma bq_consume_too_much:
  "bq_size q < n \<Longrightarrow> bq_consume q n = Inl (OutOfRange ''ByteQueue consume exceeds queued bytes'')"
  by (simp add: bq_consume_def)

section \<open>The byte queue is a fifo\<close>

text \<open>The writer's half of the interface: fill the writable span with a buffer, commit a prefix of it.\<close>

definition bq_put :: "byte list \<times> nat \<Rightarrow> byte_queue \<Rightarrow> exn + byte_queue" where
  "bq_put = (\<lambda>(buffer, n) q. bq_commit_write (bq_fill q (fst (bq_writable_span q)) buffer) n)"

interpretation bq: fifo bq_inv bq_list bq_put "\<lambda>n q. bq_consume q n" "\<lambda>(buffer, n) q. take n buffer"
  "\<lambda>(buffer, n) q. length buffer \<le> snd (bq_writable_span q) \<and> n \<le> length buffer"
proof unfold_locales
  fix q and x :: "byte list \<times> nat"
  assume inv: "bq_inv q"
    and fits: "(case x of (buffer, n) \<Rightarrow> \<lambda>q. length buffer \<le> snd (bq_writable_span q) \<and> n \<le> length buffer) q"
  obtain buffer n where x: "x = (buffer, n)" by (cases x)
  show "\<exists>q'. bq_put x q = Inr q' \<and> bq_inv q' \<and>
      bq_list q' = bq_list q @ (case x of (buffer, n) \<Rightarrow> \<lambda>q. take n buffer) q"
    using bq_fill_commit [OF inv prod.collapse [symmetric], of buffer n] fits x
    by (auto simp: bq_put_def)
next
  fix q n
  assume "bq_inv q" and "n \<le> length (bq_list q)"
  then show "\<exists>q'. bq_consume q n = Inr q' \<and> bq_inv q' \<and> bq_list q' = drop n (bq_list q)"
    using bq_consume_ok [of q n] by auto
qed

section \<open>Properties\<close>

text \<open>
  C17. The ring is a stream. Starting from a new queue, after any sequence of writes into the
  writable span and consumes from the front that respects the spans' bounds, everything written is
  everything consumed followed by everything still queued; the index arithmetic, its wrap-around
  and the reset of the head on empty lose, duplicate and reorder nothing.
\<close>

theorem bq_stream:
  assumes "bq_new capacity = Inr q" and "capacity < 9223372036854775808"
    and "bq.fifo_run ops q [] [] = Some (q', written, consumed)"
  shows "written = consumed @ bq_list q' \<and> bq_inv q'"
proof -
  have "0 < capacity" using assms(1) by (auto simp: bq_new_def split: if_splits)
  then have "bq_inv q" and "bq_list q = []" using bq_new_ok [of capacity] assms(1,2) by auto
  then show ?thesis using bq.fifo_run_stream [OF assms(3)] by auto
qed

definition bq_ops_example :: "(byte list \<times> nat) fifo_op list" where
  "bq_ops_example = [Put ([1, 2, 3], 3), Get 2, Put ([4], 1), Put ([5, 6], 2), Get 1]"

definition bq_state :: "byte list \<Rightarrow> nat \<Rightarrow> nat \<Rightarrow> nat \<Rightarrow> byte_queue" where
  "bq_state storage head queued high =
     \<lparr>bq_storage = storage, bq_head = head, bq_size = queued, bq_high_water_mark = high\<rparr>"

lemmas bq_eval = bq_state_def bq_put_def bq_consume_def bq_commit_write_def bq_writable_span_def bq_fill_def
  bq_full_def bq_capacity_def bq_available_def Let_def u64_modulus_def

lemma bq_example_puts:
  "bq_put ([1, 2, 3], 3) (bq_state [0, 0, 0, 0] 0 0 0) = Inr (bq_state [1, 2, 3, 0] 0 3 3)"
  "bq_put ([4], 1) (bq_state [1, 2, 3, 0] 2 1 3) = Inr (bq_state [1, 2, 3, 4] 2 2 3)"
  "bq_put ([5, 6], 2) (bq_state [1, 2, 3, 4] 2 2 3) = Inr (bq_state [5, 6, 3, 4] 2 4 4)"
  by (simp_all add: bq_eval)

lemma bq_example_gets:
  "bq_consume (bq_state [1, 2, 3, 0] 0 3 3) 2 = Inr (bq_state [1, 2, 3, 0] 2 1 3)"
  "bq_consume (bq_state [5, 6, 3, 4] 2 4 4) 1 = Inr (bq_state [5, 6, 3, 4] 3 3 4)"
  by (simp_all add: bq_eval)

lemma bq_example_views:
  "bq_writable_span (bq_state [0, 0, 0, 0] 0 0 0) = (0, 4)"
  "bq_writable_span (bq_state [1, 2, 3, 0] 2 1 3) = (3, 1)"
  "bq_writable_span (bq_state [1, 2, 3, 4] 2 2 3) = (0, 2)"
  "bq_list (bq_state [1, 2, 3, 0] 0 3 3) = [1, 2, 3]" "bq_list (bq_state [5, 6, 3, 4] 2 4 4) = [3, 4, 5, 6]"
  "bq_list (bq_state [5, 6, 3, 4] 3 3 4) = [4, 5, 6]"
  by (simp_all add: bq_eval bq_list_def upt_rec)

theorem bq_stream_witness:
  "\<exists>q'. bq_new 4 = Inr (bq_state [0, 0, 0, 0] 0 0 0) \<and>
     bq.fifo_run bq_ops_example (bq_state [0, 0, 0, 0] 0 0 0) [] [] = Some (q', [1, 2, 3, 4, 5, 6], [1, 2, 3]) \<and>
     [1, 2, 3, 4, 5, 6] = [1, 2, 3] @ bq_list q'"
proof -
  have new: "bq_new 4 = Inr (bq_state [0, 0, 0, 0] 0 0 0)" by (simp add: bq_new_def bq_state_def numeral_eq_Suc)
  have run: "bq.fifo_run bq_ops_example (bq_state [0, 0, 0, 0] 0 0 0) [] [] =
      Some (bq_state [5, 6, 3, 4] 3 3 4, [1, 2, 3, 4, 5, 6], [1, 2, 3])"
    by (simp add: bq_ops_example_def bq_example_puts bq_example_gets bq_example_views del: bq_list_length One_nat_def)
      (simp add: numeral_eq_Suc)
  with bq_stream [OF new _ run] new show ?thesis by auto
qed

text \<open>
  The spans. In every queue that satisfies the invariant the readable span is the front of the
  queued bytes and is empty only when the queue is, the writable span lies inside the storage, is
  empty only when the queue is full, and whatever is written into it leaves the queued bytes
  unchanged until it is committed.
\<close>

theorem bq_spans:
  assumes "bq_inv q"
  shows "bq_span_bytes q (bq_readable_span q) = take (snd (bq_readable_span q)) (bq_list q) \<and>
    (snd (bq_readable_span q) = 0 \<longleftrightarrow> bq_empty q) \<and>
    fst (bq_writable_span q) + snd (bq_writable_span q) \<le> bq_capacity q \<and>
    (snd (bq_writable_span q) = 0 \<longleftrightarrow> bq_full q) \<and>
    (\<forall>xs. length xs \<le> snd (bq_writable_span q) \<longrightarrow>
       bq_list (bq_fill q (fst (bq_writable_span q)) xs) = bq_list q)"
proof -
  note w = bq_writable_span_bounds [OF assms prod.collapse [symmetric]]
  have "snd (bq_writable_span q) = 0 \<longleftrightarrow> bq_full q"
    using w(3) bq_invD(4) [OF assms] by (auto simp: bq_full_def bq_writable_span_def)
  moreover have "snd (bq_readable_span q) = 0 \<longleftrightarrow> bq_empty q"
    using bq_readable_span_prefix(3) [OF assms] by (auto simp: bq_empty_def bq_readable_span_def)
  ultimately show ?thesis
    using bq_readable_span_prefix(1) [OF assms] w(1) bq_fill_list [OF assms prod.collapse [symmetric]] by auto
qed

theorem bq_spans_witness:
  "bq_inv \<lparr>bq_storage = [5, 6, 3, 4], bq_head = 2, bq_size = 3, bq_high_water_mark = 4\<rparr> \<and>
   bq_span_bytes \<lparr>bq_storage = [5, 6, 3, 4], bq_head = 2, bq_size = 3, bq_high_water_mark = 4\<rparr> (2, 2) =
     take 2 (bq_list \<lparr>bq_storage = [5, 6, 3, 4], bq_head = 2, bq_size = 3, bq_high_water_mark = 4\<rparr>)"
proof -
  let ?q = "\<lparr>bq_storage = [5, 6, 3, 4], bq_head = 2, bq_size = 3, bq_high_water_mark = 4\<rparr> :: byte_queue"
  have inv: "bq_inv ?q" by (simp add: bq_inv_def bq_capacity_def)
  have "bq_readable_span ?q = (2, 2)"
    by (simp add: bq_readable_span_def bq_empty_def bq_capacity_def u64_modulus_def)
  with bq_spans [OF inv] inv show ?thesis by simp
qed

end
