(* ===== verification/Backpressure.thy ===== *)
theory Backpressure
  imports Netfault_Prelude
begin

text \<open>
  \<^verbatim>\<open>include/netfault/backpressure.hpp\<close>: the watermark tracker that decides when a direction stops
  and resumes reading. The lemmas show the hysteresis between the two marks, that pauses and
  resumes alternate, and that the accumulated pause time is the time really spent paused.
\<close>

section \<open>State and operations\<close>

datatype backpressure_transition = NoTransition | Paused | Resumed

record backpressure =
  bp_low_water_bytes :: nat
  bp_high_water_bytes :: nat
  bp_read_paused :: bool
  bp_at_capacity :: bool
  bp_pause_started_at :: time
  bp_total_paused :: time
  bp_pause_count :: u64
  bp_resume_count :: u64
  bp_saturation_count :: u64

definition bp_new :: "nat \<Rightarrow> nat \<Rightarrow> exn + backpressure" where
  "bp_new low_water high_water =
     (if high_water = 0 \<or> low_water \<ge> high_water
      then Inl (InvalidArgument ''backpressure watermarks require 0 <= low < high'')
      else Inr \<lparr>bp_low_water_bytes = low_water, bp_high_water_bytes = high_water,
                bp_read_paused = False, bp_at_capacity = False, bp_pause_started_at = 0,
                bp_total_paused = 0, bp_pause_count = 0, bp_resume_count = 0,
                bp_saturation_count = 0\<rparr>)"

definition bp_note_saturation :: "backpressure \<Rightarrow> nat \<Rightarrow> nat \<Rightarrow> backpressure" where
  "bp_note_saturation b occupancy capacity =
     (if occupancy = capacity
      then (if \<not> bp_at_capacity b
            then b\<lparr>bp_saturation_count := bp_saturation_count b + 1, bp_at_capacity := True\<rparr>
            else b)
      else b\<lparr>bp_at_capacity := False\<rparr>)"

definition bp_observe ::
  "backpressure \<Rightarrow> nat \<Rightarrow> nat \<Rightarrow> time \<Rightarrow> exn + (backpressure_transition \<times> backpressure)" where
  "bp_observe b occupancy capacity now =
     (if occupancy > capacity \<or> bp_high_water_bytes b > capacity
      then Inl (OutOfRange ''backpressure occupancy or high-water mark exceeds capacity'')
      else
        let b = bp_note_saturation b occupancy capacity in
        if \<not> bp_read_paused b \<and> occupancy \<ge> bp_high_water_bytes b
        then Inr (Paused, b\<lparr>bp_read_paused := True, bp_pause_started_at := now,
                            bp_pause_count := bp_pause_count b + 1\<rparr>)
        else if bp_read_paused b \<and> occupancy \<le> bp_low_water_bytes b
        then Inr (Resumed, b\<lparr>bp_read_paused := False,
                             bp_total_paused := bp_total_paused b + (now - bp_pause_started_at b),
                             bp_resume_count := bp_resume_count b + 1\<rparr>)
        else Inr (NoTransition, b))"

definition bp_paused_duration :: "backpressure \<Rightarrow> time \<Rightarrow> time" where
  "bp_paused_duration b now =
     (let current_pause = (if bp_read_paused b then now - bp_pause_started_at b else 0)
      in bp_total_paused b + current_pause)"

section \<open>Invariants\<close>

text \<open>
  \<open>bp_inv\<close> holds of a tracker at all times; \<open>bp_synced\<close> relates it to the occupancy it was last
  shown: reading is paused only above the low mark and open only below the high mark.
\<close>

definition bp_inv :: "backpressure \<Rightarrow> bool" where
  "bp_inv b \<longleftrightarrow> bp_low_water_bytes b < bp_high_water_bytes b \<and>
     bp_pause_count b = bp_resume_count b + (if bp_read_paused b then 1 else 0)"

definition bp_synced :: "backpressure \<Rightarrow> nat \<Rightarrow> nat \<Rightarrow> bool" where
  "bp_synced b occupancy capacity \<longleftrightarrow>
     (bp_read_paused b \<longrightarrow> bp_low_water_bytes b < occupancy) \<and>
     (\<not> bp_read_paused b \<longrightarrow> occupancy < bp_high_water_bytes b) \<and>
     (bp_at_capacity b \<longleftrightarrow> occupancy = capacity)"

text \<open>
  A sequence of observations, and the pause state it should lead to: the reference machine has
  one bit and no clock.
\<close>

fun bp_run :: "nat \<Rightarrow> backpressure \<Rightarrow> (nat \<times> time) list \<Rightarrow> exn + backpressure" where
  "bp_run capacity b [] = Inr b"
| "bp_run capacity b ((occupancy, now) # obs) =
     (case bp_observe b occupancy capacity now of
        Inl e \<Rightarrow> Inl e
      | Inr (_, b') \<Rightarrow> bp_run capacity b' obs)"

definition pause_next :: "nat \<Rightarrow> nat \<Rightarrow> bool \<Rightarrow> nat \<Rightarrow> bool" where
  "pause_next low high paused occupancy =
     (if paused then \<not> occupancy \<le> low else high \<le> occupancy)"

text \<open>The time spent paused from \<open>t\<close> to \<open>e\<close>, computed interval by interval.\<close>

fun paused_time :: "nat \<Rightarrow> nat \<Rightarrow> bool \<Rightarrow> time \<Rightarrow> (nat \<times> time) list \<Rightarrow> time \<Rightarrow> time" where
  "paused_time low high paused t [] e = (if paused then e - t else 0)"
| "paused_time low high paused t ((occupancy, now) # obs) e =
     (if paused then now - t else 0) +
     paused_time low high (pause_next low high paused occupancy) now obs e"

section \<open>Lemmas\<close>

lemma bp_new_ok:
  "low < high \<Longrightarrow> \<exists>b. bp_new low high = Inr b \<and> bp_inv b \<and> bp_low_water_bytes b = low \<and>
     bp_high_water_bytes b = high \<and> \<not> bp_read_paused b \<and> \<not> bp_at_capacity b \<and>
     bp_total_paused b = 0 \<and> bp_pause_count b = 0"
  by (simp add: bp_new_def bp_inv_def)

lemma bp_new_rejects: "\<not> low < high \<Longrightarrow> \<exists>e. bp_new low high = Inl e"
  by (simp add: bp_new_def)

lemma bp_note_saturation_fields [simp]:
  "bp_low_water_bytes (bp_note_saturation b occ cap) = bp_low_water_bytes b"
  "bp_high_water_bytes (bp_note_saturation b occ cap) = bp_high_water_bytes b"
  "bp_read_paused (bp_note_saturation b occ cap) = bp_read_paused b"
  "bp_pause_started_at (bp_note_saturation b occ cap) = bp_pause_started_at b"
  "bp_total_paused (bp_note_saturation b occ cap) = bp_total_paused b"
  "bp_pause_count (bp_note_saturation b occ cap) = bp_pause_count b"
  "bp_resume_count (bp_note_saturation b occ cap) = bp_resume_count b"
  "bp_at_capacity (bp_note_saturation b occ cap) \<longleftrightarrow> occ = cap"
  by (simp_all add: bp_note_saturation_def)

lemma bp_observe_marks:
  "bp_observe b occ cap now = Inr (tr, b') \<Longrightarrow>
     bp_low_water_bytes b' = bp_low_water_bytes b \<and> bp_high_water_bytes b' = bp_high_water_bytes b"
  by (auto simp: bp_observe_def Let_def split: if_splits)

lemma bp_observe_paused:
  "bp_observe b occ cap now = Inr (tr, b') \<Longrightarrow>
     bp_read_paused b' = pause_next (bp_low_water_bytes b) (bp_high_water_bytes b) (bp_read_paused b) occ"
  by (auto simp: bp_observe_def Let_def pause_next_def split: if_splits)

lemma bp_observe_ok:
  assumes "bp_inv b" and "occ \<le> cap" and "bp_high_water_bytes b \<le> cap"
  shows "\<exists>tr b'. bp_observe b occ cap now = Inr (tr, b') \<and> bp_inv b' \<and> bp_synced b' occ cap \<and>
    bp_low_water_bytes b' = bp_low_water_bytes b \<and> bp_high_water_bytes b' = bp_high_water_bytes b"
  using assms by (auto simp: bp_observe_def bp_inv_def bp_synced_def Let_def)

lemma bp_observe_transition:
  assumes "bp_observe b occ cap now = Inr (tr, b')"
  shows "tr = Paused \<longleftrightarrow> \<not> bp_read_paused b \<and> bp_read_paused b'"
    and "tr = Resumed \<longleftrightarrow> bp_read_paused b \<and> \<not> bp_read_paused b'"
  using assms by (auto simp: bp_observe_def Let_def split: if_splits)

text \<open>One observation accounts for exactly the time since the last instant looked at.\<close>

lemma bp_observe_duration:
  assumes "bp_observe b occ cap now = Inr (tr, b')"
  shows "bp_paused_duration b' e = bp_paused_duration b t + (if bp_read_paused b then now - t else 0) +
    (if bp_read_paused b' then e - now else 0)"
  using assms by (auto simp: bp_observe_def Let_def bp_paused_duration_def split: if_splits)

lemma bp_run_ConsE:
  assumes "bp_run cap b ((occ, now) # obs) = Inr b'"
  obtains tr b1 where "bp_observe b occ cap now = Inr (tr, b1)" and "bp_run cap b1 obs = Inr b'"
  using assms by (auto split: sum.splits)

lemma bp_run_total:
  assumes "bp_inv b" and "bp_high_water_bytes b \<le> cap" and "\<forall>o1 \<in> set obs. fst o1 \<le> cap"
  shows "\<exists>b'. bp_run cap b obs = Inr b' \<and> bp_inv b'"
  using assms
proof (induction obs arbitrary: b)
  case Nil
  then show ?case by simp
next
  case (Cons o1 obs)
  obtain occ t where o1: "o1 = (occ, t)" by (cases o1)
  with Cons.prems bp_observe_ok [of b occ cap t] obtain tr b1
    where "bp_observe b occ cap t = Inr (tr, b1)" "bp_inv b1" "bp_high_water_bytes b1 \<le> cap"
    by auto
  with Cons.IH [of b1] Cons.prems(3) o1 show ?case by auto
qed

section \<open>Properties\<close>

text \<open>
  C29. Pause accounting. Whatever sequence of occupancies a tracker is shown, as long as none
  exceeds the capacity it never throws, it keeps its invariant (so the number of pauses exceeds
  the number of resumes by one exactly while reading is paused), and the pause time it reports
  at any instant \<open>e\<close> is the pause time it had reported at \<open>t\<close> plus the time the two-watermark
  hysteresis machine spends in its paused state between \<open>t\<close> and \<open>e\<close>.
\<close>

theorem bp_run_paused_time:
  assumes "bp_inv b" and "bp_high_water_bytes b \<le> cap" and "\<forall>o1 \<in> set obs. fst o1 \<le> cap"
  shows "\<exists>b'. bp_run cap b obs = Inr b' \<and> bp_inv b' \<and>
    bp_paused_duration b' e = bp_paused_duration b t +
      paused_time (bp_low_water_bytes b) (bp_high_water_bytes b) (bp_read_paused b) t obs e"
proof -
  obtain b' where run: "bp_run cap b obs = Inr b'" and inv: "bp_inv b'"
    using bp_run_total [OF assms] by blast
  from run have "bp_paused_duration b' e = bp_paused_duration b t +
      paused_time (bp_low_water_bytes b) (bp_high_water_bytes b) (bp_read_paused b) t obs e"
  proof (induction obs arbitrary: b t)
    case Nil
    then show ?case by (simp add: bp_paused_duration_def)
  next
    case (Cons o1 obs)
    obtain occ now where o1: "o1 = (occ, now)" by (cases o1)
    with Cons.prems obtain tr b1 where b1: "bp_observe b occ cap now = Inr (tr, b1)"
      "bp_run cap b1 obs = Inr b'" using bp_run_ConsE by blast
    note Cons.IH [OF b1(2), of now]
    moreover note bp_observe_duration [OF b1(1), of now t]
    ultimately show ?case
      using bp_observe_marks [OF b1(1)] bp_observe_paused [OF b1(1)] o1 by simp
  qed
  with run inv show ?thesis by blast
qed

definition bp_example :: backpressure where
  "bp_example = \<lparr>bp_low_water_bytes = 2, bp_high_water_bytes = 6, bp_read_paused = False,
     bp_at_capacity = False, bp_pause_started_at = 0, bp_total_paused = 0, bp_pause_count = 0,
     bp_resume_count = 0, bp_saturation_count = 0\<rparr>"

theorem bp_run_paused_time_witness:
  "bp_inv bp_example \<and> (\<exists>b'. bp_run 8 bp_example [(8, 100), (5, 130), (1, 170), (3, 200)] = Inr b' \<and>
     bp_inv b' \<and> bp_paused_duration b' 250 = 70)"
proof -
  have inv: "bp_inv bp_example" by (simp add: bp_inv_def bp_example_def)
  have "\<exists>b'. bp_run 8 bp_example [(8, 100), (5, 130), (1, 170), (3, 200)] = Inr b' \<and> bp_inv b' \<and>
      bp_paused_duration b' 250 = bp_paused_duration bp_example 0 +
        paused_time (bp_low_water_bytes bp_example) (bp_high_water_bytes bp_example)
          (bp_read_paused bp_example) 0 [(8, 100), (5, 130), (1, 170), (3, 200)] 250"
    by (rule bp_run_paused_time [OF inv]) (auto simp: bp_example_def)
  with inv show ?thesis
    by (simp add: bp_example_def pause_next_def bp_paused_duration_def)
qed

end
