(* ===== verification/Connection_State.thy ===== *)
theory Connection_State
  imports Netfault_Prelude
begin

text \<open>
  \<^verbatim>\<open>include/netfault/connection_state.hpp\<close>: the coarse connection state and how it follows from
  the three lifecycle flags.
\<close>

datatype connection_state =
    ConnectingUpstream
  | Active
  | ClientReadClosed
  | UpstreamReadClosed
  | Draining
  | FullyClosed
  | Reset
  | Failed
  | TimedOut

record connection_lifecycle =
  cl_upstream_connecting :: bool
  cl_client_read_open :: bool
  cl_upstream_read_open :: bool

definition derive_connection_state :: "connection_lifecycle \<Rightarrow> connection_state" where
  "derive_connection_state l =
     (if cl_upstream_connecting l then ConnectingUpstream
      else if \<not> cl_client_read_open l \<and> \<not> cl_upstream_read_open l then Draining
      else if \<not> cl_client_read_open l then ClientReadClosed
      else if \<not> cl_upstream_read_open l then UpstreamReadClosed
      else Active)"

fun state_name :: "connection_state \<Rightarrow> string" where
  "state_name ConnectingUpstream = ''connecting_upstream''"
| "state_name Active = ''active''"
| "state_name ClientReadClosed = ''client_read_closed''"
| "state_name UpstreamReadClosed = ''upstream_read_closed''"
| "state_name Draining = ''draining''"
| "state_name FullyClosed = ''fully_closed''"
| "state_name Reset = ''reset''"
| "state_name Failed = ''failed''"
| "state_name TimedOut = ''timed_out''"

text \<open>The states a live connection can be in; the other four are only ever final.\<close>

definition live_state :: "connection_state \<Rightarrow> bool" where
  "live_state s \<longleftrightarrow>
     s \<in> {ConnectingUpstream, Active, ClientReadClosed, UpstreamReadClosed, Draining}"

lemma derive_connection_state_live [simp]: "live_state (derive_connection_state l)"
  by (simp add: derive_connection_state_def live_state_def)

lemma derive_connection_state_iff:
  "derive_connection_state l = Draining \<longleftrightarrow>
     \<not> cl_upstream_connecting l \<and> \<not> cl_client_read_open l \<and> \<not> cl_upstream_read_open l"
  "derive_connection_state l = ConnectingUpstream \<longleftrightarrow> cl_upstream_connecting l"
  "derive_connection_state l = Active \<longleftrightarrow>
     \<not> cl_upstream_connecting l \<and> cl_client_read_open l \<and> cl_upstream_read_open l"
  by (auto simp: derive_connection_state_def)

lemma state_name_inject [simp]: "state_name a = state_name b \<longleftrightarrow> a = b"
  by (cases a; cases b) simp_all

end
