(* ===== verification/Delay_Line.thy ===== *)
theory Delay_Line
  imports Fifo_Interface
begin

text \<open>
  \<^verbatim>\<open>include/netfault/delay_line.hpp\<close>: latency bookkeeping for one direction, a deque of segments
  (byte count, eligibility time). The abstraction \<open>dl_times\<close> gives every pending byte its own
  eligibility time; seen through it the merging of segments disappears, the line is a fifo of
  time stamps, and the stamps never decrease, so bytes are never reordered.
\<close>

section \<open>State and operations\<close>

record delay_segment =
  seg_bytes :: nat
  seg_eligible_at :: time

record delay_line =
  dl_segments :: "delay_segment list"
  dl_pending :: nat
  dl_last_eligible :: time

definition dl_new :: delay_line where
  "dl_new = \<lparr>dl_segments = [], dl_pending = 0, dl_last_eligible = 0\<rparr>"

definition dl_on_commit :: "delay_line \<Rightarrow> nat \<Rightarrow> time \<Rightarrow> delay_line" where
  "dl_on_commit d bytes eligible_at =
     (if bytes = 0 then d
      else
        let eligible_at = (if eligible_at < dl_last_eligible d then dl_last_eligible d else eligible_at);
            segments = dl_segments d;
            segments' =
              (if segments \<noteq> [] \<and> seg_eligible_at (last segments) = eligible_at
               then butlast segments @ [(last segments)\<lparr>seg_bytes := seg_bytes (last segments) + bytes\<rparr>]
               else segments @ [\<lparr>seg_bytes = bytes, seg_eligible_at = eligible_at\<rparr>])
        in d\<lparr>dl_last_eligible := eligible_at, dl_segments := segments', dl_pending := dl_pending d + bytes\<rparr>)"

fun releasable_loop :: "time \<Rightarrow> delay_segment list \<Rightarrow> nat \<Rightarrow> nat" where
  "releasable_loop now [] acc = acc"
| "releasable_loop now (s # ss) acc =
     (if seg_eligible_at s > now then acc else releasable_loop now ss (acc + seg_bytes s))"

definition dl_releasable :: "delay_line \<Rightarrow> time \<Rightarrow> nat" where
  "dl_releasable d now = releasable_loop now (dl_segments d) 0"

text \<open>
  The loop of \<^verbatim>\<open>on_consume\<close>. Reading \<^verbatim>\<open>segments_.front()\<close> of an empty deque has no defined meaning;
  the guard on the pending count must exclude it.
\<close>

function consume_loop :: "nat \<Rightarrow> delay_segment list \<Rightarrow> exn + delay_segment list" where
  "consume_loop bytes segments =
     (if bytes > 0
      then (case segments of
              [] \<Rightarrow> Inl (UndefinedBehavior ''front() of an empty deque'')
            | front # rest \<Rightarrow>
                let taken = (if bytes < seg_bytes front then bytes else seg_bytes front);
                    front' = front\<lparr>seg_bytes := seg_bytes front - taken\<rparr>
                in consume_loop (bytes - taken) (if seg_bytes front' = 0 then rest else front' # rest))
      else Inr segments)"
  by pat_completeness auto
termination
  by (relation "measure (\<lambda>(bytes, segments). bytes + length segments)") (auto simp: Let_def)

declare consume_loop.simps [simp del]

definition dl_on_consume :: "delay_line \<Rightarrow> nat \<Rightarrow> exn + delay_line" where
  "dl_on_consume d bytes =
     (if bytes > dl_pending d then Inl (OutOfRange ''delay line consume exceeds pending bytes'')
      else case consume_loop bytes (dl_segments d) of
             Inl e \<Rightarrow> Inl e
           | Inr segments \<Rightarrow> Inr (d\<lparr>dl_pending := dl_pending d - bytes, dl_segments := segments\<rparr>))"

fun next_eligible_loop :: "time \<Rightarrow> delay_segment list \<Rightarrow> time option" where
  "next_eligible_loop now [] = None"
| "next_eligible_loop now (s # ss) =
     (if seg_eligible_at s > now then Some (seg_eligible_at s) else next_eligible_loop now ss)"

definition dl_next_eligible :: "delay_line \<Rightarrow> time \<Rightarrow> time option" where
  "dl_next_eligible d now = next_eligible_loop now (dl_segments d)"

section \<open>Invariant and abstraction\<close>

definition seg_times :: "delay_segment list \<Rightarrow> time list" where
  "seg_times ss = concat (map (\<lambda>s. replicate (seg_bytes s) (seg_eligible_at s)) ss)"

definition dl_times :: "delay_line \<Rightarrow> time list" where
  "dl_times d = seg_times (dl_segments d)"

definition dl_inv :: "delay_line \<Rightarrow> bool" where
  "dl_inv d \<longleftrightarrow>
     (\<forall>s \<in> set (dl_segments d). 0 < seg_bytes s \<and> seg_eligible_at s \<le> dl_last_eligible d) \<and>
     sorted (map seg_eligible_at (dl_segments d)) \<and>
     dl_pending d = length (dl_times d)"

lemma seg_times_simps [simp]:
  "seg_times [] = []"
  "seg_times (s # ss) = replicate (seg_bytes s) (seg_eligible_at s) @ seg_times ss"
  "seg_times (xs @ ys) = seg_times xs @ seg_times ys"
  by (simp_all add: seg_times_def)

lemma set_seg_times:
  "set (seg_times ss) = seg_eligible_at ` {s \<in> set ss. 0 < seg_bytes s}"
  by (induction ss) auto

lemma sorted_seg_times: "sorted (map seg_eligible_at ss) \<Longrightarrow> sorted (seg_times ss)"
  by (induction ss) (auto simp: sorted_append set_seg_times)

lemma dl_invD:
  assumes "dl_inv d"
  shows "sorted (dl_times d)" and "dl_pending d = length (dl_times d)"
    and "\<And>t. t \<in> set (dl_times d) \<Longrightarrow> t \<le> dl_last_eligible d"
  using assms by (auto simp: dl_inv_def dl_times_def sorted_seg_times set_seg_times)

lemma dl_new_inv [inv_intros]: "dl_inv dl_new" and dl_new_times [simp]: "dl_times dl_new = []"
  by (simp_all add: dl_inv_def dl_new_def dl_times_def)

section \<open>Committing\<close>

lemma seg_times_merge:
  assumes "ss \<noteq> []" and "seg_eligible_at (last ss) = t"
  shows "seg_times (butlast ss) @ replicate (seg_bytes (last ss) + n) t = seg_times ss @ replicate n t"
proof -
  have "seg_times ss = seg_times (butlast ss) @ replicate (seg_bytes (last ss)) t"
    using assms append_butlast_last_id [OF assms(1)] seg_times_simps(3) [of "butlast ss" "[last ss]"]
    by simp
  then show ?thesis using assms by (simp add: replicate_add)
qed

text \<open>A commit stamps its bytes with the requested time, or with the last stamp if that is later.\<close>

lemma dl_on_commit_times [abs_simps]:
  "dl_times (dl_on_commit d n t) = dl_times d @ replicate n (max t (dl_last_eligible d))"
  by (auto simp: dl_on_commit_def dl_times_def Let_def seg_times_merge max_def)

lemma dl_on_commit_segments:
  assumes "dl_inv d" and "0 < n"
  shows "(\<forall>s \<in> set (dl_segments (dl_on_commit d n t)). 0 < seg_bytes s \<and>
      seg_eligible_at s \<le> max t (dl_last_eligible d)) \<and>
    sorted (map seg_eligible_at (dl_segments (dl_on_commit d n t)))"
proof -
  define ss where "ss = dl_segments d"
  define u where "u = max t (dl_last_eligible d)"
  have ss: "\<forall>s \<in> set ss. 0 < seg_bytes s \<and> seg_eligible_at s \<le> u" "sorted (map seg_eligible_at ss)"
    using assms by (auto simp: dl_inv_def ss_def u_def max_def)
  have sorted_new: "sorted (map seg_eligible_at (ss @ [\<lparr>seg_bytes = n, seg_eligible_at = u\<rparr>]))"
    using ss by (auto simp: sorted_append)
  have segs: "dl_segments (dl_on_commit d n t) =
      (if ss \<noteq> [] \<and> seg_eligible_at (last ss) = u
       then butlast ss @ [(last ss)\<lparr>seg_bytes := seg_bytes (last ss) + n\<rparr>]
       else ss @ [\<lparr>seg_bytes = n, seg_eligible_at = u\<rparr>])"
    using assms by (auto simp: dl_on_commit_def ss_def u_def Let_def max_def)
  show ?thesis
  proof (cases "ss \<noteq> [] \<and> seg_eligible_at (last ss) = u")
    case True
    then have "map seg_eligible_at (butlast ss @ [(last ss)\<lparr>seg_bytes := seg_bytes (last ss) + n\<rparr>]) =
        map seg_eligible_at ss"
      by (metis (no_types, lifting) append_butlast_last_id list.simps(8) list.simps(9) map_append
          delay_segment.select_convs(2) delay_segment.surjective delay_segment.update_convs(1))
    with True ss segs show ?thesis
      unfolding u_def [symmetric] by (auto simp: in_set_butlastD)
  next
    case False
    with ss segs sorted_new assms(2) show ?thesis unfolding u_def [symmetric] by auto
  qed
qed

lemma dl_on_commit_last:
  "0 < n \<Longrightarrow> dl_last_eligible (dl_on_commit d n t) = max t (dl_last_eligible d)"
  by (simp add: dl_on_commit_def Let_def max_def)

lemma dl_on_commit_inv [inv_intros]:
  assumes "dl_inv d"
  shows "dl_inv (dl_on_commit d n t)"
proof (cases "n = 0")
  case True
  with assms show ?thesis by (simp add: dl_on_commit_def)
next
  case False
  then have "dl_pending (dl_on_commit d n t) = dl_pending d + n"
    by (simp add: dl_on_commit_def Let_def)
  with False dl_on_commit_segments [OF assms, of n t] dl_invD(2) [OF assms] show ?thesis
    by (simp add: dl_inv_def dl_on_commit_last dl_on_commit_times)
qed

section \<open>Releasing\<close>

lemma releasable_loop_eq:
  "\<forall>s \<in> set ss. 0 < seg_bytes s \<Longrightarrow>
   releasable_loop now ss acc = acc + length (takeWhile (\<lambda>t. t \<le> now) (seg_times ss))"
proof (induction ss arbitrary: acc)
  case Nil
  then show ?case by simp
next
  case (Cons s ss)
  then show ?case by (cases "seg_eligible_at s \<le> now") (auto simp: takeWhile_append_replicate)
qed

lemma dl_releasable_eq:
  "dl_inv d \<Longrightarrow> dl_releasable d now = length (takeWhile (\<lambda>t. t \<le> now) (dl_times d))"
  by (simp add: dl_releasable_def dl_inv_def dl_times_def releasable_loop_eq)

lemma dl_releasable_le: "dl_inv d \<Longrightarrow> dl_releasable d now \<le> dl_pending d"
  by (simp add: dl_releasable_eq dl_invD(2) length_takeWhile_le)

lemma dl_releasable_mono:
  assumes "dl_inv d" and "now \<le> later"
  shows "dl_releasable d now \<le> dl_releasable d later"
proof -
  have "length (takeWhile (\<lambda>t. t \<le> now) ts) \<le> length (takeWhile (\<lambda>t. t \<le> later) ts)" for ts :: "time list"
    using assms(2) by (induction ts) auto
  then show ?thesis by (simp add: dl_releasable_eq [OF assms(1)])
qed

text \<open>What is releasable is eligible: every one of the front bytes has a stamp not after \<open>now\<close>.\<close>

lemma dl_releasable_eligible:
  assumes "dl_inv d" and "n \<le> dl_releasable d now" and "t \<in> set (take n (dl_times d))"
  shows "t \<le> now"
  using assms(2,3) unfolding dl_releasable_eq [OF assms(1)] by (rule take_takeWhile_holds)

section \<open>Consuming\<close>

lemma consume_loop_ok:
  assumes "n \<le> length (seg_times ss)" and "\<forall>s \<in> set ss. 0 < seg_bytes s \<and> seg_eligible_at s \<le> u"
    and "sorted (map seg_eligible_at ss)"
  shows "\<exists>ss'. consume_loop n ss = Inr ss' \<and> seg_times ss' = drop n (seg_times ss) \<and>
    (\<forall>s \<in> set ss'. 0 < seg_bytes s \<and> seg_eligible_at s \<le> u) \<and> sorted (map seg_eligible_at ss')"
  using assms
proof (induction ss arbitrary: n)
  case Nil
  then show ?case by (simp add: consume_loop.simps)
next
  case (Cons s ss)
  consider (none) "n = 0" | (part) "0 < n" "n < seg_bytes s" | (whole) "seg_bytes s \<le> n" "0 < n"
    by linarith
  then show ?case
  proof cases
    case none
    with Cons.prems show ?thesis by (simp add: consume_loop.simps)
  next
    case part
    with Cons.prems show ?thesis
      by (simp add: consume_loop.simps [of n] consume_loop.simps [of 0])
  next
    case whole
    then have "consume_loop n (s # ss) = consume_loop (n - seg_bytes s) ss"
      by (simp add: consume_loop.simps [of n])
    with Cons whole show ?thesis by (auto simp: le_diff_conv)
  qed
qed

lemma dl_on_consume_ok:
  assumes inv: "dl_inv d" and n: "n \<le> dl_pending d"
  shows "\<exists>d'. dl_on_consume d n = Inr d' \<and> dl_inv d' \<and> dl_times d' = drop n (dl_times d) \<and>
    dl_pending d' = dl_pending d - n \<and> dl_last_eligible d' = dl_last_eligible d"
proof -
  obtain ss' where "consume_loop n (dl_segments d) = Inr ss'"
    "seg_times ss' = drop n (seg_times (dl_segments d))"
    "\<forall>s \<in> set ss'. 0 < seg_bytes s \<and> seg_eligible_at s \<le> dl_last_eligible d"
    "sorted (map seg_eligible_at ss')"
    using consume_loop_ok [of n "dl_segments d" "dl_last_eligible d"] inv n
    by (auto simp: dl_inv_def dl_times_def)
  with n inv show ?thesis
    by (simp add: dl_on_consume_def dl_inv_def dl_times_def)
qed

section \<open>Waking up\<close>

lemma next_eligible_loop_eq:
  assumes "\<forall>s \<in> set ss. 0 < seg_bytes s"
  shows "next_eligible_loop now ss =
    (case dropWhile (\<lambda>t. t \<le> now) (seg_times ss) of [] \<Rightarrow> None | t # _ \<Rightarrow> Some t)"
  using assms
proof (induction ss)
  case Nil
  then show ?case by simp
next
  case (Cons s ss)
  obtain k where "seg_bytes s = Suc k" using Cons.prems gr0_implies_Suc by auto
  with Cons show ?case
    by (cases "seg_eligible_at s \<le> now") (auto simp: dropWhile_append)
qed

lemma dl_next_eligible_eq:
  "dl_inv d \<Longrightarrow> dl_next_eligible d now =
     (case dropWhile (\<lambda>t. t \<le> now) (dl_times d) of [] \<Rightarrow> None | t # _ \<Rightarrow> Some t)"
  by (simp add: dl_next_eligible_def dl_inv_def dl_times_def next_eligible_loop_eq)

text \<open>
  A line that holds bytes back names the time of the first of them: it lies in the future, and
  at that time at least one more byte is releasable.
\<close>

lemma dl_next_eligible_wakes:
  assumes "dl_inv d" and "dl_releasable d now < dl_pending d"
  shows "\<exists>t. dl_next_eligible d now = Some t \<and> now < t \<and> dl_releasable d now < dl_releasable d t"
proof -
  let ?p = "\<lambda>t. t \<le> now"
  have "dropWhile ?p (dl_times d) \<noteq> []"
    using assms by (intro dropWhile_nonempty) (simp add: dl_releasable_eq dl_invD(2))
  then obtain t ts where dw: "dropWhile ?p (dl_times d) = t # ts" by (cases "dropWhile ?p (dl_times d)") auto
  then have future: "now < t" using hd_dropWhile [of ?p "dl_times d"] by auto
  define front where "front = takeWhile ?p (dl_times d)"
  have split: "dl_times d = front @ t # ts"
    using dw takeWhile_dropWhile_id [of ?p "dl_times d"] by (simp add: front_def)
  have "\<forall>x \<in> set front. x \<le> t"
    using future by (auto simp: front_def dest: set_takeWhileD)
  then have "length (takeWhile (\<lambda>x. x \<le> t) (dl_times d)) > length front"
    unfolding split by (simp add: takeWhile_append)
  then show ?thesis
    using dw future by (simp add: dl_next_eligible_eq dl_releasable_eq assms(1) front_def)
qed

section \<open>The delay line is a fifo of eligibility times\<close>

interpretation dl: fifo dl_inv dl_times "\<lambda>(n, t) d. Inr (dl_on_commit d n t)" "\<lambda>n d. dl_on_consume d n"
  "\<lambda>(n, t) d. replicate n (max t (dl_last_eligible d))" "\<lambda>_ _. True"
proof unfold_locales
  fix d and x :: "nat \<times> time"
  assume "dl_inv d"
  then show "\<exists>d'. (case x of (n, t) \<Rightarrow> \<lambda>d. Inr (dl_on_commit d n t)) d = (Inr d' :: exn + _) \<and> dl_inv d' \<and>
      dl_times d' = dl_times d @ (case x of (n, t) \<Rightarrow> \<lambda>d. replicate n (max t (dl_last_eligible d))) d"
    by (cases x) (simp add: dl_on_commit_inv dl_on_commit_times)
next
  fix d n
  assume "dl_inv d" and "n \<le> length (dl_times d)"
  then show "\<exists>d'. dl_on_consume d n = Inr d' \<and> dl_inv d' \<and> dl_times d' = drop n (dl_times d)"
    using dl_on_consume_ok [of d n] dl_invD(2) by auto
qed

section \<open>Properties\<close>

text \<open>
  C28. Exactly the eligible bytes. Although \<open>releasable\<close> stops at the first segment that is not yet
  eligible, it counts all pending bytes whose time has come, because stamps never decrease; those
  bytes are the front of the line, and \<open>next_eligible\<close> names the earliest of the remaining times.
\<close>

theorem dl_releasable_exact:
  assumes "dl_inv d"
  shows "dl_releasable d now = length (filter (\<lambda>t. t \<le> now) (dl_times d)) \<and>
    (\<forall>t \<in> set (take (dl_releasable d now) (dl_times d)). t \<le> now) \<and>
    (\<forall>t \<in> set (drop (dl_releasable d now) (dl_times d)). now < t \<and>
       (\<exists>u. dl_next_eligible d now = Some u \<and> now < u \<and> u \<le> t))"
proof -
  let ?p = "\<lambda>t. t \<le> now"
  have sorted: "sorted (dl_times d)" using dl_invD(1) [OF assms] .
  have rel: "dl_releasable d now = length (takeWhile ?p (dl_times d))" by (rule dl_releasable_eq [OF assms])
  have rest: "drop (dl_releasable d now) (dl_times d) = dropWhile ?p (dl_times d)"
    by (simp add: rel dropWhile_eq_drop)
  have back_sorted: "sorted (dropWhile ?p (dl_times d))" by (simp add: sorted sorted_dropWhile)
  have wakes: "\<exists>u. dl_next_eligible d now = Some u \<and> now < u \<and> u \<le> t"
    if "t \<in> set (dropWhile ?p (dl_times d))" for t
    using that back_sorted hd_dropWhile [of ?p "dl_times d"]
    by (cases "dropWhile ?p (dl_times d)") (auto simp: dl_next_eligible_eq [OF assms])
  have later: "\<forall>t \<in> set (drop (dl_releasable d now) (dl_times d)). now < t \<and>
      (\<exists>u. dl_next_eligible d now = Some u \<and> now < u \<and> u \<le> t)"
    unfolding rest using wakes by (meson less_le_trans)
  have due: "\<forall>t \<in> set (take (dl_releasable d now) (dl_times d)). t \<le> now"
    using dl_releasable_eligible [OF assms order_refl] by blast
  have "dl_releasable d now = length (filter ?p (dl_times d))"
    unfolding rel sorted_filter_takeWhile [OF sorted] by (rule refl)
  with later due show ?thesis by (intro conjI)
qed

definition dl_example :: delay_line where
  "dl_example = dl_on_commit (dl_on_commit (dl_on_commit dl_new 2 10) 1 30) 3 20"

theorem dl_releasable_exact_witness:
  "dl_inv dl_example \<and> dl_times dl_example = [10, 10, 30, 30, 30, 30] \<and>
   dl_releasable dl_example 20 = length (filter (\<lambda>t. t \<le> 20) (dl_times dl_example)) \<and>
   dl_releasable dl_example 20 = 2"
proof -
  have inv: "dl_inv dl_example" unfolding dl_example_def by (intro dl_on_commit_inv dl_new_inv)
  have "dl_times dl_example = [10, 10, 30, 30, 30, 30]"
    by (simp add: dl_example_def dl_on_commit_times dl_on_commit_last numeral_eq_Suc)
      (simp add: dl_new_def)
  with dl_releasable_exact [OF inv, of 20] inv show ?thesis by simp
qed

end
