(* ===== verification/Token_Bucket.thy ===== *)
theory Token_Bucket
  imports Netfault_Prelude
begin

text \<open>
  \<^verbatim>\<open>include/netfault/token_bucket.hpp\<close>: the byte-rate token bucket. All products and sums are the
  64-bit ones of the source, wrap-around included. The lemmas show that, for a burst small enough
  that nothing wraps, a refill computes the fluid bucket exactly (\<open>tb_credit\<close>, in units of one
  byte over \<open>10 ^ 9\<close>), so that the refill cadence is invisible, and that traffic never exceeds the
  configured envelope.
\<close>

section \<open>State and operations\<close>

definition giga :: nat where
  "giga = 1000000000"

record token_bucket =
  tb_rate :: nat
  tb_burst :: nat
  tb_tokens :: nat
  tb_last_refill :: time
  tb_carry_product :: nat

definition tb_new :: "nat \<Rightarrow> nat \<Rightarrow> time \<Rightarrow> exn + token_bucket" where
  "tb_new rate burst start =
     (if rate = 0 \<or> burst = 0
      then Inl (InvalidArgument ''token bucket rate and burst must be positive'')
      else Inr \<lparr>tb_rate = rate, tb_burst = burst, tb_tokens = burst, tb_last_refill = start,
                tb_carry_product = 0\<rparr>)"

text \<open>\<^verbatim>\<open>(n * 1'000'000'000ULL + rate_ - 1) / rate_\<close>, the nanoseconds \<open>n\<close> bytes take.\<close>

definition fill_ns :: "nat \<Rightarrow> nat \<Rightarrow> nat" where
  "fill_ns n rate = sub64 (add64 (mul64 n giga) rate) 1 div rate"

definition tb_refill :: "token_bucket \<Rightarrow> time \<Rightarrow> token_bucket" where
  "tb_refill b now =
     (if now \<le> tb_last_refill b then b
      else
        let elapsed_ns = nat (now - tb_last_refill b);
            missing = sub64 (tb_burst b) (tb_tokens b);
            full_ns = fill_ns missing (tb_rate b)
        in if elapsed_ns \<ge> add64 (add64 full_ns (giga div tb_rate b)) 1
           then b\<lparr>tb_last_refill := now, tb_tokens := tb_burst b, tb_carry_product := 0\<rparr>
           else
             let product = add64 (mul64 elapsed_ns (tb_rate b)) (tb_carry_product b);
                 earned = product div giga;
                 tokens = min (add64 (tb_tokens b) earned) (tb_burst b)
             in b\<lparr>tb_last_refill := now, tb_tokens := tokens,
                  tb_carry_product := (if tokens = tb_burst b then 0 else product mod giga)\<rparr>)"

definition tb_available :: "token_bucket \<Rightarrow> time \<Rightarrow> nat \<times> token_bucket" where
  "tb_available b now = (let b = tb_refill b now in (tb_tokens b, b))"

definition tb_consume :: "token_bucket \<Rightarrow> nat \<Rightarrow> exn + token_bucket" where
  "tb_consume b bytes =
     (if bytes > tb_tokens b
      then Inl (OutOfRange ''token bucket consume exceeds available tokens'')
      else Inr (b\<lparr>tb_tokens := tb_tokens b - bytes\<rparr>))"

definition tb_eligible_at :: "token_bucket \<Rightarrow> nat \<Rightarrow> time \<Rightarrow> time \<times> token_bucket" where
  "tb_eligible_at b bytes now =
     (let b = tb_refill b now;
          target = min bytes (tb_burst b)
      in if tb_tokens b \<ge> target then (now, b)
         else let needed = target - tb_tokens b;
                  wait_ns = fill_ns needed (tb_rate b)
              in (now + int wait_ns, b))"

section \<open>Invariant and the fluid bucket\<close>

definition tb_inv :: "token_bucket \<Rightarrow> bool" where
  "tb_inv b \<longleftrightarrow> 0 < tb_rate b \<and> 0 < tb_burst b \<and> tb_tokens b \<le> tb_burst b \<and>
     tb_carry_product b < giga \<and> (tb_tokens b = tb_burst b \<longrightarrow> tb_carry_product b = 0)"

text \<open>
  The size of burst and rate below which no intermediate result wraps. A rate of at most
  \<open>10 ^ 9\<close> (which the fault plan enforces) and a burst of at most 18,446,744,070 bytes satisfy it.
\<close>

definition tb_exact :: "token_bucket \<Rightarrow> bool" where
  "tb_exact b \<longleftrightarrow> tb_burst b * giga + tb_rate b + 2 * giga \<le> u64_modulus"

text \<open>Tokens and remainder as one number, and what a refill should make of it.\<close>

definition tb_credit :: "token_bucket \<Rightarrow> nat" where
  "tb_credit b = tb_tokens b * giga + tb_carry_product b"

definition fluid_credit :: "token_bucket \<Rightarrow> time \<Rightarrow> nat" where
  "fluid_credit b now =
     min (tb_credit b + tb_rate b * nat (now - tb_last_refill b)) (tb_burst b * giga)"

text \<open>A run of grants: at each time the bucket is asked, then the given bytes are taken.\<close>

fun tb_run :: "token_bucket \<Rightarrow> (time \<times> nat) list \<Rightarrow> exn + token_bucket" where
  "tb_run b [] = Inr b"
| "tb_run b ((now, bytes) # ops) =
     (case tb_consume (snd (tb_available b now)) bytes of
        Inl e \<Rightarrow> Inl e
      | Inr b' \<Rightarrow> tb_run b' ops)"

text \<open>Buckets the witnesses and the boundary cases below are computed on.\<close>

definition tb_example :: token_bucket where
  "tb_example = \<lparr>tb_rate = 3, tb_burst = 1000, tb_tokens = 0, tb_last_refill = 0, tb_carry_product = 0\<rparr>"

definition tb_remainder_example :: token_bucket where
  "tb_remainder_example = \<lparr>tb_rate = 1, tb_burst = 10, tb_tokens = 0, tb_last_refill = 0,
     tb_carry_product = 900000000\<rparr>"

definition tb_huge_example :: token_bucket where
  "tb_huge_example = \<lparr>tb_rate = 1, tb_burst = 18446744074, tb_tokens = 0, tb_last_refill = 0,
     tb_carry_product = 0\<rparr>"

lemmas tb_eval = tb_eligible_at_def tb_available_def tb_consume_def tb_refill_def fill_ns_def Let_def
  giga_def add64_def mul64_def sub64_def u64_modulus_def

lemma giga_pos [simp]: "0 < giga"
  by (simp add: giga_def)

lemma tb_new_ok:
  "0 < rate \<Longrightarrow> 0 < burst \<Longrightarrow> \<exists>b. tb_new rate burst start = Inr b \<and> tb_inv b \<and>
     tb_rate b = rate \<and> tb_burst b = burst \<and> tb_tokens b = burst \<and> tb_last_refill b = start"
  by (simp add: tb_new_def tb_inv_def)

lemma tb_credit_le:
  assumes "tb_inv b"
  shows "tb_credit b \<le> tb_burst b * giga"
proof (cases "tb_tokens b = tb_burst b")
  case True
  with assms show ?thesis by (simp add: tb_credit_def tb_inv_def)
next
  case False
  with assms have "tb_tokens b + 1 \<le> tb_burst b" and "tb_carry_product b < giga"
    by (auto simp: tb_inv_def)
  then have "(tb_tokens b + 1) * giga \<le> tb_burst b * giga" and "tb_carry_product b < giga"
    by (blast intro: mult_le_mono1)+
  then show ?thesis by (simp add: tb_credit_def algebra_simps)
qed

text \<open>The credit determines the whole state of the bucket.\<close>

lemma tb_credit_inject:
  assumes "tb_inv a" and "tb_inv b" and "tb_credit a = tb_credit b"
  shows "tb_tokens a = tb_tokens b" and "tb_carry_product a = tb_carry_product b"
proof -
  have "tb_credit x div giga = tb_tokens x" "tb_credit x mod giga = tb_carry_product x" if "tb_inv x" for x
    using that by (simp_all add: tb_credit_def tb_inv_def)
  from this [OF assms(1)] this [OF assms(2)] assms(3)
  show "tb_tokens a = tb_tokens b" and "tb_carry_product a = tb_carry_product b" by simp_all
qed

section \<open>The refill is exact\<close>

lemma fill_ns_exact:
  assumes "0 < rate" and "n * giga + rate < u64_modulus"
  shows "fill_ns n rate = (n * giga + rate - 1) div rate"
  using assms by (simp add: fill_ns_def)

lemma fill_ns_bounds:
  assumes "0 < rate" and "n * giga + rate < u64_modulus"
  shows "n * giga \<le> fill_ns n rate * rate" and "fill_ns n rate * rate \<le> n * giga + rate - 1"
  using assms ceil_div_ge [OF assms(1), of "n * giga"] ceil_div_le [OF assms(1), of "n * giga"]
  by (simp_all add: fill_ns_exact)

lemma tb_exact_needed:
  assumes "tb_exact b" and "n \<le> tb_burst b"
  shows "n * giga + tb_rate b + 2 * giga \<le> u64_modulus"
  using assms(1) mult_le_mono1 [OF assms(2), of giga] unfolding tb_exact_def by linarith

lemma tb_exact_room:
  assumes "tb_exact b" and "n \<le> tb_burst b"
  shows "n * giga + tb_rate b < u64_modulus" and "n < u64_modulus"
proof -
  show "n * giga + tb_rate b < u64_modulus"
    using tb_exact_needed [OF assms] giga_pos by linarith
  moreover have "n \<le> n * giga" by (simp add: giga_def)
  ultimately show "n < u64_modulus" by linarith
qed

text \<open>Enough time to fill the bucket: the shortcut of the source agrees with the fluid bucket.\<close>

lemma refill_threshold_exact:
  assumes "tb_inv b" and "tb_exact b" and "n \<le> tb_burst b"
  shows "add64 (add64 (fill_ns n (tb_rate b)) (giga div tb_rate b)) 1 =
    fill_ns n (tb_rate b) + giga div tb_rate b + 1"
proof -
  have r: "0 < tb_rate b" using assms(1) by (simp add: tb_inv_def)
  note room = tb_exact_needed [OF assms(2,3)] tb_exact_room [OF assms(2,3)]
  have "fill_ns n (tb_rate b) \<le> fill_ns n (tb_rate b) * tb_rate b" using r by simp
  then have "fill_ns n (tb_rate b) \<le> n * giga + tb_rate b - 1"
    using fill_ns_bounds(2) [OF r room(2)] by linarith
  moreover have "giga div tb_rate b \<le> giga" by simp
  ultimately have "fill_ns n (tb_rate b) + giga div tb_rate b + 1 < u64_modulus"
    using room(1) r giga_pos by linarith
  then show ?thesis by simp
qed

text \<open>Not enough time to fill it: the product stays in range.\<close>

lemma refill_product_exact:
  assumes "tb_inv b" and "tb_exact b" and "n \<le> tb_burst b"
    and "e \<le> fill_ns n (tb_rate b) + giga div tb_rate b"
  shows "e * tb_rate b + tb_carry_product b < u64_modulus"
proof -
  have r: "0 < tb_rate b" and c: "tb_carry_product b < giga" using assms(1) by (simp_all add: tb_inv_def)
  note room = tb_exact_needed [OF assms(2,3)] tb_exact_room [OF assms(2,3)]
  have "e * tb_rate b \<le> fill_ns n (tb_rate b) * tb_rate b + giga div tb_rate b * tb_rate b"
    using mult_le_mono1 [OF assms(4), of "tb_rate b"] by (simp add: add_mult_distrib)
  moreover have "giga div tb_rate b * tb_rate b \<le> giga" by (rule div_times_less_eq_dividend)
  ultimately show ?thesis
    using fill_ns_bounds(2) [OF r room(2)] room(1) r c by linarith
qed

lemma tb_refill_fields [simp]:
  "tb_rate (tb_refill b now) = tb_rate b"
  "tb_burst (tb_refill b now) = tb_burst b"
  "tb_last_refill (tb_refill b now) = max (tb_last_refill b) now"
  by (auto simp: tb_refill_def Let_def)

lemma tb_refill_idle [simp]: "now \<le> tb_last_refill b \<Longrightarrow> tb_refill b now = b"
  by (simp add: tb_refill_def)

lemma tb_refill_inv [inv_intros]:
  assumes "tb_inv b"
  shows "tb_inv (tb_refill b now)"
  using assms by (auto simp: tb_refill_def tb_inv_def Let_def min_def)

lemma tb_exact_refill [simp]: "tb_exact (tb_refill b now) = tb_exact b"
  by (simp add: tb_exact_def)

lemma earn_credit:
  assumes "tokens \<le> burst"
  shows "(if min (tokens + p div giga) burst = burst then burst * giga
      else min (tokens + p div giga) burst * giga + p mod giga) = min (tokens * giga + p) (burst * giga)"
proof (cases "burst \<le> tokens + p div giga")
  case True
  then have "burst * giga \<le> (tokens + p div giga) * giga" by (rule mult_le_mono1)
  then have "burst * giga \<le> tokens * giga + p"
    using div_times_less_eq_dividend [of p giga] unfolding add_mult_distrib by linarith
  with True show ?thesis by simp
next
  case False
  then have "(tokens + p div giga + 1) * giga \<le> burst * giga" by (intro mult_le_mono1) simp
  moreover have "p mod giga < giga" by simp
  ultimately have "tokens * giga + p \<le> burst * giga"
    using div_mult_mod_eq [of p giga] unfolding add_mult_distrib mult_1 by linarith
  with False show ?thesis
    using div_mult_mod_eq [of p giga] by (simp add: algebra_simps)
qed

lemma tb_refill_credit:
  assumes inv: "tb_inv b" and ex: "tb_exact b"
  shows "tb_credit (tb_refill b now) = fluid_credit b now"
proof (cases "now \<le> tb_last_refill b")
  case True
  then show ?thesis using tb_credit_le [OF inv] by (simp add: tb_refill_def fluid_credit_def)
next
  case later: False
  define e where "e = nat (now - tb_last_refill b)"
  define n where "n = tb_burst b - tb_tokens b"
  have tok: "tb_tokens b \<le> tb_burst b" and r: "0 < tb_rate b" using inv by (simp_all add: tb_inv_def)
  have n: "n \<le> tb_burst b" "sub64 (tb_burst b) (tb_tokens b) = n"
    using tok tb_exact_room(2) [OF ex order_refl] by (simp_all add: n_def)
  note thr = refill_threshold_exact [OF inv ex n(1)]
  show ?thesis
  proof (cases "fill_ns n (tb_rate b) + giga div tb_rate b + 1 \<le> e")
    case True
    then have "n * giga \<le> e * tb_rate b"
      using fill_ns_bounds(1) [OF r tb_exact_room(1) [OF ex n(1)]]
        mult_le_mono1 [of "fill_ns n (tb_rate b)" e "tb_rate b"] by linarith
    then have "tb_burst b * giga \<le> tb_credit b + tb_rate b * e"
      using tok by (simp add: n_def tb_credit_def diff_mult_distrib mult.commute [of _ e])
    with later True thr n(2) show ?thesis
      by (simp add: tb_refill_def fluid_credit_def tb_credit_def e_def [symmetric] Let_def)
  next
    case False
    define p where "p = e * tb_rate b + tb_carry_product b"
    have p: "p < u64_modulus"
      unfolding p_def using refill_product_exact [OF inv ex n(1), of e] False by linarith
    then have pe: "add64 (mul64 e (tb_rate b)) (tb_carry_product b) = p"
      by (simp add: p_def)
    have "p div giga * giga \<le> p" by simp
    then have "tb_tokens b + p div giga < u64_modulus"
      using p tok ex unfolding tb_exact_def giga_def u64_modulus_def by linarith
    then have "tb_refill b now = b\<lparr>tb_last_refill := now,
        tb_tokens := min (tb_tokens b + p div giga) (tb_burst b),
        tb_carry_product := (if min (tb_tokens b + p div giga) (tb_burst b) = tb_burst b then 0
          else p mod giga)\<rparr>"
      using later False thr n(2) pe by (simp add: tb_refill_def e_def [symmetric] Let_def)
    then have "tb_credit (tb_refill b now) = min (tb_tokens b * giga + p) (tb_burst b * giga)"
      using earn_credit [OF tok, of p] by (auto simp: tb_credit_def split: if_splits)
    moreover have "tb_tokens b * giga + p = tb_credit b + tb_rate b * e"
      by (simp add: p_def tb_credit_def mult.commute)
    ultimately show ?thesis by (simp add: fluid_credit_def e_def)
  qed
qed

section \<open>Consequences\<close>

lemma fluid_credit_compose:
  assumes "tb_inv b" and "tb_last_refill b \<le> t1" and "t1 \<le> t2" and "tb_exact b"
  shows "fluid_credit (tb_refill b t1) t2 = fluid_credit b t2"
proof -
  have "nat (t2 - tb_last_refill b) = nat (t1 - tb_last_refill b) + nat (t2 - t1)"
    using assms(2,3) by simp
  then have "tb_rate b * nat (t2 - tb_last_refill b) =
      tb_rate b * nat (t1 - tb_last_refill b) + tb_rate b * nat (t2 - t1)"
    by (simp add: algebra_simps)
  moreover have "min (min (c + x) m + y) m = min (c + (x + y)) m" for c x y m :: nat
    by simp
  ultimately show ?thesis
    using assms by (simp add: fluid_credit_def tb_refill_credit max_absorb2)
qed

lemma tb_eqI:
  assumes "tb_inv a" and "tb_inv b" and "tb_credit a = tb_credit b" and "tb_rate a = tb_rate b"
    and "tb_burst a = tb_burst b" and "tb_last_refill a = tb_last_refill b"
  shows "(a :: token_bucket) = b"
  using assms tb_credit_inject [OF assms(1-3)] by (cases a; cases b) simp

lemma tb_consume_ok:
  assumes "bytes \<le> tb_tokens b" and "tb_inv b"
  shows "\<exists>b'. tb_consume b bytes = Inr b' \<and> tb_inv b' \<and> tb_rate b' = tb_rate b \<and>
    tb_burst b' = tb_burst b \<and> tb_last_refill b' = tb_last_refill b \<and>
    tb_tokens b' = tb_tokens b - bytes \<and> tb_credit b' + bytes * giga = tb_credit b"
proof -
  have "(tb_tokens b - bytes) * giga + bytes * giga = tb_tokens b * giga"
    using assms(1) by (simp add: add_mult_distrib [symmetric])
  then show ?thesis using assms by (auto simp: tb_consume_def tb_inv_def tb_credit_def)
qed

text \<open>Enough credit is enough tokens.\<close>

lemma tb_tokens_geI:
  assumes "tb_inv b" and "n * giga \<le> tb_credit b"
  shows "n \<le> tb_tokens b"
proof -
  have "n * giga < (tb_tokens b + 1) * giga"
    using assms by (simp add: tb_credit_def tb_inv_def)
  then have "n < tb_tokens b + 1" by (rule mult_less_cancel2 [THEN iffD1, THEN conjunct2])
  then show ?thesis by simp
qed

text \<open>
  The wake time: never before \<open>now\<close>, strictly later when tokens are missing, and late enough
  that the requested tokens (at most a full bucket) are there when it comes.
\<close>

lemma tb_eligible_at_wakes:
  assumes inv: "tb_inv b" and ex: "tb_exact b" and "tb_eligible_at b n now = (t, b')"
    and clock: "tb_last_refill b \<le> now"
  shows "b' = tb_refill b now" and "now \<le> t" and "tb_tokens b' < min n (tb_burst b) \<Longrightarrow> now < t"
    and "min n (tb_burst b) \<le> tb_tokens (tb_refill b' t)"
proof -
  let ?r = "tb_refill b now"
  define m where "m = min n (tb_burst b) - tb_tokens ?r"
  have b': "b' = ?r" using assms(3) by (auto simp: tb_eligible_at_def Let_def split: if_splits)
  have inv': "tb_inv ?r" and ex': "tb_exact ?r" using inv ex by (simp_all add: tb_refill_inv)
  have t: "t = (if min n (tb_burst b) \<le> tb_tokens ?r then now else now + int (fill_ns m (tb_rate b)))"
    using assms(3) by (auto simp: tb_eligible_at_def Let_def m_def split: if_splits)
  have r: "0 < tb_rate b" using inv by (simp add: tb_inv_def)
  have "m \<le> tb_burst b" by (simp add: m_def)
  then have fill: "m * giga \<le> fill_ns m (tb_rate b) * tb_rate b"
    by (rule fill_ns_bounds(1) [OF r tb_exact_room(1) [OF ex]])
  show "b' = ?r" and "now \<le> t" using b' t by simp_all
  show "now < t" if "tb_tokens b' < min n (tb_burst b)"
  proof -
    have "m \<noteq> 0" using that b' by (simp add: m_def min_def split: if_splits)
    then have "0 < fill_ns m (tb_rate b)" using fill giga_pos by (cases "fill_ns m (tb_rate b)") auto
    moreover have "\<not> min n (tb_burst b) \<le> tb_tokens ?r" using that unfolding b' not_le .
    ultimately show ?thesis using t by simp
  qed
  show "min n (tb_burst b) \<le> tb_tokens (tb_refill b' t)"
  proof (cases "min n (tb_burst b) \<le> tb_tokens ?r")
    case True
    with t b' show ?thesis by simp
  next
    case False
    then have "nat (t - tb_last_refill ?r) = fill_ns m (tb_rate b)" using t clock by simp
    moreover have "min n (tb_burst b) = tb_tokens ?r + m"
      using False unfolding m_def by linarith
    then have "min n (tb_burst b) * giga = tb_tokens ?r * giga + m * giga"
      by (simp add: add_mult_distrib)
    moreover have "min n (tb_burst b) * giga \<le> tb_burst b * giga"
      by (rule mult_le_mono1) simp
    ultimately have "min n (tb_burst b) * giga \<le> tb_credit (tb_refill ?r t)"
      using fill unfolding tb_refill_credit [OF inv' ex'] fluid_credit_def
      by (simp add: tb_credit_def mult.commute)
    then show ?thesis unfolding b' by (intro tb_tokens_geI tb_refill_inv inv')
  qed
qed

lemma tb_run_ConsE:
  assumes "tb_run b ((now, n) # ops) = Inr b'"
  obtains b1 where "tb_consume (tb_refill b now) n = Inr b1" and "tb_run b1 ops = Inr b'"
  using assms by (auto simp: tb_available_def Let_def split: sum.splits)

lemma fluid_credit_le:
  "fluid_credit b now \<le> tb_credit b + tb_rate b * nat (max (tb_last_refill b) now - tb_last_refill b)"
  by (auto simp: fluid_credit_def max_def)

section \<open>Properties\<close>

text \<open>
  C15. Exact refill and cadence independence. For a bucket in the exact range (\<open>tb_exact\<close>: the burst
  in nanotokens, the rate and two seconds' worth of nanoseconds together stay within 64 bits, which
  is so for bursts up to 18,446,744,070 bytes at every rate that validation accepts), a refill leaves
  exactly the credit of the fluid bucket (the old credit plus rate times elapsed nanoseconds, capped
  at the burst), the shortcut for long idle periods included; hence refilling at \<open>t1\<close> and again at
  \<open>t2\<close> leaves the same bucket, remainder and all, as refilling once at \<open>t2\<close>. Validation does not
  bound the burst, and outside the range a refill can wrap (\<open>tb_refill_overflow\<close>).
\<close>

theorem tb_refill_cadence:
  assumes "tb_inv b" and "tb_exact b" and "tb_last_refill b \<le> t1" and "t1 \<le> t2"
  shows "tb_credit (tb_refill b t2) = fluid_credit b t2 \<and>
    tb_refill (tb_refill b t1) t2 = tb_refill b t2"
proof -
  have "tb_credit (tb_refill (tb_refill b t1) t2) = fluid_credit b t2"
    using assms by (simp add: tb_refill_credit tb_refill_inv fluid_credit_compose)
  then show ?thesis
    using assms by (auto intro!: tb_eqI simp: tb_refill_credit tb_refill_inv max_def)
qed

lemma tb_example_ok: "tb_inv tb_example" "tb_exact tb_example"
  by (simp_all add: tb_example_def tb_inv_def tb_exact_def giga_def u64_modulus_def)

theorem tb_refill_cadence_witness:
  "tb_tokens (tb_refill (tb_refill tb_example 333000000) 9990000000) = 29 \<and>
   tb_refill (tb_refill tb_example 333000000) 9990000000 = tb_refill tb_example 9990000000"
proof -
  have "tb_refill (tb_refill tb_example 333000000) 9990000000 = tb_refill tb_example 9990000000"
    using tb_refill_cadence [OF tb_example_ok, of 333000000 9990000000] by (simp add: tb_example_def)
  moreover have "tb_tokens (tb_refill tb_example 9990000000) = 29"
    unfolding tb_example_def tb_eval by simp
  ultimately show ?thesis by simp
qed

text \<open>
  C16. Traffic conforms to the envelope. For a bucket in the exact range (\<open>tb_exact\<close>, bursts up to
  18,446,744,070 bytes), over any run of grants that the bucket does not refuse, at
  whatever times it is asked, the bytes taken never exceed what was in the bucket plus rate times
  the time that passed; in particular never the burst plus rate times the time. Validation does not
  bound the burst, and outside the range the envelope is exceeded (\<open>tb_refill_overflow\<close>).
\<close>

theorem tb_run_conforms:
  assumes "tb_inv b" and "tb_exact b" and "tb_run b ops = Inr b'"
  shows "tb_inv b' \<and> tb_last_refill b \<le> tb_last_refill b' \<and>
    sum_list (map snd ops) * giga + tb_credit b' \<le>
      tb_credit b + tb_rate b * nat (tb_last_refill b' - tb_last_refill b) \<and>
    tb_credit b \<le> tb_burst b * giga"
  using assms
proof (induction ops arbitrary: b)
  case Nil
  then show ?case by (simp add: tb_credit_le)
next
  case (Cons op ops)
  obtain now n where op: "op = (now, n)" by (cases op)
  with Cons.prems(3) obtain b1 where b1: "tb_consume (tb_refill b now) n = Inr b1" "tb_run b1 ops = Inr b'"
    using tb_run_ConsE by blast
  then have "n \<le> tb_tokens (tb_refill b now)" by (auto simp: tb_consume_def split: if_splits)
  from tb_consume_ok [OF this tb_refill_inv [OF Cons.prems(1)]] b1(1)
  have c: "tb_inv b1" "tb_rate b1 = tb_rate b" "tb_burst b1 = tb_burst b"
    "tb_last_refill b1 = max (tb_last_refill b) now" "tb_credit b1 + n * giga = tb_credit (tb_refill b now)"
    by auto
  have "tb_exact b1" using Cons.prems(2) c by (simp add: tb_exact_def)
  note ih = Cons.IH [OF c(1) this b1(2)]
  define e1 where "e1 = nat (tb_last_refill b1 - tb_last_refill b)"
  define e2 where "e2 = nat (tb_last_refill b' - tb_last_refill b1)"
  have e: "nat (tb_last_refill b' - tb_last_refill b) = e1 + e2"
    using ih c(4) unfolding e1_def e2_def by linarith
  have "tb_credit b1 + n * giga \<le> tb_credit b + tb_rate b * e1"
    using fluid_credit_le [of b now] c(4,5) Cons.prems by (simp add: tb_refill_credit e1_def)
  moreover have "tb_rate b * nat (tb_last_refill b' - tb_last_refill b) = tb_rate b * e1 + tb_rate b1 * e2"
    using c(2) by (simp add: e add_mult_distrib2)
  moreover have "sum_list (map snd (op # ops)) * giga = n * giga + sum_list (map snd ops) * giga"
    by (simp add: op add_mult_distrib)
  ultimately show ?case
    using ih c(4) tb_credit_le [OF Cons.prems(1)] unfolding e2_def by linarith
qed

theorem tb_run_conforms_witness:
  "\<exists>b'. tb_run tb_example [(2000000000, 5), (3000000000, 4)] = Inr b' \<and> tb_inv b' \<and>
     9 * giga + tb_credit b' \<le> 3 * 3000000000"
proof -
  let ?r = "tb_run tb_example [(2000000000, 5), (3000000000, 4)]"
  have run: "?r = Inr (tb_example\<lparr>tb_last_refill := 3000000000\<rparr>)"
    unfolding tb_example_def tb_run.simps tb_eval by simp
  show ?thesis
    using tb_run_conforms [OF tb_example_ok run] run
    by (simp add: tb_example_def tb_credit_def giga_def)
qed

text \<open>
  The wake time of a rate-limited direction is sufficient, for a bucket in the exact range
  (\<open>tb_exact\<close>, bursts up to 18,446,744,070 bytes). Asked for \<open>n\<close> bytes at \<open>now\<close>, the
  bucket names a time that is not before \<open>now\<close>, that lies strictly in the future when tokens are
  missing, and at which \<open>min n burst\<close> tokens are there: a direction that sleeps until then
  never wakes to find the bucket still short.
\<close>

theorem tb_eligible_at_sufficient:
  assumes "tb_inv b" and "tb_exact b" and "tb_last_refill b \<le> now"
  shows "let (t, b') = tb_eligible_at b n now in
    now \<le> t \<and> (tb_tokens b' < min n (tb_burst b) \<longrightarrow> now < t) \<and>
    min n (tb_burst b) \<le> fst (tb_available b' t)"
proof (cases "tb_eligible_at b n now")
  case (Pair t b')
  from tb_eligible_at_wakes [OF assms(1,2) Pair assms(3)] Pair show ?thesis
    by (simp add: tb_available_def Let_def)
qed

theorem tb_eligible_at_sufficient_witness:
  "fst (tb_eligible_at tb_example 6 500000000) = 2166666667 \<and>
   6 \<le> fst (tb_available (snd (tb_eligible_at tb_example 6 500000000)) 2166666667)"
proof -
  have "fst (tb_eligible_at tb_example 6 500000000) = 2166666667"
    unfolding tb_example_def tb_eval by simp
  then show ?thesis
    using tb_eligible_at_sufficient [OF tb_example_ok, of 500000000 6]
    by (simp add: tb_example_def case_prod_unfold Let_def)
qed

text \<open>
  The wake time can be late, never early. A bucket of rate 1 that already holds nine tenths of
  a byte as remainder has its next byte after 0.1 s, but names a time a full second away: the
  remainder is left out and the division rounds up.
\<close>

theorem tb_eligible_at_late:
  "fst (tb_eligible_at tb_remainder_example 1 0) = 1000000000 \<and>
   fst (tb_available tb_remainder_example 100000000) = 1"
proof
  show "fst (tb_eligible_at tb_remainder_example 1 0) = 1000000000"
    unfolding tb_remainder_example_def tb_eval by simp
  show "fst (tb_available tb_remainder_example 100000000) = 1"
    unfolding tb_remainder_example_def tb_eval by simp
qed

text \<open>
  A large burst defeats the overflow guard. With a burst of 18,446,744,074 bytes the product
  that computes the time to fill an empty bucket wraps; a bucket of one byte per second that was
  emptied is full again after 1.3 seconds, where the fluid bucket holds one byte.
\<close>

theorem tb_refill_overflow:
  "tb_inv tb_huge_example \<and> tb_tokens tb_huge_example = 0 \<and>
   tb_tokens (tb_refill tb_huge_example 1290448385) = 18446744074 \<and>
   fluid_credit tb_huge_example 1290448385 div giga = 1"
proof (intro conjI)
  show "tb_inv tb_huge_example"
    by (simp add: tb_huge_example_def tb_inv_def)
  show "tb_tokens (tb_refill tb_huge_example 1290448385) = 18446744074"
    unfolding tb_huge_example_def tb_eval by simp
  show "fluid_credit tb_huge_example 1290448385 div giga = 1"
    by (simp add: tb_huge_example_def fluid_credit_def tb_credit_def giga_def)
qed (simp add: tb_huge_example_def)

end
