(* ===== verification/Fault_Rng.thy ===== *)
theory Fault_Rng
  imports Complex_Main Netfault_Prelude
begin

unbundle bit_operations_syntax

text \<open>
  \<^verbatim>\<open>include/netfault/fault_rng.hpp\<close>: SplitMix64 on 64-bit words and the samplers built on it. The
  lemmas show that the mixing function is a bijection, so that derived seeds never collide, that
  a stream repeats no value within its period, and that the samples stay in their ranges.
\<close>

section \<open>Operations\<close>

definition splitmix64_gamma :: u64 where
  "splitmix64_gamma = 0x9E3779B97F4A7C15"

definition splitmix64_mix :: "u64 \<Rightarrow> u64" where
  "splitmix64_mix value =
     (let value = value + splitmix64_gamma;
          value = (value XOR drop_bit 30 value) * 0xBF58476D1CE4E5B9;
          value = (value XOR drop_bit 27 value) * 0x94D049BB133111EB
      in value XOR drop_bit 31 value)"

record splitmix64 =
  sm_state :: u64

definition splitmix64_next :: "splitmix64 \<Rightarrow> u64 \<times> splitmix64" where
  "splitmix64_next rng =
     (splitmix64_mix (sm_state rng), rng\<lparr>sm_state := sm_state rng + splitmix64_gamma\<rparr>)"

definition derive_connection_seed :: "u64 \<Rightarrow> u64 \<Rightarrow> u64" where
  "derive_connection_seed master_seed connection_id =
     splitmix64_mix (splitmix64_mix master_seed XOR connection_id)"

definition derive_direction_seed :: "u64 \<Rightarrow> u64 \<Rightarrow> u64" where
  "derive_direction_seed connection_seed direction_index =
     splitmix64_mix (connection_seed XOR (direction_index + 1))"

text \<open>The top 53 bits scaled by \<open>2 ^ -53\<close> are exactly representable as a double.\<close>

definition sample_unit_interval :: "u64 \<Rightarrow> rat" where
  "sample_unit_interval random_bits = of_nat (unat (drop_bit 11 random_bits)) / 2 ^ 53"

definition sample_jitter :: "splitmix64 \<Rightarrow> time \<Rightarrow> time \<times> splitmix64" where
  "sample_jitter rng jitter =
     (if jitter \<le> 0 then (0, rng)
      else let range = word_of_int jitter * 2 + 1 :: u64;
               (bits, rng) = splitmix64_next rng;
               offset = sint (bits mod range)
           in (offset - jitter, rng))"

text \<open>The first \<open>n\<close> values of a stream.\<close>

fun splitmix64_draws :: "nat \<Rightarrow> splitmix64 \<Rightarrow> u64 list" where
  "splitmix64_draws 0 rng = []"
| "splitmix64_draws (Suc n) rng =
     (let (bits, rng') = splitmix64_next rng in bits # splitmix64_draws n rng')"

section \<open>The mixing function is a bijection\<close>

lemma xorshift_inject:
  assumes "0 < k" and "v XOR drop_bit k v = w XOR drop_bit k (w :: u64)"
  shows "v = w"
proof -
  define d where "d = v XOR w"
  have "(v XOR drop_bit k v) XOR (w XOR drop_bit k v) = (w XOR drop_bit k w) XOR (w XOR drop_bit k v)"
    by (simp only: assms(2))
  then have "d = drop_bit k v XOR drop_bit k w"
    by (simp add: d_def ac_simps)
  moreover have "drop_bit k d = drop_bit k v XOR drop_bit k w"
    by (simp add: d_def)
  ultimately have "d = drop_bit k d" by simp
  then have "unat d = unat d div 2 ^ k"
    by (metis unat_drop_bit_eq drop_bit_eq_div)
  moreover have "unat d div 2 ^ k < unat d" if "0 < unat d"
    using that one_less_power [of "2 :: nat" k] assms(1) by (intro div_less_dividend) simp_all
  ultimately have "unat d = 0" by linarith
  then have "d = 0" by (simp add: unat_eq_zero)
  then have "(v XOR w) XOR w = w" unfolding d_def by simp
  then show ?thesis by (simp add: xor.assoc)
qed

lemma odd_mult_inject:
  assumes "c * c' = (1 :: u64)" and "v * c = w * c"
  shows "v = w"
proof -
  have "v * c * c' = w * c * c'" using assms(2) by simp
  then show ?thesis using assms(1) by (simp add: mult.assoc)
qed

lemma mix_multipliers:
  "0xBF58476D1CE4E5B9 * 10871156337175269513 = (1 :: u64)"
  "0x94D049BB133111EB * 3573116690164977347 = (1 :: u64)"
  "splitmix64_gamma * 17428512612931826493 = 1"
  by (simp_all add: splitmix64_gamma_def)

lemma splitmix64_mix_inject [simp]: "splitmix64_mix v = splitmix64_mix w \<longleftrightarrow> v = w"
proof
  assume eq: "splitmix64_mix v = splitmix64_mix w"
  define a where "a x = x + splitmix64_gamma" for x
  define b where "b x = (a x XOR drop_bit 30 (a x)) * 0xBF58476D1CE4E5B9" for x
  define c where "c x = (b x XOR drop_bit 27 (b x)) * 0x94D049BB133111EB" for x
  have "c v XOR drop_bit 31 (c v) = c w XOR drop_bit 31 (c w)"
    using eq by (simp add: splitmix64_mix_def Let_def a_def b_def c_def)
  then have "c v = c w" by (rule xorshift_inject [rotated]) simp
  then have "b v XOR drop_bit 27 (b v) = b w XOR drop_bit 27 (b w)"
    unfolding c_def by (rule odd_mult_inject [OF mix_multipliers(2)])
  then have "b v = b w" by (rule xorshift_inject [rotated]) simp
  then have "a v XOR drop_bit 30 (a v) = a w XOR drop_bit 30 (a w)"
    unfolding b_def by (rule odd_mult_inject [OF mix_multipliers(1)])
  then have "a v = a w" by (rule xorshift_inject [rotated]) simp
  then show "v = w" by (simp add: a_def)
qed simp

lemma xor_left_inject [simp]: "a XOR b = a XOR c \<longleftrightarrow> b = (c :: u64)"
proof
  assume "a XOR b = a XOR c"
  then have "a XOR (a XOR b) = a XOR (a XOR c)" by simp
  then show "b = c" by (simp add: xor.assoc [symmetric])
qed simp

lemma xor_right_inject [simp]: "b XOR a = c XOR a \<longleftrightarrow> b = (c :: u64)"
  using xor_left_inject [of a b c] by (simp add: xor.commute)

lemma derive_connection_seed_inject:
  "derive_connection_seed m i = derive_connection_seed m j \<longleftrightarrow> i = j"
  "derive_connection_seed m i = derive_connection_seed m' i \<longleftrightarrow> m = m'"
  by (simp_all add: derive_connection_seed_def)

lemma derive_direction_seed_inject:
  "derive_direction_seed s i = derive_direction_seed s j \<longleftrightarrow> i = j"
  by (simp add: derive_direction_seed_def)

lemma xor_exchange: "a XOR c = b XOR d \<longleftrightarrow> a XOR b = c XOR (d :: u64)"
  by (auto simp: bit_eq_iff bit_simps)

text \<open>The connection seeds of one master seed are a permutation of all 64-bit words.\<close>

lemma connection_seed_partner: "\<exists>!k. derive_connection_seed m i XOR derive_connection_seed m k = x"
proof -
  have inj: "inj (derive_connection_seed m)" by (rule injI) (simp add: derive_connection_seed_inject)
  then have "surj (derive_connection_seed m)" by (rule finite_UNIV_inj_surj [OF finite])
  then obtain k where k: "derive_connection_seed m k = derive_connection_seed m i XOR x" by (metis surjD)
  have "derive_connection_seed m i XOR y = x \<longleftrightarrow> y = derive_connection_seed m i XOR x" for y
    by (auto simp: bit_eq_iff bit_simps)
  then have iff: "derive_connection_seed m i XOR derive_connection_seed m k' = x \<longleftrightarrow>
      derive_connection_seed m k' = derive_connection_seed m k" for k' by (simp add: k)
  show ?thesis unfolding iff derive_connection_seed_inject(1) by blast
qed

section \<open>Streams\<close>

lemma splitmix64_draws_length [simp]: "length (splitmix64_draws n rng) = n"
  by (induction n arbitrary: rng) (simp_all add: splitmix64_next_def)

lemma splitmix64_draws_nth:
  "k < n \<Longrightarrow> splitmix64_draws n rng ! k = splitmix64_mix (sm_state rng + of_nat k * splitmix64_gamma)"
proof (induction n arbitrary: rng k)
  case (Suc n)
  then show ?case by (cases k) (simp_all add: splitmix64_next_def algebra_simps)
qed simp

lemma gamma_multiples_inject:
  assumes "i < u64_modulus" and "j < u64_modulus"
    and "of_nat i * splitmix64_gamma = of_nat j * splitmix64_gamma"
  shows "i = j"
proof -
  have "(of_nat i :: u64) = of_nat j"
    using assms(3) by (rule odd_mult_inject [OF mix_multipliers(3)])
  moreover have "i < 2 ^ LENGTH(64)" and "j < 2 ^ LENGTH(64)"
    using assms(1,2) by (simp_all add: u64_modulus_def)
  ultimately show ?thesis by (metis of_nat_inverse)
qed

section \<open>Samples\<close>

lemma sample_jitter_range:
  assumes "0 < jitter" and "jitter < 2 ^ 62"
  shows "- jitter \<le> fst (sample_jitter rng jitter)" and "fst (sample_jitter rng jitter) \<le> jitter"
proof -
  define r :: u64 where "r = word_of_int jitter * 2 + 1"
  define x where "x = fst (splitmix64_next rng) mod r"
  have r: "uint r = jitter * 2 + 1"
    using assms by (simp add: r_def uint_word_ariths uint_word_of_int)
  have "uint x < jitter * 2 + 1"
    unfolding x_def uint_mod r using assms(1) by (intro pos_mod_bound) simp
  moreover from this have "sint x = uint x"
    unfolding sint_uint using assms by (intro signed_take_bit_int_eq_self) (simp_all add: order.trans [of "- _" 0])
  moreover have "fst (sample_jitter rng jitter) = sint x - jitter"
    using assms(1) by (simp add: sample_jitter_def Let_def x_def r_def case_prod_unfold)
  ultimately show "- jitter \<le> fst (sample_jitter rng jitter)" "fst (sample_jitter rng jitter) \<le> jitter"
    by simp_all
qed

lemma sample_jitter_zero: "jitter \<le> 0 \<Longrightarrow> sample_jitter rng jitter = (0, rng)"
  by (simp add: sample_jitter_def)

lemma sample_unit_interval_range: "0 \<le> sample_unit_interval bits" "sample_unit_interval bits < 1"
proof -
  have "unat (drop_bit 11 bits) = unat bits div 2 ^ 11"
    by (metis unat_drop_bit_eq drop_bit_eq_div)
  also have "\<dots> < 2 ^ 53"
    using unsigned_less [of bits] by (simp add: div_less_iff_less_mult)
  finally have "(of_nat (unat (drop_bit 11 bits)) :: rat) < of_nat (2 ^ 53)"
    by (rule of_nat_less_iff [THEN iffD2])
  then show "sample_unit_interval bits < 1"
    by (simp add: sample_unit_interval_def)
  show "0 \<le> sample_unit_interval bits"
    unfolding sample_unit_interval_def by (intro divide_nonneg_nonneg of_nat_0_le_iff) simp
qed

section \<open>Properties\<close>

text \<open>
  C34. Where the random streams start. Under one master seed, the streams of the same direction of
  different connections start from different states, and so do the two streams of one connection
  (whose direction indices are 0 and 1). The streams of opposite directions of different
  connections start from the same state exactly if the two connection seeds differ in the two
  lowest bits and nowhere else, which is the case for one other connection identifier out of all
  \<open>2 ^ 64\<close>. A stream of up to \<open>2 ^ 64\<close> values never repeats one.
\<close>

theorem fault_stream_starts:
  "(derive_direction_seed (derive_connection_seed m i) d = derive_direction_seed (derive_connection_seed m j) d \<longleftrightarrow> i = j) \<and>
   (derive_direction_seed (derive_connection_seed m i) d = derive_direction_seed (derive_connection_seed m i) e \<longleftrightarrow> d = e) \<and>
   (derive_direction_seed (derive_connection_seed m i) 0 = derive_direction_seed (derive_connection_seed m j) 1 \<longleftrightarrow>
      derive_connection_seed m i XOR derive_connection_seed m j = 3) \<and>
   (\<exists>!k. derive_connection_seed m i XOR derive_connection_seed m k = 3) \<and>
   distinct (splitmix64_draws (min n u64_modulus) rng)"
proof (intro conjI)
  show "distinct (splitmix64_draws (min n u64_modulus) rng)"
    by (auto simp: distinct_conv_nth splitmix64_draws_nth dest: gamma_multiples_inject [rotated 2])
  show "\<exists>!k. derive_connection_seed m i XOR derive_connection_seed m k = 3"
    by (rule connection_seed_partner)
  show "derive_direction_seed (derive_connection_seed m i) 0 = derive_direction_seed (derive_connection_seed m j) 1 \<longleftrightarrow>
      derive_connection_seed m i XOR derive_connection_seed m j = 3"
    by (simp add: derive_direction_seed_def xor_exchange [of _ 1])
qed (simp_all add: derive_direction_seed_def derive_connection_seed_inject)

text \<open>
  Samples stay in range. A jitter sample of a positive jitter (of less than 146 years) lies in
  \<open>[-jitter, jitter]\<close>, whatever the state of the generator.
\<close>

theorem sample_jitter_bounded:
  assumes "0 < jitter" and "jitter < 2 ^ 62"
  shows "- jitter \<le> fst (sample_jitter rng jitter) \<and> fst (sample_jitter rng jitter) \<le> jitter"
  using sample_jitter_range [OF assms] by simp

theorem sample_jitter_bounded_witness:
  "- 5000000 \<le> fst (sample_jitter \<lparr>sm_state = 0\<rparr> 5000000) \<and>
   fst (sample_jitter \<lparr>sm_state = 0\<rparr> 5000000) \<le> 5000000 \<and>
   splitmix64_mix 0 = 0xE220A8397B1DCDAF"
proof -
  have "splitmix64_mix 0 = 0xE220A8397B1DCDAF"
    unfolding splitmix64_mix_def splitmix64_gamma_def Let_def by simp
  then show ?thesis using sample_jitter_bounded [of 5000000 "\<lparr>sm_state = 0\<rparr>"] by simp
qed

end
