(* ===== verification/Fault_Plan.thy ===== *)
theory Fault_Plan
  imports Fault_Rng Token_Bucket
begin

text \<open>
  \<^verbatim>\<open>include/netfault/fault_plan.hpp\<close>: the fault configuration and its validation. A double is a
  rational number, an infinity or not-a-number, compared as IEEE 754 prescribes; millisecond
  durations are signed 64-bit counts whose overflow is undefined behaviour.
\<close>

section \<open>Doubles and signed sums\<close>

datatype double = Finite rat | PosInf | NegInf | NaN

fun double_less :: "double \<Rightarrow> double \<Rightarrow> bool" where
  "double_less NaN _ = False"
| "double_less _ NaN = False"
| "double_less (Finite a) (Finite b) = (a < b)"
| "double_less NegInf x = (x \<noteq> NegInf)"
| "double_less (Finite _) x = (x = PosInf)"
| "double_less PosInf _ = False"

fun double_ge :: "double \<Rightarrow> double \<Rightarrow> bool" where
  "double_ge NaN _ = False"
| "double_ge _ NaN = False"
| "double_ge a b = (\<not> double_less a b)"

definition s64_add :: "int \<Rightarrow> int \<Rightarrow> exn + int" where
  "s64_add a b =
     (if - 9223372036854775808 \<le> a + b \<and> a + b < 9223372036854775808 then Inr (a + b)
      else Inl (UndefinedBehavior ''signed integer overflow''))"

section \<open>The plan\<close>

datatype fault_directions = Both | ClientToUpstream | UpstreamToClient

record fault_plan =
  fp_master_seed :: u64
  fp_apply_probability :: double
  fp_directions :: fault_directions
  fp_latency :: int \<comment> \<open>milliseconds\<close>
  fp_jitter :: int \<comment> \<open>milliseconds\<close>
  fp_rate_bytes_per_second :: nat
  fp_burst_bytes :: nat
  fp_reset_after_bytes :: u64
  fp_half_close_after_bytes :: u64

definition fault_plan_default :: fault_plan where
  "fault_plan_default =
     \<lparr>fp_master_seed = 0, fp_apply_probability = Finite 1, fp_directions = Both, fp_latency = 0,
      fp_jitter = 0, fp_rate_bytes_per_second = 0, fp_burst_bytes = 0, fp_reset_after_bytes = 0,
      fp_half_close_after_bytes = 0\<rparr>"

definition fp_any_enabled :: "fault_plan \<Rightarrow> bool" where
  "fp_any_enabled p \<longleftrightarrow> fp_latency p > 0 \<or> fp_jitter p > 0 \<or> fp_rate_bytes_per_second p > 0 \<or>
     fp_reset_after_bytes p > 0 \<or> fp_half_close_after_bytes p > 0"

definition fp_applies_to_client_to_upstream :: "fault_plan \<Rightarrow> bool" where
  "fp_applies_to_client_to_upstream p \<longleftrightarrow> fp_directions p \<noteq> UpstreamToClient"

definition fp_applies_to_upstream_to_client :: "fault_plan \<Rightarrow> bool" where
  "fp_applies_to_upstream_to_client p \<longleftrightarrow> fp_directions p \<noteq> ClientToUpstream"

definition fp_effective_burst_bytes :: "fault_plan \<Rightarrow> nat" where
  "fp_effective_burst_bytes p =
     (if fp_burst_bytes p \<noteq> 0 then fp_burst_bytes p else fp_rate_bytes_per_second p)"

definition fp_validate :: "fault_plan \<Rightarrow> exn + unit" where
  "fp_validate p =
     (if double_less (fp_apply_probability p) (Finite 0) \<or> double_less (Finite 1) (fp_apply_probability p)
      then Inl (InvalidArgument ''fault probability must be between 0 and 1'')
      else if fp_latency p < 0 \<or> fp_jitter p < 0
      then Inl (InvalidArgument ''fault latency and jitter must be non-negative'')
      else case s64_add (fp_latency p) 10000 of
        Inl e \<Rightarrow> Inl e
      | Inr latency_plus \<Rightarrow>
      if fp_jitter p > latency_plus
      then Inl (InvalidArgument ''fault jitter must not exceed latency by more than 10 seconds'')
      else case s64_add (fp_latency p) (fp_jitter p) of
        Inl e \<Rightarrow> Inl e
      | Inr delay \<Rightarrow>
      if delay > 60000
      then Inl (InvalidArgument ''fault latency plus jitter must be at most 60 seconds'')
      else if fp_burst_bytes p \<noteq> 0 \<and> fp_rate_bytes_per_second p = 0
      then Inl (InvalidArgument ''fault burst requires a fault rate'')
      else if fp_rate_bytes_per_second p > 1000000000
      then Inl (InvalidArgument ''fault rate must be at most 1000000000 bytes per second'')
      else Inr ())"

section \<open>Lemmas\<close>

lemma s64_add_Inr: "s64_add a b = Inr c \<longleftrightarrow> c = a + b \<and> - 9223372036854775808 \<le> c \<and> c < 9223372036854775808"
  by (auto simp: s64_add_def)

lemma fp_validate_ok:
  "fp_validate p = Inr () \<longleftrightarrow>
     \<not> double_less (fp_apply_probability p) (Finite 0) \<and> \<not> double_less (Finite 1) (fp_apply_probability p) \<and>
     0 \<le> fp_latency p \<and> 0 \<le> fp_jitter p \<and> fp_jitter p \<le> fp_latency p + 10000 \<and>
     fp_latency p + fp_jitter p \<le> 60000 \<and>
     (fp_burst_bytes p \<noteq> 0 \<longrightarrow> fp_rate_bytes_per_second p \<noteq> 0) \<and> fp_rate_bytes_per_second p \<le> 1000000000"
  by (auto simp: fp_validate_def s64_add_def split: if_splits)

lemma fp_validate_positive_burst:
  assumes "fp_validate p = Inr ()" and "0 < fp_rate_bytes_per_second p"
  shows "0 < fp_effective_burst_bytes p"
  using assms by (simp add: fp_effective_burst_bytes_def)

lemma fp_validate_bucket:
  assumes valid: "fp_validate p = Inr ()" and pos: "0 < fp_rate_bytes_per_second p"
  shows "\<exists>b. tb_new (fp_rate_bytes_per_second p) (fp_effective_burst_bytes p) now = Inr b \<and> tb_inv b \<and>
    (fp_burst_bytes p \<le> 18446744070 \<longrightarrow> tb_exact b)"
proof -
  have rate: "fp_rate_bytes_per_second p \<le> 1000000000" using valid by (simp add: fp_validate_ok)
  obtain b where b: "tb_new (fp_rate_bytes_per_second p) (fp_effective_burst_bytes p) now = Inr b"
    "tb_inv b" "tb_rate b = fp_rate_bytes_per_second p" "tb_burst b = fp_effective_burst_bytes p"
    using tb_new_ok [OF pos fp_validate_positive_burst [OF valid pos]] by blast
  have "tb_exact b" if "fp_burst_bytes p \<le> 18446744070"
    using rate that b(3,4)
    by (auto simp: tb_exact_def giga_def u64_modulus_def fp_effective_burst_bytes_def)
  with b show ?thesis by blast
qed

section \<open>Properties\<close>

text \<open>
  What validation guarantees. A plan is accepted exactly if its probability is not below 0 and
  not above 1, both delays are non-negative, the jitter exceeds the latency by at most ten
  seconds, together they are at most a minute, a burst comes with a rate, and the rate is at most
  \<open>10 ^ 9\<close>; the token bucket the relay builds from an accepted rate-limited plan is then
  constructed without an exception, and it is exact (nothing in it ever wraps) unless the burst
  was configured above 18,446,744,070 bytes.
\<close>

theorem fp_validate_sound:
  "(fp_validate p = Inr () \<longleftrightarrow>
     \<not> double_less (fp_apply_probability p) (Finite 0) \<and> \<not> double_less (Finite 1) (fp_apply_probability p) \<and>
     0 \<le> fp_latency p \<and> 0 \<le> fp_jitter p \<and> fp_jitter p \<le> fp_latency p + 10000 \<and>
     fp_latency p + fp_jitter p \<le> 60000 \<and>
     (fp_burst_bytes p \<noteq> 0 \<longrightarrow> fp_rate_bytes_per_second p \<noteq> 0) \<and> fp_rate_bytes_per_second p \<le> 1000000000) \<and>
   (fp_validate p = Inr () \<and> 0 < fp_rate_bytes_per_second p \<longrightarrow>
     (\<exists>b. tb_new (fp_rate_bytes_per_second p) (fp_effective_burst_bytes p) now = Inr b \<and> tb_inv b \<and>
       (fp_burst_bytes p \<le> 18446744070 \<longrightarrow> tb_exact b)))"
  using fp_validate_ok [of p] fp_validate_bucket [of p now] by blast

definition fault_plan_example :: fault_plan where
  "fault_plan_example = fault_plan_default\<lparr>fp_latency := 20, fp_jitter := 5, fp_rate_bytes_per_second := 10000\<rparr>"

theorem fp_validate_sound_witness:
  "fp_validate fault_plan_example = Inr () \<and>
   (\<exists>b. tb_new 10000 (fp_effective_burst_bytes fault_plan_example) 0 = Inr b \<and> tb_exact b)"
proof -
  have ok: "fp_validate fault_plan_example = Inr ()"
    by (simp add: fault_plan_example_def fault_plan_default_def fp_validate_ok)
  moreover have "fp_rate_bytes_per_second fault_plan_example = 10000" "fp_burst_bytes fault_plan_example = 0"
    by (simp_all add: fault_plan_example_def fault_plan_default_def)
  ultimately show ?thesis
    using fp_validate_sound [of fault_plan_example 0] by auto
qed

text \<open>
  Not-a-number passes as a probability. A plan whose probability is not a number at all is
  accepted (every comparison with it is false), although the accepted range is stated to be 0 to 1.
\<close>

theorem fp_validate_accepts_nan:
  "fp_validate (fault_plan_default\<lparr>fp_apply_probability := NaN\<rparr>) = Inr ()"
  by (simp add: fp_validate_ok fault_plan_default_def)

text \<open>
  Validation itself can overflow. A latency within ten seconds of the largest representable
  count is not rejected with a message: computing the bound for the jitter overflows a signed
  64-bit integer.
\<close>

theorem fp_validate_overflow:
  assumes "9223372036854765808 \<le> latency" and "latency < 9223372036854775808"
  shows "fp_validate (fault_plan_default\<lparr>fp_latency := latency\<rparr>) =
    Inl (UndefinedBehavior ''signed integer overflow'')"
  using assms by (simp add: fp_validate_def s64_add_def fault_plan_default_def)

theorem fp_validate_overflow_witness:
  "fp_validate (fault_plan_default\<lparr>fp_latency := 9223372036854775807\<rparr>) =
    Inl (UndefinedBehavior ''signed integer overflow'')"
  by (rule fp_validate_overflow) simp_all

end
