(* ===== verification/Socket_Io.thy ===== *)
theory Socket_Io
  imports Netfault_Prelude
begin

text \<open>
  \<^verbatim>\<open>include/netfault/socket_io.hpp\<close> and \<^verbatim>\<open>src/common/socket_io.cpp\<close>: the seam between the relay and
  the kernel. The virtual class \<^verbatim>\<open>SocketIo\<close> is the record \<open>socket_io\<close> of its three operations over
  an arbitrary world \<open>'w\<close>; \<^verbatim>\<open>SystemSocketIo\<close> is built from the system calls of a \<open>kernel\<close>, which is
  a parameter. Two locales state what each layer promises: \<open>posix_kernel\<close>, the documented behaviour
  of \<^verbatim>\<open>recv\<close>, \<^verbatim>\<open>send\<close> and \<^verbatim>\<open>shutdown\<close>, and \<open>socket_contract\<close>, what the relay relies on; the first
  gives the second.
\<close>

section \<open>The interface\<close>

datatype io_status = Transferred | WouldBlock | PeerClosed | Error

record io_result =
  io_status :: io_status
  io_bytes :: nat
  io_error :: int

text \<open>
  A call that never returns is \<open>None\<close>. A receive hands back the contents of the buffer it was
  given, which it may have overwritten.
\<close>

record 'w socket_io =
  io_receive :: "int \<Rightarrow> byte list \<Rightarrow> 'w \<Rightarrow> (io_result \<times> byte list \<times> 'w) option"
  io_send :: "int \<Rightarrow> byte list \<Rightarrow> 'w \<Rightarrow> (io_result \<times> 'w) option"
  io_shutdown_write :: "int \<Rightarrow> 'w \<Rightarrow> bool \<times> 'w"

section \<open>System calls\<close>

text \<open>The error numbers of Linux that the sources name.\<close>

definition EINTR :: int where "EINTR = 4"
definition EAGAIN :: int where "EAGAIN = 11"
definition EWOULDBLOCK :: int where "EWOULDBLOCK = 11"
definition EPIPE :: int where "EPIPE = 32"
definition ECONNRESET :: int where "ECONNRESET = 104"
definition ENOTCONN :: int where "ENOTCONN = 107"

lemmas errno_defs = EINTR_def EAGAIN_def EWOULDBLOCK_def EPIPE_def ECONNRESET_def ENOTCONN_def

text \<open>
  The calls return a count (or -1) and the value of \<^verbatim>\<open>errno\<close> after the call.
\<close>

record 'w kernel =
  k_recv :: "int \<Rightarrow> byte list \<Rightarrow> 'w \<Rightarrow> (int \<times> int \<times> byte list) \<times> 'w"
  k_send :: "int \<Rightarrow> byte list \<Rightarrow> 'w \<Rightarrow> (int \<times> int) \<times> 'w"
  k_shutdown_wr :: "int \<Rightarrow> 'w \<Rightarrow> (int \<times> int) \<times> 'w"

text \<open>
  The options the client and the server set on their blocking sockets: the two timeouts, in seconds,
  and \<^verbatim>\<open>TCP_NODELAY\<close>.
\<close>

datatype socket_option = ReceiveTimeout nat | SendTimeout nat | NoDelay

section \<open>SystemSocketIo\<close>

definition receive_step ::
  "'w kernel \<Rightarrow> int \<Rightarrow> byte list \<times> 'w \<Rightarrow>
   (byte list \<times> 'w, io_result \<times> byte list \<times> 'w) loop_outcome option" where
  "receive_step K fd = (\<lambda>(buffer, w).
     (let ((count, errno, buffer), w) = k_recv K fd buffer w in
      if count > 0
      then Some (Halt (\<lparr>io_status = Transferred, io_bytes = nat count, io_error = 0\<rparr>, buffer, w))
      else if count = 0
      then Some (Halt (\<lparr>io_status = PeerClosed, io_bytes = 0, io_error = 0\<rparr>, buffer, w))
      else if errno = EINTR then Some (Again (buffer, w))
      else if errno = EAGAIN \<or> errno = EWOULDBLOCK
      then Some (Halt (\<lparr>io_status = WouldBlock, io_bytes = 0, io_error = 0\<rparr>, buffer, w))
      else Some (Halt (\<lparr>io_status = Error, io_bytes = 0, io_error = errno\<rparr>, buffer, w))))"

definition system_receive ::
  "'w kernel \<Rightarrow> int \<Rightarrow> byte list \<Rightarrow> 'w \<Rightarrow> (io_result \<times> byte list \<times> 'w) option" where
  "system_receive K fd buffer w = run_loop (receive_step K fd) (buffer, w)"

definition send_step ::
  "'w kernel \<Rightarrow> int \<Rightarrow> byte list \<Rightarrow> 'w \<Rightarrow> ('w, io_result \<times> 'w) loop_outcome option" where
  "send_step K fd data w =
     (let ((count, errno), w) = k_send K fd data w in
      if count > 0
      then Some (Halt (\<lparr>io_status = Transferred, io_bytes = nat count, io_error = 0\<rparr>, w))
      else if count < 0 \<and> errno = EINTR then Some (Again w)
      else if count < 0 \<and> (errno = EAGAIN \<or> errno = EWOULDBLOCK)
      then Some (Halt (\<lparr>io_status = WouldBlock, io_bytes = 0, io_error = 0\<rparr>, w))
      else Some (Halt (\<lparr>io_status = Error, io_bytes = 0,
                        io_error = (if count < 0 then errno else EPIPE)\<rparr>, w)))"

definition system_send :: "'w kernel \<Rightarrow> int \<Rightarrow> byte list \<Rightarrow> 'w \<Rightarrow> (io_result \<times> 'w) option" where
  "system_send K fd data w = run_loop (send_step K fd data) w"

definition system_shutdown_write :: "'w kernel \<Rightarrow> int \<Rightarrow> 'w \<Rightarrow> bool \<times> 'w" where
  "system_shutdown_write K fd w =
     (let ((result, errno), w) = k_shutdown_wr K fd w in (result = 0 \<or> errno = ENOTCONN, w))"

definition system_socket_io :: "'w kernel \<Rightarrow> 'w socket_io" where
  "system_socket_io K =
     \<lparr>io_receive = system_receive K, io_send = system_send K,
      io_shutdown_write = system_shutdown_write K\<rparr>"

section \<open>Contracts\<close>

text \<open>
  The contract the relay relies on. Every call returns; a transfer moves at least one byte and at
  most the buffer; and the bytes a descriptor has delivered or accepted so far, observed by
  \<open>received\<close> and \<open>sent\<close>, grow by exactly what a call reports.
\<close>

locale socket_contract =
  fixes io :: "'w socket_io"
    and received :: "'w \<Rightarrow> int \<Rightarrow> byte list"
    and sent :: "'w \<Rightarrow> int \<Rightarrow> byte list"
  assumes receive_ok: "\<exists>res buffer' w'. io_receive io fd buffer w = Some (res, buffer', w') \<and>
      length buffer' = length buffer \<and> sent w' = sent w \<and>
      (if io_status res = Transferred
       then 0 < io_bytes res \<and> io_bytes res \<le> length buffer \<and>
            received w' = (received w)(fd := received w fd @ take (io_bytes res) buffer')
       else received w' = received w)"
    and send_ok: "\<exists>res w'. io_send io fd data w = Some (res, w') \<and> received w' = received w \<and>
      (if io_status res = Transferred
       then 0 < io_bytes res \<and> io_bytes res \<le> length data \<and>
            sent w' = (sent w)(fd := sent w fd @ take (io_bytes res) data)
       else sent w' = sent w)"
    and shutdown_ok: "io_shutdown_write io fd w = (ok, w') \<Longrightarrow> received w' = received w \<and> sent w' = sent w"

text \<open>
  The documented behaviour of the calls: a count never exceeds the buffer, a positive count is
  that many bytes moved, any other outcome moves none, and only finitely many calls in a row are
  interrupted by a signal.
\<close>

locale posix_kernel =
  fixes K :: "'w kernel"
    and received :: "'w \<Rightarrow> int \<Rightarrow> byte list"
    and sent :: "'w \<Rightarrow> int \<Rightarrow> byte list"
    and interruptions :: "'w \<Rightarrow> nat"
  assumes recv_ok: "k_recv K fd buffer w = ((count, errno, buffer'), w') \<Longrightarrow>
      length buffer' = length buffer \<and> count \<le> int (length buffer) \<and> sent w' = sent w \<and>
      received w' = (if 0 < count then (received w)(fd := received w fd @ take (nat count) buffer')
                     else received w)"
    and recv_interrupted: "k_recv K fd buffer w = ((count, EINTR, buffer'), w') \<Longrightarrow> count < 0 \<Longrightarrow>
      interruptions w' < interruptions w"
    and ksend_ok: "k_send K fd data w = ((count, errno), w') \<Longrightarrow>
      count \<le> int (length data) \<and> received w' = received w \<and>
      sent w' = (if 0 < count then (sent w)(fd := sent w fd @ take (nat count) data) else sent w)"
    and send_interrupted: "k_send K fd data w = ((count, EINTR), w') \<Longrightarrow> count < 0 \<Longrightarrow>
      interruptions w' < interruptions w"
    and kshutdown_ok: "k_shutdown_wr K fd w = (res, w') \<Longrightarrow> received w' = received w \<and> sent w' = sent w"
begin

lemma system_receive_ok:
  "\<exists>res buffer' w'. system_receive K fd buffer w = Some (res, buffer', w') \<and>
    length buffer' = length buffer \<and> sent w' = sent w \<and>
    (if io_status res = Transferred
     then 0 < io_bytes res \<and> io_bytes res \<le> length buffer \<and>
          received w' = (received w)(fd := received w fd @ take (io_bytes res) buffer')
     else received w' = received w)"
proof -
  let ?I = "\<lambda>(b :: byte list, v). length b = length buffer \<and> sent v = sent w \<and> received v = received w"
  let ?Q = "\<lambda>(res, b, v). length b = length buffer \<and> sent v = sent w \<and>
    (if io_status res = Transferred
     then 0 < io_bytes res \<and> io_bytes res \<le> length buffer \<and>
          received v = (received w)(fd := received w fd @ take (io_bytes res) b)
     else received v = received w)"
  have "\<exists>r. run_loop (receive_step K fd) (buffer, w) = Some r \<and> ?Q r"
  proof (rule run_loop_total [where I = ?I and m = "\<lambda>(b, v). interruptions v"])
    fix s assume I: "?I s"
    obtain b v where s: "s = (b, v)" by (cases s)
    obtain count errno b' v' where call: "k_recv K fd b v = ((count, errno, b'), v')"
      by (metis prod.collapse)
    from recv_ok [OF call] recv_interrupted [of fd b v count b' v'] I call
    show "loop_ok ?I (\<lambda>(b, v). interruptions v) ?Q s (receive_step K fd s)"
      by (auto simp: s receive_step_def Let_def)
  qed simp
  then show ?thesis by (auto simp: system_receive_def)
qed

lemma system_send_ok:
  "\<exists>res w'. system_send K fd data w = Some (res, w') \<and> received w' = received w \<and>
    (if io_status res = Transferred
     then 0 < io_bytes res \<and> io_bytes res \<le> length data \<and>
          sent w' = (sent w)(fd := sent w fd @ take (io_bytes res) data)
     else sent w' = sent w)"
proof -
  let ?I = "\<lambda>v. sent v = sent w \<and> received v = received w"
  let ?Q = "\<lambda>(res, v). received v = received w \<and>
    (if io_status res = Transferred
     then 0 < io_bytes res \<and> io_bytes res \<le> length data \<and>
          sent v = (sent w)(fd := sent w fd @ take (io_bytes res) data)
     else sent v = sent w)"
  have "\<exists>r. run_loop (send_step K fd data) w = Some r \<and> ?Q r"
  proof (rule run_loop_total [where I = ?I and m = interruptions])
    fix v assume I: "?I v"
    obtain count errno v' where call: "k_send K fd data v = ((count, errno), v')"
      by (metis prod.collapse)
    from ksend_ok [OF call] send_interrupted [of fd data v count v'] I call
    show "loop_ok ?I interruptions ?Q v (send_step K fd data v)"
      by (auto simp: send_step_def Let_def)
  qed simp
  then show ?thesis by (auto simp: system_send_def)
qed

lemma system_shutdown_ok:
  "system_shutdown_write K fd w = (ok, w') \<Longrightarrow> received w' = received w \<and> sent w' = sent w"
  using kshutdown_ok [OF prod.collapse [symmetric], of fd w]
  by (auto simp: system_shutdown_write_def Let_def case_prod_unfold)

end

text \<open>The kernel's contract gives the relay's.\<close>

sublocale posix_kernel \<subseteq> system: socket_contract "system_socket_io K" received sent
  by unfold_locales
    (simp_all add: system_socket_io_def system_receive_ok system_send_ok system_shutdown_ok)

section \<open>A scripted kernel\<close>

text \<open>
  A kernel whose calls follow a script, the way the unit tests force partial transfers,
  \<^verbatim>\<open>EAGAIN\<close>, end of file and resets. Each receive and each send takes the next step of its script;
  an exhausted script blocks receives and accepts sends whole. It shows that the documented
  behaviour can hold, for every finite sequence of outcomes.
\<close>

datatype recv_event = Deliver "byte list" | EndOfStream | RecvFails int
datatype send_event = Accept nat | SendFails int

record script_world =
  sw_recv_script :: "recv_event list"
  sw_send_script :: "send_event list"
  sw_received :: "int \<Rightarrow> byte list"
  sw_sent :: "int \<Rightarrow> byte list"
  sw_shutdowns :: "int list"

definition scripted_recv :: "int \<Rightarrow> byte list \<Rightarrow> script_world \<Rightarrow> (int \<times> int \<times> byte list) \<times> script_world" where
  "scripted_recv fd buffer w =
     (case sw_recv_script w of
        [] \<Rightarrow> ((- 1, EAGAIN, buffer), w)
      | Deliver bytes # rest \<Rightarrow>
          let n = min (length bytes) (length buffer); now = take n bytes; later = drop n bytes
          in ((int n, 0, now @ drop n buffer),
              w\<lparr>sw_recv_script := (if later = [] then rest else Deliver later # rest),
                sw_received := (sw_received w)(fd := sw_received w fd @ now)\<rparr>)
      | EndOfStream # rest \<Rightarrow> ((0, 0, buffer), w\<lparr>sw_recv_script := rest\<rparr>)
      | RecvFails e # rest \<Rightarrow> ((- 1, e, buffer), w\<lparr>sw_recv_script := rest\<rparr>))"

definition scripted_send :: "int \<Rightarrow> byte list \<Rightarrow> script_world \<Rightarrow> (int \<times> int) \<times> script_world" where
  "scripted_send fd data w =
     (case sw_send_script w of
        [] \<Rightarrow> ((int (length data), 0), w\<lparr>sw_sent := (sw_sent w)(fd := sw_sent w fd @ data)\<rparr>)
      | Accept n # rest \<Rightarrow>
          let n = min n (length data)
          in ((int n, 0),
              w\<lparr>sw_send_script := rest, sw_sent := (sw_sent w)(fd := sw_sent w fd @ take n data)\<rparr>)
      | SendFails e # rest \<Rightarrow> ((- 1, e), w\<lparr>sw_send_script := rest\<rparr>))"

definition scripted_kernel :: "script_world kernel" where
  "scripted_kernel =
     \<lparr>k_recv = scripted_recv, k_send = scripted_send,
      k_shutdown_wr = (\<lambda>fd w. ((0, 0), w\<lparr>sw_shutdowns := sw_shutdowns w @ [fd]\<rparr>))\<rparr>"

definition sw_steps :: "script_world \<Rightarrow> nat" where
  "sw_steps w = length (sw_recv_script w) + length (sw_send_script w)"

interpretation scripted: posix_kernel scripted_kernel sw_received sw_sent sw_steps
proof unfold_locales
  fix fd buffer w count errno buffer' w'
  assume "k_recv scripted_kernel fd buffer w = ((count, errno, buffer'), w')"
  then show "length buffer' = length buffer \<and> count \<le> int (length buffer) \<and> sw_sent w' = sw_sent w \<and>
      sw_received w' = (if 0 < count then (sw_received w)(fd := sw_received w fd @ take (nat count) buffer')
                        else sw_received w)"
    by (auto simp: scripted_kernel_def scripted_recv_def Let_def fun_eq_iff
        split: list.splits recv_event.splits)
next
  fix fd buffer w count buffer' w'
  assume "k_recv scripted_kernel fd buffer w = ((count, EINTR, buffer'), w')" and "count < 0"
  then show "sw_steps w' < sw_steps w"
    by (auto simp: scripted_kernel_def scripted_recv_def Let_def sw_steps_def errno_defs
        split: list.splits recv_event.splits)
next
  fix fd data w count errno w'
  assume "k_send scripted_kernel fd data w = ((count, errno), w')"
  then show "count \<le> int (length data) \<and> sw_received w' = sw_received w \<and>
      sw_sent w' = (if 0 < count then (sw_sent w)(fd := sw_sent w fd @ take (nat count) data) else sw_sent w)"
    by (auto simp: scripted_kernel_def scripted_send_def Let_def fun_eq_iff
        split: list.splits send_event.splits)
next
  fix fd data w count w'
  assume "k_send scripted_kernel fd data w = ((count, EINTR), w')" and "count < 0"
  then show "sw_steps w' < sw_steps w"
    by (auto simp: scripted_kernel_def scripted_send_def Let_def sw_steps_def errno_defs
        split: list.splits send_event.splits)
qed (auto simp: scripted_kernel_def)

text \<open>The scripted sockets beside any other state, for the programs built on them.\<close>

definition scripted_beside :: "(script_world \<times> 'b) kernel" where
  "scripted_beside =
     \<lparr>k_recv = (\<lambda>fd buffer (w, l). let (r, w) = k_recv scripted_kernel fd buffer w in (r, (w, l))),
      k_send = (\<lambda>fd data (w, l). let (r, w) = k_send scripted_kernel fd data w in (r, (w, l))),
      k_shutdown_wr = (\<lambda>fd (w, l). let (r, w) = k_shutdown_wr scripted_kernel fd w in (r, (w, l)))\<rparr>"

interpretation beside: posix_kernel scripted_beside "\<lambda>w. sw_received (fst w)" "\<lambda>w. sw_sent (fst w)" "\<lambda>w. sw_steps (fst w)"
proof unfold_locales
  fix fd buffer count errno buffer' and w w' :: "script_world \<times> 'b"
  assume "k_recv scripted_beside fd buffer w = ((count, errno, buffer'), w')"
  then have "k_recv scripted_kernel fd buffer (fst w) = ((count, errno, buffer'), fst w')"
    by (cases w) (auto simp: scripted_beside_def split: prod.splits)
  from scripted.recv_ok [OF this]
  show "length buffer' = length buffer \<and> count \<le> int (length buffer) \<and> sw_sent (fst w') = sw_sent (fst w) \<and>
      sw_received (fst w') = (if 0 < count then (sw_received (fst w))(fd := sw_received (fst w) fd @ take (nat count) buffer')
                          else sw_received (fst w))" .
next
  fix fd buffer count buffer' and w w' :: "script_world \<times> 'b"
  assume "k_recv scripted_beside fd buffer w = ((count, EINTR, buffer'), w')" and neg: "count < 0"
  then have "k_recv scripted_kernel fd buffer (fst w) = ((count, EINTR, buffer'), fst w')"
    by (cases w) (auto simp: scripted_beside_def split: prod.splits)
  from scripted.recv_interrupted [OF this neg] show "sw_steps (fst w') < sw_steps (fst w)" .
next
  fix fd data count errno and w w' :: "script_world \<times> 'b"
  assume "k_send scripted_beside fd data w = ((count, errno), w')"
  then have "k_send scripted_kernel fd data (fst w) = ((count, errno), fst w')"
    by (cases w) (auto simp: scripted_beside_def split: prod.splits)
  from scripted.ksend_ok [OF this]
  show "count \<le> int (length data) \<and> sw_received (fst w') = sw_received (fst w) \<and>
      sw_sent (fst w') = (if 0 < count then (sw_sent (fst w))(fd := sw_sent (fst w) fd @ take (nat count) data) else sw_sent (fst w))" .
next
  fix fd data count and w w' :: "script_world \<times> 'b"
  assume "k_send scripted_beside fd data w = ((count, EINTR), w')" and neg: "count < 0"
  then have "k_send scripted_kernel fd data (fst w) = ((count, EINTR), fst w')"
    by (cases w) (auto simp: scripted_beside_def split: prod.splits)
  from scripted.send_interrupted [OF this neg] show "sw_steps (fst w') < sw_steps (fst w)" .
next
  fix fd res and w w' :: "script_world \<times> 'b"
  assume "k_shutdown_wr scripted_beside fd w = (res, w')"
  then have "k_shutdown_wr scripted_kernel fd (fst w) = (res, fst w')"
    by (cases w) (auto simp: scripted_beside_def split: prod.splits)
  from scripted.kshutdown_ok [OF this] show "sw_received (fst w') = sw_received (fst w) \<and> sw_sent (fst w') = sw_sent (fst w)" .
qed

end
