(* ===== verification/Charconv.thy ===== *)
theory Charconv
  imports Netfault_Prelude
begin

text \<open>
  The two conversions of the C++ standard library the sources use on numbers: \<^verbatim>\<open>std::to_string\<close> of
  an integer and \<^verbatim>\<open>std::from_chars\<close> of an unsigned decimal. Parsing what was printed gives the
  number back.
\<close>

section \<open>Printing\<close>

definition digit_char :: "nat \<Rightarrow> char" where
  "digit_char d = char_of (48 + d)"

fun nat_to_string :: "nat \<Rightarrow> string" where
  "nat_to_string n =
     (if n < 10 then [digit_char n] else nat_to_string (n div 10) @ [digit_char (n mod 10)])"

declare nat_to_string.simps [simp del]

definition int_to_string :: "int \<Rightarrow> string" where
  "int_to_string i = (if i < 0 then ''-'' @ nat_to_string (nat (- i)) else nat_to_string (nat i))"

definition u64_to_string :: "u64 \<Rightarrow> string" where
  "u64_to_string w = nat_to_string (unat w)"

section \<open>Parsing\<close>

datatype conv_error = InvalidText | ResultOutOfRange

definition is_digit_char :: "char \<Rightarrow> bool" where
  "is_digit_char c \<longleftrightarrow> 48 \<le> (of_char c :: nat) \<and> (of_char c :: nat) \<le> 57"

definition digits_value :: "string \<Rightarrow> nat" where
  "digits_value s = foldl (\<lambda>acc c. acc * 10 + (of_char c - 48)) 0 s"

text \<open>
  \<^verbatim>\<open>std::from_chars\<close> takes the longest run of digits (no sign, no blanks), fails on an empty one and
  on a value above the target type's maximum, and reports how far it read.
\<close>

definition from_chars :: "nat \<Rightarrow> string \<Rightarrow> conv_error + (nat \<times> string)" where
  "from_chars max_value text =
     (let digits = takeWhile is_digit_char text; rest = dropWhile is_digit_char text
      in if digits = [] then Inl InvalidText
         else if digits_value digits > max_value then Inl ResultOutOfRange
         else Inr (digits_value digits, rest))"

section \<open>Round trip\<close>

lemma of_char_digit [simp]: "d < 10 \<Longrightarrow> (of_char (digit_char d) :: nat) = 48 + d"
  by (simp add: digit_char_def)

lemma is_digit_char_digit [simp]: "d < 10 \<Longrightarrow> is_digit_char (digit_char d)"
  by (simp add: is_digit_char_def)

lemma nat_to_string_digits: "c \<in> set (nat_to_string n) \<Longrightarrow> is_digit_char c"
proof (induction n rule: nat_to_string.induct)
  case (1 n)
  then show ?case by (auto simp: nat_to_string.simps [of n] split: if_splits)
qed

lemma nat_to_string_nonempty [simp]: "nat_to_string n \<noteq> []"
  by (simp add: nat_to_string.simps [of n])

lemma digits_value_snoc: "digits_value (s @ [c]) = digits_value s * 10 + (of_char c - 48)"
  by (simp add: digits_value_def)

lemma digits_value_nat_to_string [simp]: "digits_value (nat_to_string n) = n"
proof (induction n rule: nat_to_string.induct)
  case (1 n)
  show ?case
  proof (cases "n < 10")
    case True
    then show ?thesis by (simp add: nat_to_string.simps [of n] digits_value_def)
  next
    case False
    with 1 show ?thesis by (simp add: nat_to_string.simps [of n] digits_value_snoc)
  qed
qed

lemma nat_to_string_run [simp]:
  "takeWhile is_digit_char (nat_to_string n) = nat_to_string n"
  "dropWhile is_digit_char (nat_to_string n) = []"
  using nat_to_string_digits by (auto simp: takeWhile_eq_all_conv)

lemma from_chars_nat_to_string [simp]:
  "n \<le> max_value \<Longrightarrow> from_chars max_value (nat_to_string n) = Inr (n, [])"
  by (simp add: from_chars_def)

lemma from_chars_bound: "from_chars max_value text = Inr (n, rest) \<Longrightarrow> n \<le> max_value"
  by (auto simp: from_chars_def Let_def split: if_splits)

lemma nat_to_string_inject [simp]: "nat_to_string m = nat_to_string n \<longleftrightarrow> m = n"
  by (metis digits_value_nat_to_string)

end
