(* ===== verification/Relay.thy ===== *)
theory Relay
  imports Byte_Queue Backpressure Connection_State Delay_Line Token_Bucket Fault_Rng Fault_Plan
    Socket_Io Charconv
begin

text \<open>
  \<^verbatim>\<open>include/netfault/relay.hpp\<close> and \<^verbatim>\<open>src/common/relay.cpp\<close>: the forwarding engine of one proxied
  connection. The state is the record \<open>relay\<close>; the observer the relay reports to is the list
  \<open>r_events\<close> of the events it was given; socket access goes through a \<open>socket_io\<close> over a world
  \<open>'w\<close> that the operations thread. An operation that may throw returns \<open>exn + _\<close>, one that
  loops over socket calls is an option of it, \<open>None\<close> being a loop that never ends. The text of
  \<^verbatim>\<open>strerror\<close> is a parameter.
\<close>

section \<open>Data\<close>

datatype side = Client | Upstream

definition opposite :: "side \<Rightarrow> side" where
  "opposite s = (if s = Client then Upstream else Client)"

record relay_config =
  rc_buffer_bytes_per_direction :: nat
  rc_low_water_bytes :: nat
  rc_high_water_bytes :: nat

record relay_event =
  ev_name :: string
  ev_state :: connection_state
  ev_detail :: string

datatype pump_status = Continue | CloseConnection

record pump_result =
  pr_status :: pump_status
  pr_final_state :: connection_state
  pr_reason :: string

definition pump_continue :: pump_result where
  "pump_continue = \<lparr>pr_status = Continue, pr_final_state = FullyClosed, pr_reason = ''''\<rparr>"

record interest_set =
  is_read :: bool
  is_write :: bool

record relay_metrics =
  m_client_bytes_read :: u64
  m_upstream_bytes_read :: u64
  m_client_bytes_written :: u64
  m_upstream_bytes_written :: u64
  m_read_operations :: u64
  m_write_operations :: u64
  m_partial_writes :: u64
  m_eagain_events :: u64

definition relay_metrics_zero :: relay_metrics where
  "relay_metrics_zero =
     \<lparr>m_client_bytes_read = 0, m_upstream_bytes_read = 0, m_client_bytes_written = 0,
      m_upstream_bytes_written = 0, m_read_operations = 0, m_write_operations = 0,
      m_partial_writes = 0, m_eagain_events = 0\<rparr>"

record fault_channel =
  fc_delay :: "delay_line option"
  fc_bucket :: "token_bucket option"
  fc_rng :: splitmix64
  fc_latency :: time
  fc_jitter :: time
  fc_delayed_segments :: u64
  fc_delay_budget :: time

record direction =
  d_queue :: byte_queue
  d_backpressure :: backpressure
  d_fault :: "fault_channel option"

record relay =
  r_client_fd :: int
  r_upstream_fd :: int
  r_upstream_connecting :: bool
  r_client_read_open :: bool
  r_client_write_open :: bool
  r_upstream_read_open :: bool
  r_upstream_write_open :: bool
  r_faults_active :: bool
  r_reset_after_bytes :: u64
  r_half_close_after_bytes :: u64
  r_half_close_injected :: bool
  r_state :: connection_state
  r_client_to_upstream :: direction
  r_upstream_to_client :: direction
  r_metrics :: relay_metrics
  r_accepted_at :: time
  r_last_activity :: time
  r_events :: "relay_event list"

section \<open>Helpers\<close>

definition earlier :: "time option \<Rightarrow> time option \<Rightarrow> time option" where
  "earlier left right =
     (case left of
        None \<Rightarrow> right
      | Some l \<Rightarrow> (case right of None \<Rightarrow> left | Some r \<Rightarrow> Some (min l r)))"

definition release_quantum :: "nat \<Rightarrow> nat \<Rightarrow> nat" where
  "release_quantum eligible_bytes burst_bytes = min eligible_bytes (min burst_bytes 4096)"

definition direction_from :: "relay \<Rightarrow> side \<Rightarrow> direction" where
  "direction_from r source =
     (if source = Client then r_client_to_upstream r else r_upstream_to_client r)"

definition set_direction :: "relay \<Rightarrow> side \<Rightarrow> direction \<Rightarrow> relay" where
  "set_direction r source d =
     (if source = Client then r\<lparr>r_client_to_upstream := d\<rparr> else r\<lparr>r_upstream_to_client := d\<rparr>)"

definition fd_for :: "relay \<Rightarrow> side \<Rightarrow> int" where
  "fd_for r s = (if s = Client then r_client_fd r else r_upstream_fd r)"

definition read_open :: "relay \<Rightarrow> side \<Rightarrow> bool" where
  "read_open r s = (if s = Client then r_client_read_open r else r_upstream_read_open r)"

definition write_open :: "relay \<Rightarrow> side \<Rightarrow> bool" where
  "write_open r s = (if s = Client then r_client_write_open r else r_upstream_write_open r)"

definition close_read :: "relay \<Rightarrow> side \<Rightarrow> relay" where
  "close_read r s = (if s = Client then r\<lparr>r_client_read_open := False\<rparr> else r\<lparr>r_upstream_read_open := False\<rparr>)"

definition on_event :: "relay \<Rightarrow> string \<Rightarrow> string \<Rightarrow> relay" where
  "on_event r name detail =
     r\<lparr>r_events := r_events r @ [\<lparr>ev_name = name, ev_state = r_state r, ev_detail = detail\<rparr>]\<rparr>"

definition refresh_state :: "relay \<Rightarrow> relay" where
  "refresh_state r =
     r\<lparr>r_state := derive_connection_state
        \<lparr>cl_upstream_connecting = r_upstream_connecting r, cl_client_read_open = r_client_read_open r,
         cl_upstream_read_open = r_upstream_read_open r\<rparr>\<rparr>"

definition count_eagain :: "relay \<Rightarrow> relay" where
  "count_eagain r = r\<lparr>r_metrics := (r_metrics r)\<lparr>m_eagain_events := m_eagain_events (r_metrics r) + 1\<rparr>\<rparr>"

section \<open>Construction\<close>

definition make_channel :: "fault_plan \<Rightarrow> u64 \<Rightarrow> u64 \<Rightarrow> time \<Rightarrow> exn + fault_channel" where
  "make_channel faults connection_seed direction_index now =
     (let channel =
        \<lparr>fc_delay = (if fp_latency faults > 0 \<or> fp_jitter faults > 0 then Some dl_new else None),
         fc_bucket = None,
         fc_rng = \<lparr>sm_state = derive_direction_seed connection_seed direction_index\<rparr>,
         fc_latency = fp_latency faults * 1000000, fc_jitter = fp_jitter faults * 1000000,
         fc_delayed_segments = 0, fc_delay_budget = 0\<rparr>
      in if fp_rate_bytes_per_second faults > 0
         then (case tb_new (fp_rate_bytes_per_second faults) (fp_effective_burst_bytes faults) now of
                 Inl e \<Rightarrow> Inl e
               | Inr bucket \<Rightarrow> Inr (channel\<lparr>fc_bucket := Some bucket\<rparr>))
         else Inr channel)"

definition direction_new :: "relay_config \<Rightarrow> exn + direction" where
  "direction_new config =
     (case bq_new (rc_buffer_bytes_per_direction config) of
        Inl e \<Rightarrow> Inl e
      | Inr queue \<Rightarrow>
          (case bp_new (rc_low_water_bytes config) (rc_high_water_bytes config) of
             Inl e \<Rightarrow> Inl e
           | Inr backpressure \<Rightarrow>
               Inr \<lparr>d_queue = queue, d_backpressure = backpressure, d_fault = None\<rparr>))"

definition attach_channel :: "bool \<Rightarrow> fault_plan \<Rightarrow> u64 \<Rightarrow> u64 \<Rightarrow> time \<Rightarrow> direction \<Rightarrow> exn + direction" where
  "attach_channel applies faults connection_seed direction_index now d =
     (let paced = fp_latency faults > 0 \<or> fp_jitter faults > 0 \<or> fp_rate_bytes_per_second faults > 0
      in if paced \<and> applies
         then (case make_channel faults connection_seed direction_index now of
                 Inl e \<Rightarrow> Inl e
               | Inr channel \<Rightarrow> Inr (d\<lparr>d_fault := Some channel\<rparr>))
         else Inr d)"

definition relay_new ::
  "relay_config \<Rightarrow> fault_plan \<Rightarrow> u64 \<Rightarrow> int \<Rightarrow> int \<Rightarrow> bool \<Rightarrow> time \<Rightarrow> exn + relay" where
  "relay_new config faults connection_id client_fd upstream_fd connecting now =
     (case direction_new config of
        Inl e \<Rightarrow> Inl e
      | Inr d \<Rightarrow>
        let r = \<lparr>r_client_fd = client_fd, r_upstream_fd = upstream_fd,
                 r_upstream_connecting = connecting,
                 r_client_read_open = True, r_client_write_open = True,
                 r_upstream_read_open = True, r_upstream_write_open = True,
                 r_faults_active = False, r_reset_after_bytes = 0, r_half_close_after_bytes = 0,
                 r_half_close_injected = False,
                 r_state = (if connecting then ConnectingUpstream else Active),
                 r_client_to_upstream = d, r_upstream_to_client = d,
                 r_metrics = relay_metrics_zero, r_accepted_at = now, r_last_activity = now,
                 r_events = []\<rparr>;
            seed = derive_connection_seed (fp_master_seed faults) connection_id
        in if \<not> fp_any_enabled faults then Inr r
           else (case attach_channel (fp_applies_to_client_to_upstream faults) faults seed 0 now d of
                   Inl e \<Rightarrow> Inl e
                 | Inr c2u \<Rightarrow>
                     (case attach_channel (fp_applies_to_upstream_to_client faults) faults seed 1 now d of
                        Inl e \<Rightarrow> Inl e
                      | Inr u2c \<Rightarrow>
                          Inr (r\<lparr>r_faults_active := True,
                                 r_reset_after_bytes := fp_reset_after_bytes faults,
                                 r_half_close_after_bytes := fp_half_close_after_bytes faults,
                                 r_client_to_upstream := c2u, r_upstream_to_client := u2c\<rparr>))))"

section \<open>Lifecycle and fault operations\<close>

definition mark_upstream_connected :: "relay \<Rightarrow> relay" where
  "mark_upstream_connected r = refresh_state (r\<lparr>r_upstream_connecting := False\<rparr>)"

definition note_half_closed_read :: "relay \<Rightarrow> side \<Rightarrow> relay" where
  "note_half_closed_read r source =
     on_event (refresh_state (close_read r source)) ''peer_half_closed''
       (if source = Client then ''direction=client_read'' else ''direction=upstream_read'')"

definition close_for_error :: "(int \<Rightarrow> string) \<Rightarrow> int \<Rightarrow> string \<Rightarrow> pump_result" where
  "close_for_error strerror error operation =
     \<lparr>pr_status = CloseConnection,
      pr_final_state = (if error = ECONNRESET \<or> error = EPIPE then Reset else Failed),
      pr_reason = operation @ ''='' @ strerror error\<rparr>"

definition stamp_ingress :: "direction \<Rightarrow> nat \<Rightarrow> time \<Rightarrow> direction" where
  "stamp_ingress d bytes now =
     (case d_fault d of
        None \<Rightarrow> d
      | Some channel \<Rightarrow>
          (case fc_delay channel of
             None \<Rightarrow> d
           | Some line \<Rightarrow>
               let (jitter, rng) = sample_jitter (fc_rng channel) (fc_jitter channel);
                   delay = fc_latency channel + jitter;
                   delay = (if delay < 0 then 0 else delay)
               in d\<lparr>d_fault := Some (channel\<lparr>fc_rng := rng,
                     fc_delay := Some (dl_on_commit line bytes (now + delay)),
                     fc_delayed_segments := fc_delayed_segments channel + 1,
                     fc_delay_budget := fc_delay_budget channel + delay\<rparr>)\<rparr>))"

definition fault_sendable :: "direction \<Rightarrow> nat \<Rightarrow> time \<Rightarrow> nat \<times> direction" where
  "fault_sendable d limit now =
     (case d_fault d of
        None \<Rightarrow> (limit, d)
      | Some channel \<Rightarrow>
          let limit = (case fc_delay channel of
                         None \<Rightarrow> limit
                       | Some line \<Rightarrow> min limit (dl_releasable line now))
          in case fc_bucket channel of
               None \<Rightarrow> (limit, d)
             | Some bucket \<Rightarrow>
                 let (available, bucket) = tb_available bucket now;
                     d = d\<lparr>d_fault := Some (channel\<lparr>fc_bucket := Some bucket\<rparr>)\<rparr>
                 in if available < release_quantum limit (tb_burst bucket) then (0, d)
                    else (min limit available, d))"

definition observe_backpressure :: "relay \<Rightarrow> side \<Rightarrow> time \<Rightarrow> exn + relay" where
  "observe_backpressure r source now =
     (let d = direction_from r source in
      case bp_observe (d_backpressure d) (bq_size (d_queue d)) (bq_capacity (d_queue d)) now of
        Inl e \<Rightarrow> Inl e
      | Inr (transition, backpressure) \<Rightarrow>
          let d = d\<lparr>d_backpressure := backpressure\<rparr>;
              r = set_direction r source d
          in if transition = NoTransition then Inr r
             else Inr (on_event r
               (if transition = Paused then ''read_paused'' else ''read_resumed'')
               (''direction='' @ (if source = Client then ''client_to_upstream'' else ''upstream_to_client'') @
                '',queue_bytes='' @ nat_to_string (bq_size (d_queue d)) @
                '',low_water_bytes='' @ nat_to_string (bp_low_water_bytes backpressure) @
                '',high_water_bytes='' @ nat_to_string (bp_high_water_bytes backpressure))))"

section \<open>Reading\<close>

text \<open>The body of the transfer branch of \<^verbatim>\<open>handle_readable\<close>: \<open>n\<close> bytes were placed in the buffer.\<close>

definition count_read :: "relay \<Rightarrow> side \<Rightarrow> nat \<Rightarrow> relay" where
  "count_read r source n =
     (let m = r_metrics r;
          m = m\<lparr>m_read_operations := m_read_operations m + 1\<rparr>
      in r\<lparr>r_metrics :=
           (if source = Client
            then m\<lparr>m_client_bytes_read := m_client_bytes_read m + of_nat n\<rparr>
            else m\<lparr>m_upstream_bytes_read := m_upstream_bytes_read m + of_nat n\<rparr>)\<rparr>)"

definition commit_ingress :: "relay \<Rightarrow> side \<Rightarrow> nat \<Rightarrow> time \<Rightarrow> exn + relay" where
  "commit_ingress r source n now =
     (let d = direction_from r source in
      case bq_commit_write (d_queue d) n of
        Inl e \<Rightarrow> Inl e
      | Inr queue \<Rightarrow>
          let d = stamp_ingress (d\<lparr>d_queue := queue\<rparr>) n now;
              r = (set_direction r source d)\<lparr>r_last_activity := now\<rparr>
          in observe_backpressure (count_read r source n) source now)"

text \<open>The span \<^verbatim>\<open>writable\<close> handed to \<^verbatim>\<open>receive\<close>.\<close>

definition read_span :: "direction \<Rightarrow> nat \<times> nat" where
  "read_span d =
     (let available_to_high_water = sub64 (bp_high_water_bytes (d_backpressure d)) (bq_size (d_queue d));
          (off, len) = bq_writable_span (d_queue d)
      in (off, min len available_to_high_water))"

definition read_step ::
  "(int \<Rightarrow> string) \<Rightarrow> 'w socket_io \<Rightarrow> side \<Rightarrow> bool \<Rightarrow> time \<Rightarrow> relay \<times> 'w \<Rightarrow>
   (relay \<times> 'w, exn + (pump_result \<times> relay \<times> 'w)) loop_outcome option" where
  "read_step strerror io source hangup_hint now = (\<lambda>(r, w).
     (let d = direction_from r source in
      if \<not> (read_open r source \<and> \<not> bp_read_paused (d_backpressure d))
      then Some (Halt (Inr (pump_continue, r, w)))
      else
        case io_receive io (fd_for r source) (bq_span_bytes (d_queue d) (read_span d)) w of
          None \<Rightarrow> None
        | Some (result, buffer, w) \<Rightarrow>
            let r = set_direction r source (d\<lparr>d_queue := bq_fill (d_queue d) (fst (read_span d)) buffer\<rparr>)
            in case io_status result of
                 Transferred \<Rightarrow>
                   (case commit_ingress r source (io_bytes result) now of
                      Inl e \<Rightarrow> Some (Halt (Inl e))
                    | Inr r \<Rightarrow> Some (Again (r, w)))
               | PeerClosed \<Rightarrow> Some (Halt (Inr (pump_continue, note_half_closed_read r source, w)))
               | WouldBlock \<Rightarrow>
                   let r = count_eagain r;
                       r = (if hangup_hint then note_half_closed_read r source else r)
                   in Some (Halt (Inr (pump_continue, r, w)))
               | Error \<Rightarrow>
                   Some (Halt (Inr (close_for_error strerror (io_error result) ''read'', r, w)))))"

definition handle_readable ::
  "(int \<Rightarrow> string) \<Rightarrow> 'w socket_io \<Rightarrow> side \<Rightarrow> bool \<Rightarrow> time \<Rightarrow> relay \<Rightarrow> 'w \<Rightarrow>
   (exn + (pump_result \<times> relay \<times> 'w)) option" where
  "handle_readable strerror io source hangup_hint now r w =
     run_loop (read_step strerror io source hangup_hint now) (r, w)"

section \<open>Writing\<close>

definition check_lifecycle_faults :: "'w socket_io \<Rightarrow> relay \<Rightarrow> 'w \<Rightarrow> pump_result \<times> relay \<times> 'w" where
  "check_lifecycle_faults io r w =
     (let written = m_client_bytes_written (r_metrics r);
          total_written = written + m_upstream_bytes_written (r_metrics r);
          (r, w) =
            (if r_half_close_after_bytes r > 0 \<and> \<not> r_half_close_injected r \<and> r_client_write_open r \<and>
                written \<ge> r_half_close_after_bytes r
             then let r = r\<lparr>r_half_close_injected := True\<rparr>;
                      (ok, w) = io_shutdown_write io (r_client_fd r) w
                  in if ok
                     then (on_event (r\<lparr>r_client_write_open := False\<rparr>) ''fault_injected''
                             (''fault=half_close,direction=client_write,after_bytes='' @ u64_to_string written), w)
                     else (r, w)
             else (r, w))
      in if r_reset_after_bytes r > 0 \<and> total_written \<ge> r_reset_after_bytes r
         then (\<lparr>pr_status = CloseConnection, pr_final_state = Reset, pr_reason = ''fault_reset''\<rparr>,
               on_event r ''fault_injected'' (''fault=reset,after_bytes='' @ u64_to_string total_written), w)
         else (pump_continue, r, w))"

definition count_write :: "relay \<Rightarrow> side \<Rightarrow> nat \<Rightarrow> relay" where
  "count_write r destination n =
     (let m = r_metrics r;
          m = m\<lparr>m_write_operations := m_write_operations m + 1\<rparr>
      in r\<lparr>r_metrics :=
           (if destination = Client
            then m\<lparr>m_client_bytes_written := m_client_bytes_written m + of_nat n\<rparr>
            else m\<lparr>m_upstream_bytes_written := m_upstream_bytes_written m + of_nat n\<rparr>)\<rparr>)"

definition consume_channel :: "fault_channel \<Rightarrow> nat \<Rightarrow> exn + fault_channel" where
  "consume_channel channel n =
     (case (case fc_delay channel of
              None \<Rightarrow> Inr channel
            | Some line \<Rightarrow>
                (case dl_on_consume line n of
                   Inl e \<Rightarrow> Inl e
                 | Inr line \<Rightarrow> Inr (channel\<lparr>fc_delay := Some line\<rparr>))) of
        Inl e \<Rightarrow> Inl e
      | Inr channel \<Rightarrow>
          (case fc_bucket channel of
             None \<Rightarrow> Inr channel
           | Some bucket \<Rightarrow>
               (case tb_consume bucket n of
                  Inl e \<Rightarrow> Inl e
                | Inr bucket \<Rightarrow> Inr (channel\<lparr>fc_bucket := Some bucket\<rparr>))))"

definition consume_direction :: "direction \<Rightarrow> nat \<Rightarrow> exn + direction" where
  "consume_direction d n =
     (case bq_consume (d_queue d) n of
        Inl e \<Rightarrow> Inl e
      | Inr queue \<Rightarrow>
          (case d_fault d of
             None \<Rightarrow> Inr (d\<lparr>d_queue := queue\<rparr>)
           | Some channel \<Rightarrow>
               (case consume_channel channel n of
                  Inl e \<Rightarrow> Inl e
                | Inr channel \<Rightarrow> Inr (d\<lparr>d_queue := queue, d_fault := Some channel\<rparr>))))"

text \<open>The body of the transfer branch of \<^verbatim>\<open>flush\<close>: \<open>n\<close> of at most \<open>budget\<close> bytes were sent.\<close>

definition consume_egress :: "relay \<Rightarrow> side \<Rightarrow> nat \<Rightarrow> nat \<Rightarrow> time \<Rightarrow> exn + relay" where
  "consume_egress r destination n budget now =
     (let source = opposite destination;
          r = (if n < budget
               then r\<lparr>r_metrics := (r_metrics r)\<lparr>m_partial_writes := m_partial_writes (r_metrics r) + 1\<rparr>\<rparr>
               else r)
      in case consume_direction (direction_from r source) n of
           Inl e \<Rightarrow> Inl e
         | Inr d \<Rightarrow>
             (case observe_backpressure (set_direction r source d) source now of
                Inl e \<Rightarrow> Inl e
              | Inr r \<Rightarrow> Inr (count_write (r\<lparr>r_last_activity := now\<rparr>) destination n)))"

text \<open>
  One round of the loop of \<^verbatim>\<open>flush\<close>. Leaving it by \<^verbatim>\<open>break\<close> is \<open>None\<close> for the pump result, leaving
  the function is \<open>Some\<close>.
\<close>

definition flush_step ::
  "(int \<Rightarrow> string) \<Rightarrow> 'w socket_io \<Rightarrow> side \<Rightarrow> time \<Rightarrow> relay \<times> 'w \<Rightarrow>
   (relay \<times> 'w, exn + (pump_result option \<times> relay \<times> 'w)) loop_outcome option" where
  "flush_step strerror io destination now = (\<lambda>(r, w).
     (let source = opposite destination; d = direction_from r source in
      if bq_empty (d_queue d) then Some (Halt (Inr (None, r, w)))
      else
        let (off, len) = bq_readable_span (d_queue d);
            (budget, d) = fault_sendable d len now;
            r = set_direction r source d
        in if budget = 0 then Some (Halt (Inr (None, r, w)))
           else
             case io_send io (fd_for r destination) (bq_span_bytes (d_queue d) (off, budget)) w of
               None \<Rightarrow> None
             | Some (result, w) \<Rightarrow>
                 (case io_status result of
                    Transferred \<Rightarrow>
                      (case consume_egress r destination (io_bytes result) budget now of
                         Inl e \<Rightarrow> Some (Halt (Inl e))
                       | Inr r \<Rightarrow> Some (Again (r, w)))
                  | WouldBlock \<Rightarrow> Some (Halt (Inr (None, count_eagain r, w)))
                  | _ \<Rightarrow>
                      Some (Halt (Inr (Some (close_for_error strerror (io_error result) ''write''), r, w))))))"

definition flush ::
  "(int \<Rightarrow> string) \<Rightarrow> 'w socket_io \<Rightarrow> side \<Rightarrow> time \<Rightarrow> relay \<Rightarrow> 'w \<Rightarrow>
   (exn + (pump_result \<times> relay \<times> 'w)) option" where
  "flush strerror io destination now r w =
     (if \<not> write_open r destination \<or> destination = Upstream \<and> r_upstream_connecting r
      then Some (Inr (pump_continue, r, w))
      else
        case run_loop (flush_step strerror io destination now) (r, w) of
          None \<Rightarrow> None
        | Some (Inl e) \<Rightarrow> Some (Inl e)
        | Some (Inr (Some result, r, w)) \<Rightarrow> Some (Inr (result, r, w))
        | Some (Inr (None, r, w)) \<Rightarrow> Some (Inr (check_lifecycle_faults io r w)))"

definition propagate_half_closes :: "'w socket_io \<Rightarrow> relay \<Rightarrow> 'w \<Rightarrow> relay \<times> 'w" where
  "propagate_half_closes io r w =
     (let (r, w) =
        (if \<not> r_client_read_open r \<and> bq_empty (d_queue (r_client_to_upstream r)) \<and>
            r_upstream_write_open r \<and> \<not> r_upstream_connecting r
         then let (ok, w) = io_shutdown_write io (r_upstream_fd r) w
              in if ok
                 then (on_event (r\<lparr>r_upstream_write_open := False\<rparr>) ''half_close_forwarded''
                         ''direction=upstream_write'', w)
                 else (r, w)
         else (r, w))
      in if \<not> r_upstream_read_open r \<and> bq_empty (d_queue (r_upstream_to_client r)) \<and> r_client_write_open r
         then let (ok, w) = io_shutdown_write io (r_client_fd r) w
              in if ok
                 then (on_event (r\<lparr>r_client_write_open := False\<rparr>) ''half_close_forwarded''
                         ''direction=client_write'', w)
                 else (r, w)
         else (r, w))"

section \<open>Waking and interest\<close>

definition next_wake :: "relay \<Rightarrow> side \<Rightarrow> time \<Rightarrow> time option \<times> relay" where
  "next_wake r destination now =
     (let source = opposite destination; d = direction_from r source in
      if \<not> write_open r destination \<or> destination = Upstream \<and> r_upstream_connecting r \<or>
         bq_empty (d_queue d) \<or> d_fault d = None
      then (None, r)
      else
        let (sendable, d) = fault_sendable d (bq_size (d_queue d)) now;
            r = set_direction r source d
        in if sendable > 0 then (None, r)
           else
             let channel = the (d_fault d);
                 releasable = (case fc_delay channel of
                                 None \<Rightarrow> bq_size (d_queue d)
                               | Some line \<Rightarrow> dl_releasable line now);
                 wake = (case fc_delay channel of
                           None \<Rightarrow> None
                         | Some line \<Rightarrow> if releasable = 0 then dl_next_eligible line now else None)
             in case fc_bucket channel of
                  None \<Rightarrow> (wake, r)
                | Some bucket \<Rightarrow>
                    if releasable > 0
                    then let (wake_at, bucket) =
                               tb_eligible_at bucket (release_quantum releasable (tb_burst bucket)) now
                         in (earlier wake (Some wake_at),
                             set_direction r source (d\<lparr>d_fault := Some (channel\<lparr>fc_bucket := Some bucket\<rparr>)\<rparr>))
                    else (wake, r))"

definition fully_drained :: "relay \<Rightarrow> bool" where
  "fully_drained r \<longleftrightarrow>
     \<not> r_client_read_open r \<and> \<not> r_upstream_read_open r \<and>
     (bq_empty (d_queue (r_client_to_upstream r)) \<or> \<not> r_upstream_write_open r) \<and>
     (bq_empty (d_queue (r_upstream_to_client r)) \<or> \<not> r_client_write_open r)"

definition desired_interest :: "relay \<Rightarrow> side \<Rightarrow> time \<Rightarrow> interest_set \<times> relay" where
  "desired_interest r side now =
     (if side = Upstream \<and> r_upstream_connecting r then (\<lparr>is_read = False, is_write = True\<rparr>, r)
      else
        let outbound_source = opposite side;
            outbound = direction_from r outbound_source;
            reads = (read_open r side \<and> \<not> bp_read_paused (d_backpressure (direction_from r side)))
        in if write_open r side \<and> \<not> bq_empty (d_queue outbound)
           then let (sendable, outbound) = fault_sendable outbound (bq_size (d_queue outbound)) now
                in (\<lparr>is_read = reads, is_write = sendable > 0\<rparr>, set_direction r outbound_source outbound)
           else (\<lparr>is_read = reads, is_write = False\<rparr>, r))"

section \<open>Reports\<close>

definition backpressure_detail :: "string \<Rightarrow> backpressure \<Rightarrow> time \<Rightarrow> string" where
  "backpressure_detail prefix tracker now =
     '','' @ prefix @ ''_pause_count='' @ u64_to_string (bp_pause_count tracker) @
     '','' @ prefix @ ''_resume_count='' @ u64_to_string (bp_resume_count tracker) @
     '','' @ prefix @ ''_saturation_count='' @ u64_to_string (bp_saturation_count tracker) @
     '','' @ prefix @ ''_paused_us='' @ int_to_string (duration_cast 1000 (bp_paused_duration tracker now))"

definition fault_detail :: "string \<Rightarrow> direction \<Rightarrow> string" where
  "fault_detail prefix d =
     (let segments = (case d_fault d of None \<Rightarrow> 0 | Some c \<Rightarrow> fc_delayed_segments c);
          budget_us = (case d_fault d of None \<Rightarrow> 0 | Some c \<Rightarrow> duration_cast 1000 (fc_delay_budget c))
      in '','' @ prefix @ ''_delayed_segments='' @ u64_to_string segments @
         '','' @ prefix @ ''_delay_budget_us='' @ int_to_string budget_us)"

definition close_detail :: "relay \<Rightarrow> time \<Rightarrow> string" where
  "close_detail r now =
     (let m = r_metrics r in
      '',duration_ms='' @ int_to_string (duration_cast 1000000 (now - r_accepted_at r)) @
      '',client_read='' @ u64_to_string (m_client_bytes_read m) @
      '',upstream_read='' @ u64_to_string (m_upstream_bytes_read m) @
      '',client_written='' @ u64_to_string (m_client_bytes_written m) @
      '',upstream_written='' @ u64_to_string (m_upstream_bytes_written m) @
      '',read_operations='' @ u64_to_string (m_read_operations m) @
      '',write_operations='' @ u64_to_string (m_write_operations m) @
      '',partial_writes='' @ u64_to_string (m_partial_writes m) @
      '',eagain_events='' @ u64_to_string (m_eagain_events m) @
      '',rejected_bytes=0'' @
      '',faults_applied='' @ nat_to_string (if r_faults_active r then 1 else 0) @
      '',c2u_high_water='' @ nat_to_string (bq_high_water_mark (d_queue (r_client_to_upstream r))) @
      '',u2c_high_water='' @ nat_to_string (bq_high_water_mark (d_queue (r_upstream_to_client r))) @
      backpressure_detail ''c2u'' (d_backpressure (r_client_to_upstream r)) now @
      backpressure_detail ''u2c'' (d_backpressure (r_upstream_to_client r)) now @
      fault_detail ''c2u'' (r_client_to_upstream r) @
      fault_detail ''u2c'' (r_upstream_to_client r))"

definition json_field :: "string \<Rightarrow> u64 \<Rightarrow> string" where
  "json_field name v = '','' @ [CHR 0x22] @ name @ [CHR 0x22] @ '':'' @ u64_to_string v"

definition direction_json :: "string \<Rightarrow> direction \<Rightarrow> time \<Rightarrow> string" where
  "direction_json prefix d now =
     (let tracker = d_backpressure d in
      json_field (prefix @ ''_queue_bytes'') (of_nat (bq_size (d_queue d))) @
      json_field (prefix @ ''_high_water'') (of_nat (bq_high_water_mark (d_queue d))) @
      json_field (prefix @ ''_pause_count'') (bp_pause_count tracker) @
      json_field (prefix @ ''_resume_count'') (bp_resume_count tracker) @
      json_field (prefix @ ''_saturation_count'') (bp_saturation_count tracker) @
      json_field (prefix @ ''_paused_us'') (of_int (duration_cast 1000 (bp_paused_duration tracker now))) @
      json_field (prefix @ ''_delayed_segments'')
        (case d_fault d of None \<Rightarrow> 0 | Some c \<Rightarrow> fc_delayed_segments c) @
      json_field (prefix @ ''_delay_budget_us'')
        (case d_fault d of None \<Rightarrow> 0 | Some c \<Rightarrow> of_int (duration_cast 1000 (fc_delay_budget c))))"

definition metrics_json :: "relay \<Rightarrow> time \<Rightarrow> string" where
  "metrics_json r now =
     (let m = r_metrics r in
      ''{'' @ [CHR 0x22] @ ''state'' @ [CHR 0x22] @ '':'' @ [CHR 0x22] @ state_name (r_state r) @ [CHR 0x22] @
      json_field ''duration_ms'' (of_int (duration_cast 1000000 (now - r_accepted_at r))) @
      json_field ''client_bytes_read'' (m_client_bytes_read m) @
      json_field ''upstream_bytes_read'' (m_upstream_bytes_read m) @
      json_field ''client_bytes_written'' (m_client_bytes_written m) @
      json_field ''upstream_bytes_written'' (m_upstream_bytes_written m) @
      json_field ''read_operations'' (m_read_operations m) @
      json_field ''write_operations'' (m_write_operations m) @
      json_field ''partial_writes'' (m_partial_writes m) @
      json_field ''eagain_events'' (m_eagain_events m) @
      json_field ''faults_applied'' (if r_faults_active r then 1 else 0) @
      direction_json ''c2u'' (r_client_to_upstream r) now @
      direction_json ''u2c'' (r_upstream_to_client r) now @
      ''}'')"

end
