(* ===== verification/Relay_Correctness.thy ===== *)
theory Relay_Correctness
  imports Relay
begin

text \<open>
  Correctness of the relay of one connection (\<^verbatim>\<open>src/common/relay.cpp\<close>) over any socket interface
  that keeps the contract \<open>socket_contract\<close>. \<open>relay_inv\<close> is the invariant of the relay's own state,
  \<open>stream_inv\<close> relates its queues to what the two sockets have delivered and accepted. The lemmas
  of the context block show for \<open>handle_readable\<close> and \<open>flush\<close> that they return, never throw, keep
  both invariants, and move exactly the bytes they should; the properties at the end are stated
  for the system calls behind \<open>system_socket_io\<close>.
\<close>

section \<open>Invariants\<close>

definition channel_inv :: "fault_channel \<Rightarrow> nat \<Rightarrow> bool" where
  "channel_inv c pending \<longleftrightarrow>
     pred_option (\<lambda>line. dl_inv line \<and> dl_pending line = pending) (fc_delay c) \<and>
     pred_option tb_inv (fc_bucket c)"

text \<open>
  A direction between an update of its queue and the next backpressure observation, and at rest.
  The queue never exceeds the high-water mark: that bounds the memory of a connection.
\<close>

definition dir_wf :: "direction \<Rightarrow> bool" where
  "dir_wf d \<longleftrightarrow> bq_inv (d_queue d) \<and> bp_inv (d_backpressure d) \<and>
     bp_high_water_bytes (d_backpressure d) \<le> bq_capacity (d_queue d) \<and>
     bq_size (d_queue d) \<le> bp_high_water_bytes (d_backpressure d) \<and>
     pred_option (\<lambda>c. channel_inv c (bq_size (d_queue d))) (d_fault d)"

definition dir_inv :: "direction \<Rightarrow> bool" where
  "dir_inv d \<longleftrightarrow> dir_wf d \<and>
     bp_synced (d_backpressure d) (bq_size (d_queue d)) (bq_capacity (d_queue d))"

definition bytes_read :: "relay \<Rightarrow> side \<Rightarrow> u64" where
  "bytes_read r s =
     (if s = Client then m_client_bytes_read (r_metrics r) else m_upstream_bytes_read (r_metrics r))"

definition bytes_written :: "relay \<Rightarrow> side \<Rightarrow> u64" where
  "bytes_written r s =
     (if s = Client then m_client_bytes_written (r_metrics r) else m_upstream_bytes_written (r_metrics r))"

abbreviation bucket_of :: "direction \<Rightarrow> token_bucket option option" where
  "bucket_of d \<equiv> map_option fc_bucket (d_fault d)"

abbreviation queue_from :: "relay \<Rightarrow> side \<Rightarrow> byte_queue" where
  "queue_from r s \<equiv> d_queue (direction_from r s)"

text \<open>
  Byte accounting (in the 64-bit counters): what was read from a side is what was written to the
  other plus what is queued between them. A write side is closed only when its source has ended
  and its queue has drained, or, towards the client, by the injected half-close.
\<close>

definition accounted :: "relay \<Rightarrow> side \<Rightarrow> bool" where
  "accounted r s \<longleftrightarrow> bytes_read r s = bytes_written r (opposite s) + of_nat (bq_size (queue_from r s))"

definition closed_in_order :: "relay \<Rightarrow> side \<Rightarrow> bool" where
  "closed_in_order r s \<longleftrightarrow>
     (\<not> write_open r (opposite s) \<longrightarrow>
        \<not> read_open r s \<and> bq_empty (queue_from r s) \<or> s = Upstream \<and> r_half_close_injected r)"

definition relay_inv :: "relay \<Rightarrow> bool" where
  "relay_inv r \<longleftrightarrow> (\<forall>s. dir_inv (direction_from r s) \<and> accounted r s \<and> closed_in_order r s) \<and>
     r_state r = r_state (refresh_state r)"

text \<open>What an operation on the queues leaves alone.\<close>

definition same_lifecycle :: "relay \<Rightarrow> relay \<Rightarrow> bool" where
  "same_lifecycle r r' \<longleftrightarrow>
     (\<forall>s. fd_for r' s = fd_for r s \<and> read_open r' s = read_open r s \<and> write_open r' s = write_open r s) \<and>
     r_upstream_connecting r' = r_upstream_connecting r \<and> r_state r' = r_state r \<and>
     r_half_close_injected r' = r_half_close_injected r \<and>
     r_half_close_after_bytes r' = r_half_close_after_bytes r \<and>
     r_reset_after_bytes r' = r_reset_after_bytes r"

section \<open>Projections\<close>

lemma opposite_simps [simp]:
  "opposite Client = Upstream" "opposite Upstream = Client" "opposite (opposite s) = s"
  "opposite s \<noteq> s" "s \<noteq> opposite s"
  by (cases s; simp add: opposite_def)+

lemma side_cases: "s' = s \<or> s' = opposite s"
  by (cases s; cases s') simp_all

lemmas relay_view_defs = direction_from_def set_direction_def fd_for_def read_open_def write_open_def
  bytes_read_def bytes_written_def on_event_def count_read_def count_write_def count_eagain_def
  close_read_def refresh_state_def Let_def

lemma set_direction_view [simp]:
  "direction_from (set_direction r s d) s' = (if s' = s then d else direction_from r s')"
  "fd_for (set_direction r s d) s' = fd_for r s'"
  "read_open (set_direction r s d) s' = read_open r s'"
  "write_open (set_direction r s d) s' = write_open r s'"
  "bytes_read (set_direction r s d) s' = bytes_read r s'"
  "bytes_written (set_direction r s d) s' = bytes_written r s'"
  by (cases s; cases s'; simp add: relay_view_defs)+

lemma set_direction_fields [simp]:
  "set_direction (set_direction r s d) s d' = set_direction r s d'"
  "r_half_close_injected (set_direction r s d) = r_half_close_injected r"
  "r_upstream_connecting (set_direction r s d) = r_upstream_connecting r"
  by (simp_all add: set_direction_def)

lemma on_event_view [simp]:
  "direction_from (on_event r n d) s' = direction_from r s'"
  "fd_for (on_event r n d) s' = fd_for r s'"
  "read_open (on_event r n d) s' = read_open r s'"
  "write_open (on_event r n d) s' = write_open r s'"
  "bytes_read (on_event r n d) s' = bytes_read r s'"
  "bytes_written (on_event r n d) s' = bytes_written r s'"
  by (simp_all add: relay_view_defs)

lemma last_activity_view [simp]:
  "direction_from (r\<lparr>r_last_activity := t\<rparr>) s' = direction_from r s'"
  "fd_for (r\<lparr>r_last_activity := t\<rparr>) s' = fd_for r s'"
  "read_open (r\<lparr>r_last_activity := t\<rparr>) s' = read_open r s'"
  "write_open (r\<lparr>r_last_activity := t\<rparr>) s' = write_open r s'"
  "bytes_read (r\<lparr>r_last_activity := t\<rparr>) s' = bytes_read r s'"
  "bytes_written (r\<lparr>r_last_activity := t\<rparr>) s' = bytes_written r s'"
  by (simp_all add: relay_view_defs)

lemma metrics_view [simp]:
  "direction_from (r\<lparr>r_metrics := m\<rparr>) s' = direction_from r s'"
  "fd_for (r\<lparr>r_metrics := m\<rparr>) s' = fd_for r s'"
  "read_open (r\<lparr>r_metrics := m\<rparr>) s' = read_open r s'"
  "write_open (r\<lparr>r_metrics := m\<rparr>) s' = write_open r s'"
  by (simp_all add: relay_view_defs)

lemma count_view [simp]:
  "bytes_read (count_read r s n) s' = bytes_read r s' + (if s' = s then of_nat n else 0)"
  "bytes_written (count_read r s n) s' = bytes_written r s'"
  "bytes_read (count_write r s n) s' = bytes_read r s'"
  "bytes_written (count_write r s n) s' = bytes_written r s' + (if s' = s then of_nat n else 0)"
  "bytes_read (count_eagain r) s' = bytes_read r s'"
  "bytes_written (count_eagain r) s' = bytes_written r s'"
  "bytes_read (r\<lparr>r_metrics := (r_metrics r)\<lparr>m_partial_writes := p\<rparr>\<rparr>) s' = bytes_read r s'"
  "bytes_written (r\<lparr>r_metrics := (r_metrics r)\<lparr>m_partial_writes := p\<rparr>\<rparr>) s' = bytes_written r s'"
  by (cases s; cases s'; simp add: relay_view_defs)+

lemma count_metrics_only:
  "\<exists>m. count_read r s n = r\<lparr>r_metrics := m\<rparr>" "\<exists>m. count_write r s n = r\<lparr>r_metrics := m\<rparr>"
  "\<exists>m. count_eagain r = r\<lparr>r_metrics := m\<rparr>"
  unfolding count_read_def count_write_def count_eagain_def Let_def by blast+

lemma count_lifecycle_view [simp]:
  "direction_from (count_read r s n) s' = direction_from r s'"
  "direction_from (count_write r s n) s' = direction_from r s'"
  "direction_from (count_eagain r) s' = direction_from r s'"
  using count_metrics_only [of r] metrics_view by metis+

lemma close_read_view [simp]:
  "direction_from (close_read r s) s' = direction_from r s'"
  "fd_for (close_read r s) s' = fd_for r s'"
  "read_open (close_read r s) s' = (s' \<noteq> s \<and> read_open r s')"
  "write_open (close_read r s) s' = write_open r s'"
  "bytes_read (close_read r s) s' = bytes_read r s'"
  "bytes_written (close_read r s) s' = bytes_written r s'"
  by (cases s; cases s'; simp add: relay_view_defs)+

lemma refresh_state_view [simp]:
  "direction_from (refresh_state r) s' = direction_from r s'"
  "fd_for (refresh_state r) s' = fd_for r s'"
  "read_open (refresh_state r) s' = read_open r s'"
  "write_open (refresh_state r) s' = write_open r s'"
  "bytes_read (refresh_state r) s' = bytes_read r s'"
  "bytes_written (refresh_state r) s' = bytes_written r s'"
  by (simp_all add: relay_view_defs)

section \<open>The lifecycle frame\<close>

lemma same_lifecycle_refl [simp]: "same_lifecycle r r"
  by (simp add: same_lifecycle_def)

lemma same_lifecycle_trans [trans]:
  "same_lifecycle a b \<Longrightarrow> same_lifecycle b c \<Longrightarrow> same_lifecycle a c"
  by (simp add: same_lifecycle_def)

lemma same_lifecycle_ops [simp]:
  "same_lifecycle r0 (set_direction r s d) = same_lifecycle r0 r"
  "same_lifecycle r0 (on_event r n e) = same_lifecycle r0 r"
  "same_lifecycle r0 (r\<lparr>r_last_activity := t\<rparr>) = same_lifecycle r0 r"
  "same_lifecycle r0 (r\<lparr>r_metrics := m\<rparr>) = same_lifecycle r0 r"
  "same_lifecycle (set_direction r s d) r' = same_lifecycle r r'"
  "same_lifecycle (on_event r n e) r' = same_lifecycle r r'"
  "same_lifecycle (r\<lparr>r_last_activity := t\<rparr>) r' = same_lifecycle r r'"
  "same_lifecycle (r\<lparr>r_metrics := m\<rparr>) r' = same_lifecycle r r'"
  by (simp_all add: same_lifecycle_def relay_view_defs)

lemma same_lifecycle_counts [simp]:
  "same_lifecycle r0 (count_read r s n) = same_lifecycle r0 r"
  "same_lifecycle r0 (count_write r s n) = same_lifecycle r0 r"
  "same_lifecycle r0 (count_eagain r) = same_lifecycle r0 r"
  "same_lifecycle (count_read r s n) r0 = same_lifecycle r r0"
  "same_lifecycle (count_write r s n) r0 = same_lifecycle r r0"
  "same_lifecycle (count_eagain r) r0 = same_lifecycle r r0"
  using count_metrics_only [of r] same_lifecycle_ops(4,8) by metis+

lemma same_lifecycleD:
  assumes "same_lifecycle r r'"
  shows "fd_for r' s = fd_for r s" and "read_open r' s = read_open r s"
    and "write_open r' s = write_open r s" and "r_upstream_connecting r' = r_upstream_connecting r"
    and "r_half_close_injected r' = r_half_close_injected r" and "r_state r' = r_state r"
    and "r_half_close_after_bytes r' = r_half_close_after_bytes r"
    and "r_reset_after_bytes r' = r_reset_after_bytes r"
  using assms by (simp_all add: same_lifecycle_def)

lemma same_lifecycle_derived:
  assumes "same_lifecycle r r'"
  shows "r_state (refresh_state r') = r_state (refresh_state r)"
  using same_lifecycleD(2) [OF assms, of Client] same_lifecycleD(2) [OF assms, of Upstream]
    same_lifecycleD(4) [OF assms]
  by (simp add: refresh_state_def read_open_def)

section \<open>Directions\<close>

lemma channel_invI:
  assumes "\<And>line. fc_delay c = Some line \<Longrightarrow> dl_inv line \<and> dl_pending line = n"
    and "\<And>b. fc_bucket c = Some b \<Longrightarrow> tb_inv b"
  shows "channel_inv c n"
  using assms by (auto simp: channel_inv_def pred_option_iff)

lemma channel_invD:
  assumes "channel_inv c n"
  shows "fc_delay c = Some line \<Longrightarrow> dl_inv line" and "fc_delay c = Some line \<Longrightarrow> dl_pending line = n"
    and "fc_bucket c = Some b \<Longrightarrow> tb_inv b"
  using assms by (auto simp: channel_inv_def)

lemma stamp_ingress_view [simp]:
  "d_queue (stamp_ingress d n now) = d_queue d"
  "d_backpressure (stamp_ingress d n now) = d_backpressure d"
  "bucket_of (stamp_ingress d n now) = bucket_of d"
  by (auto simp: stamp_ingress_def Let_def split: option.splits prod.splits)

lemma stamp_ingress_channel:
  assumes "pred_option (\<lambda>c. channel_inv c k) (d_fault d)"
  shows "pred_option (\<lambda>c. channel_inv c (k + n)) (d_fault (stamp_ingress d n now))"
proof (cases "d_fault d")
  case None
  then show ?thesis by (simp add: stamp_ingress_def)
next
  case (Some c)
  with assms have c: "channel_inv c k" by simp
  show ?thesis
  proof (cases "fc_delay c")
    case None
    with Some c show ?thesis by (simp add: stamp_ingress_def channel_inv_def)
  next
    case (Some line)
    have "dl_inv (dl_on_commit line n t) \<and> dl_pending (dl_on_commit line n t) = k + n" for t
      using dl_on_commit_inv [OF channel_invD(1) [OF c Some], of n t] channel_invD(2) [OF c Some]
        channel_invD(1) [OF c Some]
      by (simp add: dl_invD(2) dl_on_commit_times)
    with c Some \<open>d_fault d = Some c\<close> show ?thesis
      by (auto simp: stamp_ingress_def Let_def channel_inv_def split: prod.splits)
  qed
qed

lemma dir_wfD:
  assumes "dir_wf d"
  shows "bq_inv (d_queue d)" and "bp_inv (d_backpressure d)"
    and "bp_high_water_bytes (d_backpressure d) \<le> bq_capacity (d_queue d)"
    and "bq_size (d_queue d) \<le> bp_high_water_bytes (d_backpressure d)"
    and "d_fault d = Some c \<Longrightarrow> channel_inv c (bq_size (d_queue d))"
  using assms by (auto simp: dir_wf_def)

lemma dir_inv_wf [simp]: "dir_inv d \<Longrightarrow> dir_wf d"
  by (simp add: dir_inv_def)

lemma dir_inv_reading:
  "dir_inv d \<Longrightarrow> \<not> bp_read_paused (d_backpressure d) \<Longrightarrow>
     bq_size (d_queue d) < bp_high_water_bytes (d_backpressure d)"
  by (simp add: dir_inv_def bp_synced_def)

lemma observe_backpressure_ok:
  assumes "dir_wf (direction_from r s)"
  shows "\<exists>r' b. observe_backpressure r s now = Inr r' \<and> same_lifecycle r r' \<and>
    direction_from r' s = (direction_from r s)\<lparr>d_backpressure := b\<rparr> \<and> dir_inv (direction_from r' s) \<and>
    bp_high_water_bytes b = bp_high_water_bytes (d_backpressure (direction_from r s)) \<and>
    direction_from r' (opposite s) = direction_from r (opposite s) \<and>
    bytes_read r' = bytes_read r \<and> bytes_written r' = bytes_written r"
proof -
  let ?d = "direction_from r s"
  note wf = dir_wfD [OF assms]
  obtain tr b where b: "bp_observe (d_backpressure ?d) (bq_size (d_queue ?d)) (bq_capacity (d_queue ?d)) now =
      Inr (tr, b)" "bp_inv b" "bp_synced b (bq_size (d_queue ?d)) (bq_capacity (d_queue ?d))"
      "bp_high_water_bytes b = bp_high_water_bytes (d_backpressure ?d)"
    using bp_observe_ok [OF wf(2), of "bq_size (d_queue ?d)" "bq_capacity (d_queue ?d)" now] wf(3,4)
    by auto
  then have "dir_inv (?d\<lparr>d_backpressure := b\<rparr>)"
    using assms by (auto simp: dir_inv_def dir_wf_def)
  with b show ?thesis
    unfolding observe_backpressure_def Let_def
    by (auto simp: fun_eq_iff)
qed

section \<open>Sending from a direction\<close>

text \<open>
  \<open>direction_sent now k d d'\<close>: \<open>d'\<close> is \<open>d\<close> after \<open>k\<close> bytes left it at time \<open>now\<close>. They were the
  front of the queue, all of them were past their eligibility time, and the token bucket, brought
  up to date, has exactly that much less credit.
\<close>

definition channel_sent :: "time \<Rightarrow> nat \<Rightarrow> fault_channel \<Rightarrow> fault_channel \<Rightarrow> bool" where
  "channel_sent now k c c' \<longleftrightarrow>
     rel_option (\<lambda>l l'. dl_times l' = drop k (dl_times l) \<and> k \<le> dl_releasable l now)
       (fc_delay c) (fc_delay c') \<and>
     rel_option (\<lambda>b b'. tb_rate b' = tb_rate b \<and> tb_burst b' = tb_burst b \<and>
         tb_credit (tb_refill b' now) + k * giga = tb_credit (tb_refill b now) \<and>
         tb_last_refill b' \<le> max (tb_last_refill b) now)
       (fc_bucket c) (fc_bucket c')"

definition direction_sent :: "time \<Rightarrow> nat \<Rightarrow> direction \<Rightarrow> direction \<Rightarrow> bool" where
  "direction_sent now k d d' \<longleftrightarrow> k \<le> bq_size (d_queue d) \<and>
     bq_list (d_queue d') = drop k (bq_list (d_queue d)) \<and>
     bp_high_water_bytes (d_backpressure d') = bp_high_water_bytes (d_backpressure d) \<and>
     rel_option (channel_sent now k) (d_fault d) (d_fault d')"

lemma direction_sent_refl [simp]: "direction_sent now 0 d d"
  by (simp add: direction_sent_def channel_sent_def option.rel_refl)

lemma dl_releasable_drop:
  assumes "dl_inv l" and "dl_inv l'" and "dl_times l' = drop k (dl_times l)" and "k \<le> dl_releasable l now"
    and "n \<le> dl_releasable l' now"
  shows "k + n \<le> dl_releasable l now"
proof -
  have "takeWhile P (drop k xs) = drop k (takeWhile P xs)" if "k \<le> length (takeWhile P xs)"
    for P and xs :: "time list"
    using that
  proof (induction k arbitrary: xs)
    case (Suc k)
    then show ?case by (cases xs) (auto split: if_splits)
  qed simp
  with assms show ?thesis by (simp add: dl_releasable_eq)
qed

lemma channel_sent_trans:
  assumes "channel_sent now k c c'" and "channel_sent now n c' c''" and "channel_inv c p" and "channel_inv c' q"
  shows "channel_sent now (k + n) c c''"
proof -
  have "rel_option (\<lambda>l l'. dl_times l' = drop (k + n) (dl_times l) \<and> k + n \<le> dl_releasable l now)
      (fc_delay c) (fc_delay c'')"
    using assms channel_invD(1) [OF assms(3)] channel_invD(1) [OF assms(4)]
    by (cases "fc_delay c"; cases "fc_delay c'"; cases "fc_delay c''")
      (auto simp: channel_sent_def add.commute intro: dl_releasable_drop)
  moreover have "rel_option (\<lambda>b b'. tb_rate b' = tb_rate b \<and> tb_burst b' = tb_burst b \<and>
      tb_credit (tb_refill b' now) + (k + n) * giga = tb_credit (tb_refill b now) \<and>
      tb_last_refill b' \<le> max (tb_last_refill b) now)
      (fc_bucket c) (fc_bucket c'')"
    using assms(1,2)
    by (cases "fc_bucket c"; cases "fc_bucket c'"; cases "fc_bucket c''")
      (auto simp: channel_sent_def add_mult_distrib)
  ultimately show ?thesis by (simp add: channel_sent_def)
qed

lemma direction_sent_trans:
  assumes "direction_sent now k d d'" and "direction_sent now n d' d''" and "dir_wf d" and "dir_wf d'"
  shows "direction_sent now (k + n) d d''"
proof -
  have "bq_size (d_queue d') = bq_size (d_queue d) - k"
    using assms(1) by (metis direction_sent_def bq_list_length length_drop)
  moreover have "rel_option (channel_sent now (k + n)) (d_fault d) (d_fault d'')"
    using assms(1,2) dir_wfD(5) [OF assms(3)] dir_wfD(5) [OF assms(4)]
    by (cases "d_fault d"; cases "d_fault d'"; cases "d_fault d''")
      (auto simp: direction_sent_def intro: channel_sent_trans)
  ultimately show ?thesis using assms(1,2) by (auto simp: direction_sent_def add.commute)
qed

text \<open>What \<open>fault_sendable\<close> grants: within the limit, the eligible bytes and the tokens.\<close>

lemma fault_sendable_view:
  assumes "fault_sendable d limit now = (budget, d1)"
  shows "d_queue d1 = d_queue d" and "d_backpressure d1 = d_backpressure d" and "budget \<le> limit"
  using assms by (auto simp: fault_sendable_def Let_def tb_available_def split: option.splits if_splits)

lemma fault_sendable_channel:
  assumes "fault_sendable d limit now = (budget, d1)" and "d_fault d = Some c"
  shows "\<exists>c1. d_fault d1 = Some c1 \<and> fc_delay c1 = fc_delay c \<and>
    fc_bucket c1 = map_option (\<lambda>b. tb_refill b now) (fc_bucket c) \<and>
    (\<forall>line. fc_delay c = Some line \<longrightarrow> budget \<le> dl_releasable line now) \<and>
    (\<forall>b. fc_bucket c = Some b \<longrightarrow> budget \<le> tb_tokens (tb_refill b now))"
  using assms
  by (cases "fc_delay c"; cases "fc_bucket c")
    (auto simp: fault_sendable_def Let_def tb_available_def split: if_splits)

lemma fault_sendable_no_fault [simp]: "d_fault d = None \<Longrightarrow> fault_sendable d limit now = (limit, d)"
  by (simp add: fault_sendable_def)

lemma fault_sendable_wf:
  assumes "fault_sendable d limit now = (budget, d1)" and "dir_wf d"
  shows "dir_wf d1"
proof (cases "d_fault d")
  case None
  with assms show ?thesis by simp
next
  case (Some c)
  note c = dir_wfD(5) [OF assms(2) Some]
  obtain c1 where c1: "d_fault d1 = Some c1" "fc_delay c1 = fc_delay c"
    "fc_bucket c1 = map_option (\<lambda>b. tb_refill b now) (fc_bucket c)"
    using fault_sendable_channel [OF assms(1) Some] by blast
  have "channel_inv c1 (bq_size (d_queue d))"
    using channel_invD [OF c] c1
    by (cases "fc_bucket c") (auto intro!: channel_invI tb_refill_inv)
  with assms(2) c1 fault_sendable_view [OF assms(1)] show ?thesis by (simp add: dir_wf_def)
qed

lemma fault_sendable_inv:
  "fault_sendable d limit now = (budget, d1) \<Longrightarrow> dir_inv d \<Longrightarrow> dir_inv d1"
  using fault_sendable_wf fault_sendable_view by (fastforce simp: dir_inv_def)

lemma tb_refill_twice [simp]: "tb_refill (tb_refill b now) now = tb_refill b now"
  by simp

lemma fault_sendable_sent:
  assumes "fault_sendable d limit now = (budget, d1)"
  shows "direction_sent now 0 d d1"
proof (cases "d_fault d")
  case None
  with assms show ?thesis by simp
next
  case (Some c)
  with fault_sendable_channel [OF assms Some] fault_sendable_view [OF assms] show ?thesis
    by (cases "fc_delay c"; cases "fc_bucket c") (auto simp: direction_sent_def channel_sent_def)
qed

lemma consume_channel_ok:
  assumes "channel_inv c p" and "\<And>line. fc_delay c = Some line \<Longrightarrow> n \<le> dl_releasable line now"
    and "\<And>b. fc_bucket c = Some b \<Longrightarrow> n \<le> tb_tokens b \<and> now \<le> tb_last_refill b"
  shows "\<exists>c'. consume_channel c n = Inr c' \<and> channel_inv c' (p - n) \<and> channel_sent now n c c'"
proof -
  note inv = channel_invD [OF assms(1)]
  have delay: "\<exists>c1. (case fc_delay c of None \<Rightarrow> Inr c
      | Some line \<Rightarrow> (case dl_on_consume line n of Inl e \<Rightarrow> Inl e
                     | Inr line \<Rightarrow> Inr (c\<lparr>fc_delay := Some line\<rparr>))) = (Inr c1 :: exn + fault_channel) \<and>
      fc_bucket c1 = fc_bucket c \<and> rel_option (\<lambda>l l'. dl_times l' = drop n (dl_times l) \<and>
        n \<le> dl_releasable l now \<and> dl_inv l' \<and> dl_pending l' = p - n) (fc_delay c) (fc_delay c1)"
  proof (cases "fc_delay c")
    case (Some line)
    with dl_on_consume_ok [of line n] inv(1,2) assms(2) dl_releasable_le [of line now] show ?thesis
      by fastforce
  qed simp
  then obtain c1 where c1: "(case fc_delay c of None \<Rightarrow> Inr c
      | Some line \<Rightarrow> (case dl_on_consume line n of Inl e \<Rightarrow> Inl e
                     | Inr line \<Rightarrow> Inr (c\<lparr>fc_delay := Some line\<rparr>))) = (Inr c1 :: exn + fault_channel)"
      "fc_bucket c1 = fc_bucket c" "rel_option (\<lambda>l l'. dl_times l' = drop n (dl_times l) \<and>
        n \<le> dl_releasable l now \<and> dl_inv l' \<and> dl_pending l' = p - n) (fc_delay c) (fc_delay c1)"
    by blast
  then have d1: "channel_inv c1 (p - n)" "rel_option (\<lambda>l l'. dl_times l' = drop n (dl_times l) \<and>
      n \<le> dl_releasable l now) (fc_delay c) (fc_delay c1)"
    using inv(3) by (auto intro!: channel_invI elim: option.rel_mono_strong elim!: option.rel_cases)
  show ?thesis
  proof (cases "fc_bucket c")
    case None
    with c1 d1 show ?thesis by (simp add: consume_channel_def channel_sent_def)
  next
    case (Some b)
    obtain b' where "tb_consume b n = Inr b'" "tb_inv b'" "tb_rate b' = tb_rate b"
      "tb_burst b' = tb_burst b" "tb_last_refill b' = tb_last_refill b"
      "tb_credit b' + n * giga = tb_credit b"
      using tb_consume_ok [of n b] assms(3) [OF Some] inv(3) [OF Some] by auto
    with c1 d1 Some assms(3) [OF Some] show ?thesis
      by (simp add: consume_channel_def channel_sent_def channel_inv_def)
  qed
qed

text \<open>Taking up to the granted number of bytes out of a direction.\<close>

lemma consume_direction_ok:
  assumes wf: "dir_wf d" and grant: "fault_sendable d limit now = (budget, d1)"
    and "limit \<le> bq_size (d_queue d)" and "n \<le> budget"
  shows "\<exists>d2. consume_direction d1 n = Inr d2 \<and> dir_wf d2 \<and> direction_sent now n d d2 \<and>
    d_backpressure d2 = d_backpressure d \<and> bq_size (d_queue d2) = bq_size (d_queue d) - n"
proof -
  note view = fault_sendable_view [OF grant] and wfD = dir_wfD [OF wf]
  have n: "n \<le> bq_size (d_queue d)" using assms view(3) by simp
  obtain q where q: "bq_consume (d_queue d) n = Inr q" "bq_inv q" "bq_list q = drop n (bq_list (d_queue d))"
      "bq_capacity q = bq_capacity (d_queue d)" "bq_size q = bq_size (d_queue d) - n"
    using bq_consume_ok [OF wfD(1) n] by blast
  show ?thesis
  proof (cases "d_fault d")
    case None
    with grant q n wfD show ?thesis
      by (simp add: consume_direction_def direction_sent_def dir_wf_def)
  next
    case (Some c)
    obtain c1 where c1: "d_fault d1 = Some c1" "fc_delay c1 = fc_delay c"
      "fc_bucket c1 = map_option (\<lambda>b. tb_refill b now) (fc_bucket c)"
      "\<And>line. fc_delay c = Some line \<Longrightarrow> budget \<le> dl_releasable line now"
      "\<And>b. fc_bucket c = Some b \<Longrightarrow> budget \<le> tb_tokens (tb_refill b now)"
      using fault_sendable_channel [OF grant Some] by blast
    have inv1: "channel_inv c1 (bq_size (d_queue d))"
      using dir_wfD(5) [OF fault_sendable_wf [OF grant wf] c1(1)] view(1) by simp
    have "\<exists>c2. consume_channel c1 n = Inr c2 \<and> channel_inv c2 (bq_size (d_queue d) - n) \<and>
        channel_sent now n c1 c2"
    proof (rule consume_channel_ok [OF inv1])
      fix line assume "fc_delay c1 = Some line"
      then show "n \<le> dl_releasable line now" using c1(2) c1(4) [of line] assms(4) by simp
    next
      fix b assume "fc_bucket c1 = Some b"
      then show "n \<le> tb_tokens b \<and> now \<le> tb_last_refill b"
        using c1(3) c1(5) assms(4) by (cases "fc_bucket c") force+
    qed
    then obtain c2 where c2: "consume_channel c1 n = Inr c2"
      "channel_inv c2 (bq_size (d_queue d) - n)" "channel_sent now n c1 c2" by blast
    have "channel_sent now 0 c c1"
      using fault_sendable_sent [OF grant] Some c1(1) by (simp add: direction_sent_def)
    then have "channel_sent now n c c2"
      using channel_sent_trans [OF _ c2(3) wfD(5) [OF Some] inv1, of 0] by simp
    with c1(1) c2 q n wfD view Some show ?thesis
      by (simp add: consume_direction_def direction_sent_def dir_wf_def)
  qed
qed

section \<open>Reading into a direction\<close>

lemma relay_invD:
  assumes "relay_inv r"
  shows "dir_inv (direction_from r s)" and "accounted r s" and "closed_in_order r s"
    and "r_state r = r_state (refresh_state r)"
  using assms by (auto simp: relay_inv_def)

lemma relay_inv_frame:
  assumes "relay_inv r" and "same_lifecycle r r'" and "dir_inv (direction_from r' s)"
    and "direction_from r' (opposite s) = direction_from r (opposite s)"
    and "bytes_read r' (opposite s) = bytes_read r (opposite s)" and "bytes_written r' s = bytes_written r s"
    and "accounted r' s" and "closed_in_order r' s"
  shows "relay_inv r'"
proof -
  note inv = relay_invD(1-3) [OF assms(1), of "opposite s"] relay_invD(4) [OF assms(1)]
  have "accounted r' (opposite s)" and "closed_in_order r' (opposite s)"
    using inv(2,3) assms(4-6) same_lifecycleD [OF assms(2)]
    by (auto simp: accounted_def closed_in_order_def)
  with assms inv side_cases [of _ s] show ?thesis
    unfolding relay_inv_def
    using same_lifecycle_derived [OF assms(2)] same_lifecycleD(6) [OF assms(2)] by metis
qed

text \<open>
  The span offered to \<^verbatim>\<open>recv\<close> is never empty, so a return value of 0 does mean end of stream, and
  filling it never takes the queue past the high-water mark.
\<close>

lemma read_span_ok:
  assumes "dir_inv d" and "\<not> bp_read_paused (d_backpressure d)" and "read_span d = (off, len)"
  shows "0 < len" and "off + len \<le> bq_capacity (d_queue d)"
    and "bq_size (d_queue d) + len \<le> bp_high_water_bytes (d_backpressure d)"
    and "\<exists>full. bq_writable_span (d_queue d) = (off, full) \<and> len \<le> full"
proof -
  note wf = dir_wfD [OF dir_inv_wf [OF assms(1)]] and room = dir_inv_reading [OF assms(1,2)]
  obtain o' full where span: "bq_writable_span (d_queue d) = (o', full)" by fastforce
  have "sub64 (bp_high_water_bytes (d_backpressure d)) (bq_size (d_queue d)) =
      bp_high_water_bytes (d_backpressure d) - bq_size (d_queue d)"
    using wf(3) room bq_invD(2) [OF wf(1)] by simp
  then have eq: "off = o'" "len = min full (bp_high_water_bytes (d_backpressure d) - bq_size (d_queue d))"
    using assms(3) span by (auto simp: read_span_def)
  note b = bq_writable_span_bounds [OF wf(1) span]
  show "0 < len" "off + len \<le> bq_capacity (d_queue d)"
    "bq_size (d_queue d) + len \<le> bp_high_water_bytes (d_backpressure d)"
    "\<exists>full. bq_writable_span (d_queue d) = (off, full) \<and> len \<le> full"
    using eq b span room wf(3) by auto
qed

lemma read_span_buffer:
  assumes "dir_inv d" and "\<not> bp_read_paused (d_backpressure d)" and "read_span d = (off, len)"
  shows "length (bq_span_bytes (d_queue d) (read_span d)) = len"
  using read_span_ok(2) [OF assms] assms(3) by (simp add: bq_span_bytes_def bq_capacity_def)

text \<open>Writing into the offered span changes nothing until it is committed.\<close>

lemma fill_direction_inv:
  assumes "dir_inv d" and "\<not> bp_read_paused (d_backpressure d)" and "read_span d = (off, len)"
    and "length buffer = len"
  shows "dir_inv (d\<lparr>d_queue := bq_fill (d_queue d) off buffer\<rparr>)"
    and "bq_list (bq_fill (d_queue d) off buffer) = bq_list (d_queue d)"
proof -
  note span = read_span_ok [OF assms(1-3)] and wf = dir_wfD [OF dir_inv_wf [OF assms(1)]]
  show "dir_inv (d\<lparr>d_queue := bq_fill (d_queue d) off buffer\<rparr>)"
    using assms span(2) bq_fill_inv [OF wf(1)] by (auto simp: dir_inv_def dir_wf_def)
  show "bq_list (bq_fill (d_queue d) off buffer) = bq_list (d_queue d)"
    using span(4) assms(4) bq_fill_list [OF wf(1)] by auto
qed

definition fill_relay :: "relay \<Rightarrow> side \<Rightarrow> byte list \<Rightarrow> relay" where
  "fill_relay r s buffer =
     set_direction r s ((direction_from r s)\<lparr>d_queue :=
       bq_fill (queue_from r s) (fst (read_span (direction_from r s))) buffer\<rparr>)"

lemma fill_relay_inv:
  assumes "relay_inv r" and "\<not> bp_read_paused (d_backpressure (direction_from r s))"
    and "length buffer = snd (read_span (direction_from r s))"
  shows "relay_inv (fill_relay r s buffer)" and "bq_list (queue_from (fill_relay r s buffer) s) = bq_list (queue_from r s)"
proof -
  let ?d = "direction_from r s"
  obtain off len where span: "read_span ?d = (off, len)" by fastforce
  note f = fill_direction_inv [OF relay_invD(1) [OF assms(1)] assms(2) span]
  show "bq_list (queue_from (fill_relay r s buffer) s) = bq_list (queue_from r s)"
    using f(2) assms(3) span by (simp add: fill_relay_def)
  show "relay_inv (fill_relay r s buffer)"
    using f(1) assms span relay_invD(2,3) [OF assms(1), of s]
    by (intro relay_inv_frame [OF assms(1), of _ s])
      (auto simp: fill_relay_def accounted_def closed_in_order_def bq_empty_def)
qed

lemma commit_ingress_ok:
  assumes inv: "relay_inv r" and open_s: "read_open r s"
    and reading: "\<not> bp_read_paused (d_backpressure (direction_from r s))"
    and buffer: "length buffer = snd (read_span (direction_from r s))" and n: "n \<le> length buffer"
  shows "\<exists>r'. commit_ingress (fill_relay r s buffer) s n now = Inr r' \<and> relay_inv r' \<and>
    same_lifecycle r r' \<and> bq_list (queue_from r' s) = bq_list (queue_from r s) @ take n buffer \<and>
    direction_from r' (opposite s) = direction_from r (opposite s) \<and>
    bp_high_water_bytes (d_backpressure (direction_from r' s)) =
      bp_high_water_bytes (d_backpressure (direction_from r s)) \<and>
    bucket_of (direction_from r' s) = bucket_of (direction_from r s)"
proof -
  let ?d = "direction_from r s"
  let ?f = "bq_fill (d_queue ?d) (fst (read_span ?d)) buffer"
  obtain off len where span: "read_span ?d = (off, len)" by fastforce
  note dinv = relay_invD(1) [OF inv, of s]
  note wf = dir_wfD [OF dir_inv_wf [OF dinv]] and so = read_span_ok [OF dinv reading span]
  obtain full where full: "bq_writable_span (d_queue ?d) = (off, full)" "len \<le> full" using so(4) by blast
  obtain q where q: "bq_commit_write ?f n = Inr q" "bq_inv q" "bq_list q = bq_list (d_queue ?d) @ take n buffer"
    "bq_capacity q = bq_capacity (d_queue ?d)" "bq_size q = bq_size (d_queue ?d) + n"
    using bq_fill_commit [OF wf(1) full(1), of buffer n] full(2) buffer n span by auto
  let ?d1 = "stamp_ingress (?d\<lparr>d_queue := q\<rparr>) n now"
  let ?r1 = "count_read ((set_direction r s ?d1)\<lparr>r_last_activity := now\<rparr>) s n"
  have "pred_option (\<lambda>c. channel_inv c (bq_size q)) (d_fault ?d1)"
    unfolding q(5) using wf(5) by (intro stamp_ingress_channel) (auto simp: pred_option_iff)
  then have "dir_wf (direction_from ?r1 s)"
    using wf q so(3) n buffer span by (simp add: dir_wf_def)
  from observe_backpressure_ok [OF this, of now] obtain r' where
    r': "observe_backpressure ?r1 s now = Inr r'" "same_lifecycle r r'" "dir_inv (direction_from r' s)"
      "d_queue (direction_from r' s) = q" "direction_from r' (opposite s) = direction_from r (opposite s)"
      "bytes_read r' = bytes_read ?r1" "bytes_written r' = bytes_written ?r1"
      "bp_high_water_bytes (d_backpressure (direction_from r' s)) = bp_high_water_bytes (d_backpressure ?d)"
      "bucket_of (direction_from r' s) = bucket_of ?d"
    by fastforce
  have "relay_inv r'"
    using r' q(5) relay_invD(2,3) [OF inv, of s] open_s same_lifecycleD [OF r'(2)]
    by (intro relay_inv_frame [OF inv r'(2,3)]) (auto simp: accounted_def closed_in_order_def)
  moreover have "commit_ingress (fill_relay r s buffer) s n now = Inr r'"
    using q(1) r'(1) by (simp add: commit_ingress_def fill_relay_def Let_def)
  ultimately show ?thesis using r' q(3) by auto
qed

lemma note_half_closed_read_inv:
  assumes "relay_inv r"
  shows "relay_inv (note_half_closed_read r s)"
  using assms unfolding relay_inv_def note_half_closed_read_def
  by (auto simp: accounted_def closed_in_order_def)
    (auto simp: relay_view_defs)

section \<open>Writing out of a direction\<close>

lemma readable_prefix:
  assumes "bq_inv q" and "bq_readable_span q = (off, len)" and "budget \<le> len"
  shows "bq_span_bytes q (off, budget) = take budget (bq_list q)"
proof -
  have "bq_span_bytes q (off, budget) = take budget (bq_span_bytes q (off, len))"
    using assms(3) by (simp add: bq_span_bytes_def)
  with bq_readable_span_prefix(1) [OF assms(1)] assms(2,3) show ?thesis by simp
qed

lemma consume_egress_ok:
  assumes inv: "relay_inv r" and open_d: "write_open r (opposite s)"
    and grant: "fault_sendable (direction_from r s) limit now = (budget, d1)"
    and "limit \<le> bq_size (queue_from r s)" and "n \<le> budget"
  shows "\<exists>r'. consume_egress (set_direction r s d1) (opposite s) n budget now = Inr r' \<and> relay_inv r' \<and>
    same_lifecycle r r' \<and> direction_sent now n (direction_from r s) (direction_from r' s) \<and>
    direction_from r' (opposite s) = direction_from r (opposite s)"
proof -
  let ?d = "direction_from r s"
  let ?r0 = "if n < budget
    then (set_direction r s d1)\<lparr>r_metrics := (r_metrics (set_direction r s d1))
            \<lparr>m_partial_writes := m_partial_writes (r_metrics (set_direction r s d1)) + 1\<rparr>\<rparr>
    else set_direction r s d1"
  note dinv = relay_invD(1) [OF inv, of s]
  obtain d2 where d2: "consume_direction d1 n = Inr d2" "dir_wf d2" "direction_sent now n ?d d2"
      "d_backpressure d2 = d_backpressure ?d" "bq_size (d_queue d2) = bq_size (d_queue ?d) - n"
    using consume_direction_ok [OF dir_inv_wf [OF dinv] grant assms(4,5)] by blast
  have n: "n \<le> bq_size (d_queue ?d)" using d2(3) by (simp add: direction_sent_def)
  have "dir_wf (direction_from (set_direction ?r0 s d2) s)" using d2(2) by simp
  from observe_backpressure_ok [OF this, of now] obtain r1 where
    r1: "observe_backpressure (set_direction ?r0 s d2) s now = Inr r1" "same_lifecycle ?r0 r1"
      "dir_inv (direction_from r1 s)" "d_queue (direction_from r1 s) = d_queue d2"
      "d_fault (direction_from r1 s) = d_fault d2"
      "bp_high_water_bytes (d_backpressure (direction_from r1 s)) = bp_high_water_bytes (d_backpressure d2)"
      "direction_from r1 (opposite s) = direction_from r (opposite s)"
      "bytes_read r1 = bytes_read r" "bytes_written r1 = bytes_written r"
    by (auto simp: fun_eq_iff split: if_splits)
  let ?r' = "count_write (r1\<lparr>r_last_activity := now\<rparr>) (opposite s) n"
  have life: "same_lifecycle r ?r'"
    using r1(2) by (auto split: if_splits)
  have "consume_egress (set_direction r s d1) (opposite s) n budget now = Inr ?r'"
    using d2(1) r1(1) unfolding consume_egress_def Let_def by (cases "n < budget") simp_all
  moreover have "relay_inv ?r'"
    using r1 d2(5) n relay_invD(2) [OF inv, of s] open_d same_lifecycleD [OF life]
    by (intro relay_inv_frame [OF inv life, of s]) (auto simp: accounted_def closed_in_order_def of_nat_diff)
  moreover have "direction_sent now n ?d (direction_from ?r' s)"
    using d2(3) r1(4-6) by (simp add: direction_sent_def)
  ultimately show ?thesis using life r1(7) by auto
qed

section \<open>Operations over a socket interface that keeps its contract\<close>

text \<open>
  The effect of reading \<open>xs\<close> from a side on the relay. The bytes of the other direction, the
  descriptors and the write sides are untouched.
\<close>

definition read_effect :: "side \<Rightarrow> byte list \<Rightarrow> relay \<Rightarrow> relay \<Rightarrow> bool" where
  "read_effect s xs r r' \<longleftrightarrow> relay_inv r' \<and>
     bq_list (queue_from r' s) = bq_list (queue_from r s) @ xs \<and>
     bp_high_water_bytes (d_backpressure (direction_from r' s)) =
       bp_high_water_bytes (d_backpressure (direction_from r s)) \<and>
     bucket_of (direction_from r' s) = bucket_of (direction_from r s) \<and>
     direction_from r' (opposite s) = direction_from r (opposite s) \<and>
     (\<forall>s'. fd_for r' s' = fd_for r s' \<and> write_open r' s' = write_open r s' \<and>
           (read_open r' s' \<longrightarrow> read_open r s') \<and> (s' \<noteq> s \<longrightarrow> read_open r' s' = read_open r s')) \<and>
     r_upstream_connecting r' = r_upstream_connecting r \<and>
     r_half_close_injected r' = r_half_close_injected r \<and> (xs \<noteq> [] \<longrightarrow> read_open r s)"

definition write_effect :: "side \<Rightarrow> time \<Rightarrow> nat \<Rightarrow> relay \<Rightarrow> relay \<Rightarrow> bool" where
  "write_effect s now k r r' \<longleftrightarrow> relay_inv r' \<and>
     direction_sent now k (direction_from r s) (direction_from r' s) \<and>
     direction_from r' (opposite s) = direction_from r (opposite s) \<and> same_lifecycle r r'"

lemma read_effect_lifecycle:
  assumes "relay_inv r'" and "same_lifecycle r r'"
    and "bq_list (queue_from r' s) = bq_list (queue_from r s) @ xs"
    and "direction_from r' (opposite s) = direction_from r (opposite s)"
    and "bp_high_water_bytes (d_backpressure (direction_from r' s)) =
      bp_high_water_bytes (d_backpressure (direction_from r s))"
    and "bucket_of (direction_from r' s) = bucket_of (direction_from r s)"
    and "xs \<noteq> [] \<Longrightarrow> read_open r s"
  shows "read_effect s xs r r'"
  using assms same_lifecycleD [OF assms(2)] by (simp add: read_effect_def)

lemma read_effect_trans:
  assumes "read_effect s xs r r'" and "read_effect s ys r' r''"
  shows "read_effect s (xs @ ys) r r''"
  using assms by (simp add: read_effect_def) blast

lemma read_effect_note:
  "relay_inv r \<Longrightarrow> read_effect s [] r (note_half_closed_read r s)"
  using note_half_closed_read_inv [of r s]
  by (auto simp: read_effect_def note_half_closed_read_def)
    (auto simp: relay_view_defs)

lemma count_eagain_inv:
  assumes "relay_inv r"
  shows "relay_inv (count_eagain r)"
proof (rule relay_inv_frame [OF assms, of _ Client])
  show "accounted (count_eagain r) Client" and "closed_in_order (count_eagain r) Client"
    using relay_invD(2,3) [OF assms, of Client] same_lifecycleD [of r "count_eagain r"]
    by (simp_all add: accounted_def closed_in_order_def)
qed (simp_all add: relay_invD(1) [OF assms])

lemma read_effect_eagain: "relay_inv r \<Longrightarrow> read_effect s [] r (count_eagain r)"
  by (intro read_effect_lifecycle count_eagain_inv) simp_all

lemma fill_relay_effect:
  assumes "relay_inv r" and "\<not> bp_read_paused (d_backpressure (direction_from r s))"
    and "length buffer = snd (read_span (direction_from r s))"
  shows "read_effect s [] r (fill_relay r s buffer)"
  using fill_relay_inv [OF assms]
  by (intro read_effect_lifecycle) (simp_all add: fill_relay_def)

context socket_contract
begin

definition read_post :: "side \<Rightarrow> relay \<Rightarrow> 'w \<Rightarrow> exn + pump_result \<times> relay \<times> 'w \<Rightarrow> bool" where
  "read_post s r w res \<longleftrightarrow> (\<exists>pr r' w' xs. res = Inr (pr, r', w') \<and> read_effect s xs r r' \<and>
     sent w' = sent w \<and> received w' = (received w)(fd_for r s := received w (fd_for r s) @ xs))"

lemma read_post_step:
  assumes "read_effect s xs r r1" and "sent w1 = sent w"
    and "received w1 = (received w)(fd_for r s := received w (fd_for r s) @ xs)"
    and "read_post s r1 w1 res"
  shows "read_post s r w res"
proof -
  from assms(4) obtain pr r' w' ys where "res = Inr (pr, r', w')" "read_effect s ys r1 r'"
    "sent w' = sent w1" "received w' = (received w1)(fd_for r1 s := received w1 (fd_for r1 s) @ ys)"
    unfolding read_post_def by blast
  moreover have "fd_for r1 s = fd_for r s" using assms(1) by (simp add: read_effect_def)
  ultimately show ?thesis
    using assms(2,3) read_effect_trans [OF assms(1)] unfolding read_post_def by fastforce
qed

text \<open>
  One round of the read loop that calls \<^verbatim>\<open>recv\<close>, in terms of what the call returned: \<open>f\<close> is the
  relay with the received bytes written into the free span of the queue.
\<close>

definition receive_outcome ::
  "(int \<Rightarrow> string) \<Rightarrow> side \<Rightarrow> bool \<Rightarrow> time \<Rightarrow> relay \<Rightarrow> io_result \<Rightarrow> 'w \<Rightarrow>
    (relay \<times> 'w, exn + pump_result \<times> relay \<times> 'w) loop_outcome" where
  "receive_outcome strerror s hup now f res w =
     (case io_status res of
        Transferred \<Rightarrow> (case commit_ingress f s (io_bytes res) now of
                          Inl e \<Rightarrow> Halt (Inl e) | Inr r \<Rightarrow> Again (r, w))
      | PeerClosed \<Rightarrow> Halt (Inr (pump_continue, note_half_closed_read f s, w))
      | WouldBlock \<Rightarrow> Halt (Inr (pump_continue,
          if hup then note_half_closed_read (count_eagain f) s else count_eagain f, w))
      | Error \<Rightarrow> Halt (Inr (close_for_error strerror (io_error res) ''read'', f, w)))"

lemma read_step_call:
  assumes inv: "relay_inv r" and ready: "read_open r s \<and> \<not> bp_read_paused (d_backpressure (direction_from r s))"
  obtains res buf w1 where "length buf = snd (read_span (direction_from r s))" and "sent w1 = sent w"
    and "if io_status res = Transferred
       then 0 < io_bytes res \<and> io_bytes res \<le> length buf \<and>
            received w1 = (received w)(fd_for r s := received w (fd_for r s) @ take (io_bytes res) buf)
       else received w1 = received w"
    and "read_step strerror io s hup now (r, w) = Some (receive_outcome strerror s hup now (fill_relay r s buf) res w1)"
proof -
  let ?d = "direction_from r s"
  let ?old = "bq_span_bytes (d_queue ?d) (read_span ?d)"
  obtain res buf w1 where call: "io_receive io (fd_for r s) ?old w = Some (res, buf, w1)" "length buf = length ?old"
      "sent w1 = sent w"
      "if io_status res = Transferred
       then 0 < io_bytes res \<and> io_bytes res \<le> length ?old \<and>
            received w1 = (received w)(fd_for r s := received w (fd_for r s) @ take (io_bytes res) buf)
       else received w1 = received w"
    using receive_ok [of "fd_for r s" ?old w] by blast
  have "length buf = snd (read_span ?d)"
    using read_span_buffer [OF relay_invD(1) [OF inv], of s] ready call(2) by (cases "read_span ?d") auto
  moreover have "read_step strerror io s hup now (r, w) =
      Some (receive_outcome strerror s hup now (fill_relay r s buf) res w1)"
    using ready call(1) unfolding read_step_def receive_outcome_def fill_relay_def
    by (cases "io_status res") (simp_all add: Let_def split: sum.split)
  ultimately show thesis using call(3,4) [folded call(2)] by (intro that)
qed

text \<open>One round of the read loop: it either leaves with an empty effect or reads at least one byte.\<close>

lemma read_step_ok:
  assumes inv: "relay_inv r"
  shows "(\<exists>res. read_step strerror io s hup now (r, w) = Some (Halt res) \<and> read_post s r w res) \<or>
    (\<exists>r1 w1 xs. read_step strerror io s hup now (r, w) = Some (Again (r1, w1)) \<and> xs \<noteq> [] \<and>
      read_effect s xs r r1 \<and> sent w1 = sent w \<and>
      received w1 = (received w)(fd_for r s := received w (fd_for r s) @ xs) \<and>
      bp_high_water_bytes (d_backpressure (direction_from r1 s)) =
        bp_high_water_bytes (d_backpressure (direction_from r s)))"
proof (cases "read_open r s \<and> \<not> bp_read_paused (d_backpressure (direction_from r s))")
  case False
  have "read_effect s [] r r" using inv by (intro read_effect_lifecycle) simp_all
  then have "read_post s r w (Inr (pump_continue, r, w))" by (fastforce simp: read_post_def)
  with False show ?thesis by (auto simp: read_step_def Let_def)
next
  case True
  obtain res buf w1 where len: "length buf = snd (read_span (direction_from r s))" and snt: "sent w1 = sent w"
    and rcv: "if io_status res = Transferred
       then 0 < io_bytes res \<and> io_bytes res \<le> length buf \<and>
            received w1 = (received w)(fd_for r s := received w (fd_for r s) @ take (io_bytes res) buf)
       else received w1 = received w"
    and step: "read_step strerror io s hup now (r, w) =
      Some (receive_outcome strerror s hup now (fill_relay r s buf) res w1)"
    by (rule read_step_call [OF inv True])
  define f where "f = fill_relay r s buf"
  note fill = fill_relay_effect [OF inv _ len] fill_relay_inv(1) [OF inv _ len]
  have eff: "read_effect s [] r f" "relay_inv f" using fill True by (auto simp: f_def)
  show ?thesis
  proof (cases "io_status res = Transferred")
    case tr: True
    then obtain r1 where "commit_ingress f s (io_bytes res) now = Inr r1"
        "read_effect s (take (io_bytes res) buf) r r1"
      using commit_ingress_ok [OF inv _ _ len, of "io_bytes res" now] True rcv read_effect_lifecycle
      unfolding f_def by fastforce
    moreover have "take (io_bytes res) buf \<noteq> []" using tr rcv by auto
    ultimately show ?thesis using tr step rcv snt unfolding f_def [symmetric]
      by (intro disjI2 exI [of _ r1] exI [of _ w1] exI [of _ "take (io_bytes res) buf"])
        (simp add: receive_outcome_def read_effect_def)
  next
    case False
    with rcv have rec: "received w1 = (received w)(fd_for r s := received w (fd_for r s) @ [])" by simp
    have post: "read_post s r w (Inr (pr, r', w1))" if "read_effect s [] f r'" for pr r'
      using read_effect_trans [OF eff(1) that] snt rec unfolding read_post_def by auto
    have "read_effect s [] f f" using eff(2) by (intro read_effect_lifecycle) simp_all
    moreover note ea = read_effect_eagain [OF eff(2), of s]
    moreover have "read_effect s [] f (note_half_closed_read (count_eagain f) s)"
      using read_effect_trans [OF ea read_effect_note [OF count_eagain_inv [OF eff(2)]]] by simp
    ultimately show ?thesis
      using False step post read_effect_note [OF eff(2), of s] unfolding f_def [symmetric]
      by (cases "io_status res") (auto simp: receive_outcome_def)
  qed
qed


text \<open>
  The loop ends: every round that continues takes the queue closer to the high-water mark. It
  never throws, and what it read is appended to the queue.
\<close>

lemma handle_readable_ok:
  assumes inv: "relay_inv r"
  shows "\<exists>res. handle_readable strerror io s hup now r w = Some res \<and> read_post s r w res"
  unfolding handle_readable_def
proof (rule run_loop_total [where
      I = "\<lambda>(r1, w1). relay_inv r1 \<and> (\<forall>res. read_post s r1 w1 res \<longrightarrow> read_post s r w res)"
      and m = "\<lambda>(r1, w1). bp_high_water_bytes (d_backpressure (direction_from r1 s)) - bq_size (queue_from r1 s)"])
  show "case (r, w) of (r1, w1) \<Rightarrow> relay_inv r1 \<and> (\<forall>res. read_post s r1 w1 res \<longrightarrow> read_post s r w res)"
    using inv by simp
next
  fix st :: "relay \<times> 'w"
  assume I: "case st of (r1, w1) \<Rightarrow> relay_inv r1 \<and> (\<forall>res. read_post s r1 w1 res \<longrightarrow> read_post s r w res)"
  obtain r1 w1 where st: "st = (r1, w1)" by (cases st)
  have size: "bq_size (queue_from r2 s) \<le> bp_high_water_bytes (d_backpressure (direction_from r2 s))"
    if "relay_inv r2" for r2 using relay_invD(1) [OF that, of s] dir_wfD(4) dir_inv_wf by blast
  have longer: "bq_size (queue_from r1 s) < bq_size (queue_from r2 s) \<and> relay_inv r2"
    if "read_effect s xs r1 r2" "xs \<noteq> []" for xs r2
    using that unfolding read_effect_def by (metis bq_list_length length_append length_greater_0_conv less_add_same_cancel1)
  have "relay_inv r1" using I st by simp
  from read_step_ok [OF this, of strerror s hup now w1]
  show "loop_ok (\<lambda>(r1, w1). relay_inv r1 \<and> (\<forall>res. read_post s r1 w1 res \<longrightarrow> read_post s r w res))
      (\<lambda>(r1, w1). bp_high_water_bytes (d_backpressure (direction_from r1 s)) - bq_size (queue_from r1 s))
      (read_post s r w) st (read_step strerror io s hup now st)"
  proof
    assume "\<exists>res. read_step strerror io s hup now (r1, w1) = Some (Halt res) \<and> read_post s r1 w1 res"
    with I st show ?thesis by auto
  next
    assume "\<exists>r2 w2 xs. read_step strerror io s hup now (r1, w1) = Some (Again (r2, w2)) \<and> xs \<noteq> [] \<and>
      read_effect s xs r1 r2 \<and> sent w2 = sent w1 \<and>
      received w2 = (received w1)(fd_for r1 s := received w1 (fd_for r1 s) @ xs) \<and>
      bp_high_water_bytes (d_backpressure (direction_from r2 s)) =
        bp_high_water_bytes (d_backpressure (direction_from r1 s))"
    then obtain r2 w2 xs where step: "read_step strerror io s hup now (r1, w1) = Some (Again (r2, w2))"
      and xs: "xs \<noteq> []" and eff: "read_effect s xs r1 r2" and io: "sent w2 = sent w1"
        "received w2 = (received w1)(fd_for r1 s := received w1 (fd_for r1 s) @ xs)"
      and high: "bp_high_water_bytes (d_backpressure (direction_from r2 s)) =
        bp_high_water_bytes (d_backpressure (direction_from r1 s))" by blast
    have "\<forall>res. read_post s r2 w2 res \<longrightarrow> read_post s r w res"
      using read_post_step [OF eff io] I st by simp
    with step longer [OF eff xs] size [of r2] high show ?thesis
      by (auto simp: st intro!: diff_less_mono2)
  qed
qed

section \<open>The write loop\<close>

definition write_post ::
  "side \<Rightarrow> time \<Rightarrow> relay \<Rightarrow> 'w \<Rightarrow> exn + pump_result option \<times> relay \<times> 'w \<Rightarrow> bool" where
  "write_post s now r w res \<longleftrightarrow> (\<exists>pr r' w' k. res = Inr (pr, r', w') \<and> write_effect s now k r r' \<and>
     received w' = received w \<and>
     sent w' = (sent w)(fd_for r (opposite s) := sent w (fd_for r (opposite s)) @ take k (bq_list (queue_from r s))))"

lemma write_effect_trans:
  assumes "relay_inv r" and "write_effect s now k r r1" and "write_effect s now n r1 r2"
  shows "write_effect s now (k + n) r r2"
  using assms direction_sent_trans [of now k "direction_from r s" "direction_from r1 s" n "direction_from r2 s"]
    relay_invD(1) [OF assms(1), of s] relay_invD(1) [of r1 s]
  by (auto simp: write_effect_def intro: same_lifecycle_trans)

lemma write_post_step:
  assumes "relay_inv r" and "write_effect s now k r r1" and "received w1 = received w"
    and "sent w1 = (sent w)(fd_for r (opposite s) := sent w (fd_for r (opposite s)) @ take k (bq_list (queue_from r s)))"
    and "write_post s now r1 w1 res"
  shows "write_post s now r w res"
proof -
  let ?q = "bq_list (queue_from r s)"
  from assms(5) obtain pr r' w' n where res: "res = Inr (pr, r', w')" "write_effect s now n r1 r'"
    "received w' = received w1" "sent w' = (sent w1)(fd_for r1 (opposite s) :=
       sent w1 (fd_for r1 (opposite s)) @ take n (bq_list (queue_from r1 s)))"
    unfolding write_post_def by blast
  have "fd_for r1 (opposite s) = fd_for r (opposite s)" "bq_list (queue_from r1 s) = drop k ?q"
    using assms(2) by (auto simp: write_effect_def direction_sent_def same_lifecycle_def)
  then have "sent w' = (sent w)(fd_for r (opposite s) := sent w (fd_for r (opposite s)) @ take (k + n) ?q)"
    using res(4) assms(4) by (simp add: take_add)
  with res write_effect_trans [OF assms(1,2) res(2)] assms(3) show ?thesis
    unfolding write_post_def by auto
qed


lemma flush_step_ok:
  assumes inv: "relay_inv r" and open_d: "write_open r (opposite s)"
  shows "(\<exists>res. flush_step strerror io (opposite s) now (r, w) = Some (Halt res) \<and> write_post s now r w res) \<or>
    (\<exists>r1 w1 k. flush_step strerror io (opposite s) now (r, w) = Some (Again (r1, w1)) \<and> 0 < k \<and>
      write_effect s now k r r1 \<and> received w1 = received w \<and>
      sent w1 = (sent w)(fd_for r (opposite s) :=
        sent w (fd_for r (opposite s)) @ take k (bq_list (queue_from r s))))"
proof -
  let ?d = "direction_from r s"
  note dinv = relay_invD(1) [OF inv, of s]
  note q = dir_wfD(1) [OF dir_inv_wf [OF dinv]]
  obtain off len where span: "bq_readable_span (d_queue ?d) = (off, len)" by fastforce
  obtain budget d1 where grant: "fault_sendable ?d len now = (budget, d1)" by fastforce
  note view = fault_sendable_view [OF grant]
  have len: "len \<le> bq_size (d_queue ?d)" using bq_readable_span_prefix(2) [OF q] span by simp
  let ?r1 = "set_direction r s d1"
  have "relay_inv ?r1"
    using fault_sendable_inv [OF grant dinv] relay_invD(2,3) [OF inv, of s] view(1) open_d
    by (intro relay_inv_frame [OF inv, of _ s]) (auto simp: accounted_def closed_in_order_def)
  then have eff1: "write_effect s now 0 r ?r1" "write_effect s now 0 r (count_eagain ?r1)"
    using fault_sendable_sent [OF grant] count_eagain_inv by (auto simp: write_effect_def)
  have eff0: "write_effect s now 0 r r" using inv by (simp add: write_effect_def)
  have post: "write_post s now r w (Inr (pr, r', w'))"
    if "write_effect s now 0 r r'" "received w' = received w" "sent w' = sent w" for pr r' w'
    using that unfolding write_post_def by fastforce
  obtain res w1 where call: "io_send io (fd_for r (opposite s)) (take budget (bq_list (d_queue ?d))) w = Some (res, w1)"
      "received w1 = received w"
      "if io_status res = Transferred
       then 0 < io_bytes res \<and> io_bytes res \<le> length (take budget (bq_list (d_queue ?d))) \<and>
         sent w1 = (sent w)(fd_for r (opposite s) := sent w (fd_for r (opposite s)) @
           take (io_bytes res) (take budget (bq_list (d_queue ?d))))
       else sent w1 = sent w"
    using send_ok [of "fd_for r (opposite s)" "take budget (bq_list (d_queue ?d))" w] by blast
  have bytes: "bq_span_bytes (d_queue d1) (off, budget) = take budget (bq_list (d_queue ?d))"
    using readable_prefix [OF q span view(3)] view(1) by simp
  have step: "flush_step strerror io (opposite s) now (r, w) =
    (if bq_empty (d_queue ?d) then Some (Halt (Inr (None, r, w)))
     else if budget = 0 then Some (Halt (Inr (None, ?r1, w)))
     else case io_status res of
       Transferred \<Rightarrow> (case consume_egress ?r1 (opposite s) (io_bytes res) budget now of
                         Inl e \<Rightarrow> Some (Halt (Inl e)) | Inr r \<Rightarrow> Some (Again (r, w1)))
     | WouldBlock \<Rightarrow> Some (Halt (Inr (None, count_eagain ?r1, w1)))
     | _ \<Rightarrow> Some (Halt (Inr (Some (close_for_error strerror (io_error res) ''write''), ?r1, w1))))"
    unfolding flush_step_def by (simp add: Let_def span grant bytes call(1))
  show ?thesis
  proof (cases "\<not> bq_empty (d_queue ?d) \<and> budget \<noteq> 0 \<and> io_status res = Transferred")
    case True
    let ?n = "io_bytes res"
    have n: "0 < ?n" "?n \<le> budget" using call(3) True by auto
    obtain r2 where "consume_egress ?r1 (opposite s) ?n budget now = Inr r2" "write_effect s now ?n r r2"
      using consume_egress_ok [OF inv open_d grant len n(2)] by (auto simp: write_effect_def)
    with True step call n(1) show ?thesis
      by (intro disjI2 exI [of _ r2] exI [of _ w1] exI [of _ ?n]) (simp add: min_absorb2 n(2))
  next
    case False
    have "sent w1 = sent w" if "io_status res \<noteq> Transferred" using call(3) that by simp
    with False step post [OF eff0, of w] post [OF eff1(1), of w] post [OF eff1(1), of w1]
      post [OF eff1(2), of w1] call(2) show ?thesis
      by (cases "io_status res") (auto split: if_splits)
  qed
qed

text \<open>The write loop ends because every round that continues takes bytes out of the queue.\<close>

lemma flush_loop_ok:
  assumes inv: "relay_inv r" and open_d: "write_open r (opposite s)"
  shows "\<exists>res. run_loop (flush_step strerror io (opposite s) now) (r, w) = Some res \<and> write_post s now r w res"
proof (rule run_loop_total [where
      I = "\<lambda>(r1, w1). relay_inv r1 \<and> write_open r1 (opposite s) \<and>
             (\<forall>res. write_post s now r1 w1 res \<longrightarrow> write_post s now r w res)"
      and m = "\<lambda>(r1, w1). bq_size (queue_from r1 s)"])
  fix st :: "relay \<times> 'w"
  assume I: "case st of (r1, w1) \<Rightarrow> relay_inv r1 \<and> write_open r1 (opposite s) \<and>
    (\<forall>res. write_post s now r1 w1 res \<longrightarrow> write_post s now r w res)"
  obtain r1 w1 where st: "st = (r1, w1)" by (cases st)
  have inv1: "relay_inv r1" "write_open r1 (opposite s)" using I st by simp_all
  have shorter: "bq_size (queue_from r2 s) < bq_size (queue_from r1 s)"
    if "write_effect s now k r1 r2" "0 < k" for k r2
  proof -
    have "k \<le> bq_size (queue_from r1 s)" "bq_list (queue_from r2 s) = drop k (bq_list (queue_from r1 s))"
      using that(1) by (auto simp: write_effect_def direction_sent_def)
    then show ?thesis using that(2) bq_list_length [of "queue_from r2 s"] by simp
  qed
  from flush_step_ok [OF inv1, of strerror now w1]
  show "loop_ok (\<lambda>(r1, w1). relay_inv r1 \<and> write_open r1 (opposite s) \<and>
        (\<forall>res. write_post s now r1 w1 res \<longrightarrow> write_post s now r w res))
      (\<lambda>(r1, w1). bq_size (queue_from r1 s)) (write_post s now r w) st
      (flush_step strerror io (opposite s) now st)"
  proof (elim disjE exE conjE)
    fix res assume "flush_step strerror io (opposite s) now (r1, w1) = Some (Halt res)" "write_post s now r1 w1 res"
    with I st show ?thesis by auto
  next
    fix r2 w2 k
    assume step: "flush_step strerror io (opposite s) now (r1, w1) = Some (Again (r2, w2))" and k: "0 < k"
      and eff: "write_effect s now k r1 r2" and io: "received w2 = received w1"
        "sent w2 = (sent w1)(fd_for r1 (opposite s) :=
           sent w1 (fd_for r1 (opposite s)) @ take k (bq_list (queue_from r1 s)))"
    have "\<forall>res. write_post s now r2 w2 res \<longrightarrow> write_post s now r w res"
      using write_post_step [OF inv1(1) eff io] I st by simp
    moreover have "relay_inv r2" "write_open r2 (opposite s)"
      using eff inv1 by (auto simp: write_effect_def same_lifecycle_def)
    ultimately show ?thesis using step shorter [OF eff k] by (simp add: st)
  qed
qed (use inv open_d in simp)

end

end
