(* ===== verification/Relay_Properties.thy ===== *)
theory Relay_Properties
  imports Relay_Correctness
begin

text \<open>
  The relay as a whole: the complete \<open>flush\<close> with its lifecycle faults, the forwarding of
  half-closes, construction, and a step relation whose steps are the calls of the event loop.
  The invariants of \<open>Relay_Correctness\<close> hold in every reachable state; the properties at the end
  follow from them.
\<close>

section \<open>Flags\<close>

lemma flag_view [simp]:
  "direction_from (r\<lparr>r_client_write_open := b\<rparr>) s = direction_from r s"
  "direction_from (r\<lparr>r_upstream_write_open := b\<rparr>) s = direction_from r s"
  "direction_from (r\<lparr>r_half_close_injected := b\<rparr>) s = direction_from r s"
  "direction_from (r\<lparr>r_upstream_connecting := b\<rparr>) s = direction_from r s"
  "fd_for (r\<lparr>r_client_write_open := b\<rparr>) s = fd_for r s"
  "fd_for (r\<lparr>r_upstream_write_open := b\<rparr>) s = fd_for r s"
  "fd_for (r\<lparr>r_half_close_injected := b\<rparr>) s = fd_for r s"
  "fd_for (r\<lparr>r_upstream_connecting := b\<rparr>) s = fd_for r s"
  "read_open (r\<lparr>r_client_write_open := b\<rparr>) s = read_open r s"
  "read_open (r\<lparr>r_upstream_write_open := b\<rparr>) s = read_open r s"
  "read_open (r\<lparr>r_half_close_injected := b\<rparr>) s = read_open r s"
  "read_open (r\<lparr>r_upstream_connecting := b\<rparr>) s = read_open r s"
  "bytes_read (r\<lparr>r_client_write_open := b\<rparr>) = bytes_read r"
  "bytes_read (r\<lparr>r_upstream_write_open := b\<rparr>) = bytes_read r"
  "bytes_read (r\<lparr>r_half_close_injected := b\<rparr>) = bytes_read r"
  "bytes_read (r\<lparr>r_upstream_connecting := b\<rparr>) = bytes_read r"
  "bytes_written (r\<lparr>r_client_write_open := b\<rparr>) = bytes_written r"
  "bytes_written (r\<lparr>r_upstream_write_open := b\<rparr>) = bytes_written r"
  "bytes_written (r\<lparr>r_half_close_injected := b\<rparr>) = bytes_written r"
  "bytes_written (r\<lparr>r_upstream_connecting := b\<rparr>) = bytes_written r"
  by (simp_all add: relay_view_defs fun_eq_iff)

lemma write_flag_view [simp]:
  "write_open (r\<lparr>r_client_write_open := b\<rparr>) s = (if s = Client then b else write_open r s)"
  "write_open (r\<lparr>r_upstream_write_open := b\<rparr>) s = (if s = Upstream then b else write_open r s)"
  "write_open (r\<lparr>r_half_close_injected := c\<rparr>) s = write_open r s"
  "write_open (r\<lparr>r_upstream_connecting := c\<rparr>) s = write_open r s"
  by (cases s; simp add: relay_view_defs)+

lemma on_event_reset [simp]: "r_reset_after_bytes (on_event r n e) = r_reset_after_bytes r"
  by (simp add: on_event_def)

lemma refreshed_flags:
  "r_state (refresh_state (r\<lparr>r_client_write_open := b\<rparr>)) = r_state (refresh_state r)"
  "r_state (refresh_state (r\<lparr>r_upstream_write_open := b\<rparr>)) = r_state (refresh_state r)"
  "r_state (refresh_state (r\<lparr>r_half_close_injected := b\<rparr>)) = r_state (refresh_state r)"
  "r_state (refresh_state (on_event r n e)) = r_state (refresh_state r)"
  "r_state (refresh_state (refresh_state r)) = r_state (refresh_state r)"
  by (simp_all add: refresh_state_def on_event_def)

text \<open>
  What an operation that moves no bytes does to a relay: queues, descriptors and read sides stay,
  write sides may close.
\<close>

definition quiet_effect :: "relay \<Rightarrow> relay \<Rightarrow> bool" where
  "quiet_effect r r' \<longleftrightarrow> relay_inv r' \<and> (r_half_close_injected r \<longrightarrow> r_half_close_injected r') \<and>
     (\<forall>s. direction_from r' s = direction_from r s \<and> fd_for r' s = fd_for r s \<and>
          read_open r' s = read_open r s \<and> (write_open r' s \<longrightarrow> write_open r s))"

lemma quiet_effect_refl: "relay_inv r \<Longrightarrow> quiet_effect r r"
  by (simp add: quiet_effect_def)

lemma quiet_effect_trans: "quiet_effect a b \<Longrightarrow> quiet_effect b c \<Longrightarrow> quiet_effect a c"
  by (simp add: quiet_effect_def)

lemma on_event_quiet: "relay_inv r \<Longrightarrow> quiet_effect r (on_event r n e)"
  by (simp add: quiet_effect_def relay_inv_def accounted_def closed_in_order_def refreshed_flags)
    (simp add: on_event_def)

lemma inject_quiet: "relay_inv r \<Longrightarrow> quiet_effect r (r\<lparr>r_half_close_injected := True\<rparr>)"
  by (auto simp: quiet_effect_def relay_inv_def accounted_def closed_in_order_def refreshed_flags)

lemma close_client_write_quiet:
  assumes "relay_inv r"
    and "r_half_close_injected r \<or> \<not> r_upstream_read_open r \<and> bq_empty (d_queue (r_upstream_to_client r))"
  shows "quiet_effect r (r\<lparr>r_client_write_open := False\<rparr>)"
proof -
  have "closed_in_order (r\<lparr>r_client_write_open := False\<rparr>) s" for s
    using assms(2) relay_invD(3) [OF assms(1), of s]
    by (cases s) (auto simp: closed_in_order_def, auto simp: relay_view_defs)
  with assms(1) show ?thesis
    by (simp add: quiet_effect_def relay_inv_def accounted_def refreshed_flags)
qed

lemma close_upstream_write_quiet:
  assumes "relay_inv r" and "\<not> r_client_read_open r" and "bq_empty (d_queue (r_client_to_upstream r))"
  shows "quiet_effect r (r\<lparr>r_upstream_write_open := False\<rparr>)"
proof -
  have "closed_in_order (r\<lparr>r_upstream_write_open := False\<rparr>) s" for s
    using assms(2,3) relay_invD(3) [OF assms(1), of s]
    by (cases s) (auto simp: closed_in_order_def, auto simp: relay_view_defs)
  with assms(1) show ?thesis
    by (simp add: quiet_effect_def relay_inv_def accounted_def refreshed_flags)
qed

section \<open>Whole operations\<close>

text \<open>The relay's bytes and the sockets': what came in one side is what left by the other plus the queue.\<close>

definition stream_inv ::
  "('w \<Rightarrow> int \<Rightarrow> byte list) \<Rightarrow> ('w \<Rightarrow> int \<Rightarrow> byte list) \<Rightarrow> relay \<Rightarrow> 'w \<Rightarrow> bool" where
  "stream_inv received sent r w \<longleftrightarrow> fd_for r Client \<noteq> fd_for r Upstream \<and>
     (\<forall>s. received w (fd_for r s) = sent w (fd_for r (opposite s)) @ bq_list (queue_from r s))"

lemma stream_inv_quiet:
  assumes "stream_inv received sent r w" and "quiet_effect r r'"
    and "received w' = received w" and "sent w' = sent w"
  shows "stream_inv received sent r' w'"
  using assms by (simp add: stream_inv_def quiet_effect_def)

context socket_contract
begin

lemma check_lifecycle_faults_ok:
  assumes inv: "relay_inv r" and res: "check_lifecycle_faults io r w = (pr, r', w')"
  shows "quiet_effect r r' \<and> received w' = received w \<and> sent w' = sent w"
proof -
  let ?written = "m_client_bytes_written (r_metrics r)"
  let ?total = "?written + m_upstream_bytes_written (r_metrics r)"
  define fire where "fire \<longleftrightarrow> r_half_close_after_bytes r > 0 \<and> \<not> r_half_close_injected r \<and>
    r_client_write_open r \<and> ?written \<ge> r_half_close_after_bytes r"
  obtain ok v where sh: "io_shutdown_write io (r_client_fd r) w = (ok, v)" by fastforce
  note same = shutdown_ok [OF sh]
  let ?j = "r\<lparr>r_half_close_injected := True\<rparr>"
  let ?e = "on_event (?j\<lparr>r_client_write_open := False\<rparr>) ''fault_injected''
              (''fault=half_close,direction=client_write,after_bytes='' @ u64_to_string ?written)"
  obtain r1 w1 where mid: "(r1, w1) = (if fire then (if ok then ?e else ?j, v) else (r, w))"
    by (metis prod.collapse)
  have j: "quiet_effect r ?j" using inv by (rule inject_quiet)
  have "quiet_effect ?j ?e"
    using j close_client_write_quiet [of ?j] on_event_quiet quiet_effect_trans
    by (fastforce simp: quiet_effect_def)
  then have mid_ok: "quiet_effect r r1" "received w1 = received w" "sent w1 = sent w"
    using mid same j quiet_effect_trans [OF j] quiet_effect_refl [OF inv] by (auto split: if_splits)
  have "check_lifecycle_faults io r w =
     (if r_reset_after_bytes r > 0 \<and> ?total \<ge> r_reset_after_bytes r
      then (\<lparr>pr_status = CloseConnection, pr_final_state = Reset, pr_reason = ''fault_reset''\<rparr>,
            on_event r1 ''fault_injected'' (''fault=reset,after_bytes='' @ u64_to_string ?total), w1)
      else (pump_continue, r1, w1))"
    using mid sh unfolding check_lifecycle_faults_def Let_def fire_def [symmetric]
    by (cases fire; cases ok) simp_all
  with res mid_ok on_event_quiet quiet_effect_trans show ?thesis
    by (fastforce simp: quiet_effect_def split: if_splits)
qed


lemma propagate_half_closes_ok:
  assumes inv: "relay_inv r" and res: "propagate_half_closes io r w = (r', w')"
  shows "quiet_effect r r' \<and> received w' = received w \<and> sent w' = sent w"
proof -
  obtain ok v where sh: "io_shutdown_write io (r_upstream_fd r) w = (ok, v)" by fastforce
  let ?fire = "\<not> r_client_read_open r \<and> bq_empty (d_queue (r_client_to_upstream r)) \<and>
      r_upstream_write_open r \<and> \<not> r_upstream_connecting r"
  define e where "e = on_event (r\<lparr>r_upstream_write_open := False\<rparr>) ''half_close_forwarded'' ''direction=upstream_write''"
  obtain r1 w1 where mid: "(r1, w1) = (if ?fire then (if ok then e else r, v) else (r, w))"
    by (metis prod.collapse)
  have "quiet_effect r e" if ?fire
    using that close_upstream_write_quiet [OF inv] on_event_quiet quiet_effect_trans
    by (fastforce simp: quiet_effect_def e_def)
  then have q1: "quiet_effect r r1" "received w1 = received w" "sent w1 = sent w"
    using mid shutdown_ok [OF sh] quiet_effect_refl [OF inv] by (auto split: if_splits)
  obtain ok2 v2 where sh2: "io_shutdown_write io (r_client_fd r1) w1 = (ok2, v2)" by fastforce
  let ?fire2 = "\<not> r_upstream_read_open r1 \<and> bq_empty (d_queue (r_upstream_to_client r1)) \<and> r_client_write_open r1"
  define e2 where "e2 = on_event (r1\<lparr>r_client_write_open := False\<rparr>) ''half_close_forwarded'' ''direction=client_write''"
  have "(r', w') = (if ?fire2 then (if ok2 then e2 else r1, v2) else (r1, w1))"
    using res mid sh sh2 unfolding propagate_half_closes_def Let_def e_def e2_def by (auto split: if_splits)
  moreover have inv1: "relay_inv r1" using q1(1) by (simp add: quiet_effect_def)
  moreover have "quiet_effect r1 e2" if ?fire2
    using that close_client_write_quiet [OF inv1] on_event_quiet quiet_effect_trans
    by (fastforce simp: quiet_effect_def e2_def)
  ultimately show ?thesis
    using q1 shutdown_ok [OF sh2] quiet_effect_trans [OF q1(1)] by (auto split: if_splits)
qed

text \<open>
  The whole of \<open>flush\<close>. It returns, throws nothing, and sends the front \<open>k\<close> bytes of the queue,
  where \<open>k\<close> respects eligibility times and tokens; the lifecycle faults only close the write side
  towards the client or ask for the connection to be closed.
\<close>

definition flush_post :: "side \<Rightarrow> time \<Rightarrow> relay \<Rightarrow> 'w \<Rightarrow> exn + pump_result \<times> relay \<times> 'w \<Rightarrow> bool" where
  "flush_post s now r w res \<longleftrightarrow> (\<exists>pr r' w' k. res = Inr (pr, r', w') \<and> relay_inv r' \<and>
     direction_sent now k (direction_from r s) (direction_from r' s) \<and>
     direction_from r' (opposite s) = direction_from r (opposite s) \<and>
     (0 < k \<longrightarrow> write_open r (opposite s)) \<and> (r_half_close_injected r \<longrightarrow> r_half_close_injected r') \<and>
     (\<forall>s'. fd_for r' s' = fd_for r s' \<and> read_open r' s' = read_open r s' \<and>
           (write_open r' s' \<longrightarrow> write_open r s')) \<and>
     received w' = received w \<and>
     sent w' = (sent w)(fd_for r (opposite s) :=
       sent w (fd_for r (opposite s)) @ take k (bq_list (queue_from r s))))"

lemma flush_ok:
  assumes inv: "relay_inv r"
  shows "\<exists>res. flush strerror io (opposite s) now r w = Some res \<and> flush_post s now r w res"
proof (cases "\<not> write_open r (opposite s) \<or> opposite s = Upstream \<and> r_upstream_connecting r")
  case True
  then have "flush strerror io (opposite s) now r w = Some (Inr (pump_continue, r, w))"
    by (auto simp: flush_def)
  moreover have "flush_post s now r w (Inr (pump_continue, r, w))"
    unfolding flush_post_def using inv
    by (intro exI [of _ pump_continue] exI [of _ r] exI [of _ w] exI [of _ 0]) simp
  ultimately show ?thesis by blast
next
  case False
  then obtain res where loop: "run_loop (flush_step strerror io (opposite s) now) (r, w) = Some res"
      "write_post s now r w res"
    using flush_loop_ok [OF inv, of s strerror now w] by blast
  then obtain pr r1 w1 k where res: "res = Inr (pr, r1, w1)" and eff: "write_effect s now k r r1"
    and io: "received w1 = received w" "sent w1 = (sent w)(fd_for r (opposite s) :=
      sent w (fd_for r (opposite s)) @ take k (bq_list (queue_from r s)))"
    unfolding write_post_def by blast
  have life: "same_lifecycle r r1" and inv1: "relay_inv r1" using eff by (simp_all add: write_effect_def)
  have post: "flush_post s now r w (Inr (p, r2, w2))"
    if "quiet_effect r1 r2" "received w2 = received w1" "sent w2 = sent w1" for p r2 w2
    unfolding flush_post_def
    using that io eff False same_lifecycleD [OF life]
    by (intro exI [of _ p] exI [of _ r2] exI [of _ w2] exI [of _ k])
      (simp add: quiet_effect_def write_effect_def)
  show ?thesis
  proof (cases pr)
    case None
    obtain p r2 w2 where chk: "check_lifecycle_faults io r1 w1 = (p, r2, w2)"
      by (metis prod.collapse)
    from check_lifecycle_faults_ok [OF inv1 this] post [of r2 w2 p]
    have "flush_post s now r w (Inr (p, r2, w2))" by blast
    with None False loop(1) res chk show ?thesis by (auto simp: flush_def)
  next
    case (Some p)
    with False loop(1) res post [OF quiet_effect_refl [OF inv1]] show ?thesis
      by (auto simp: flush_def)
  qed
qed

end

section \<open>Construction\<close>

definition relay_config_ok :: "relay_config \<Rightarrow> bool" where
  "relay_config_ok config \<longleftrightarrow> rc_low_water_bytes config < rc_high_water_bytes config \<and>
     rc_high_water_bytes config \<le> rc_buffer_bytes_per_direction config \<and>
     rc_buffer_bytes_per_direction config < 9223372036854775808"

lemma direction_new_ok:
  assumes "relay_config_ok config"
  shows "\<exists>d. direction_new config = Inr d \<and> dir_inv d \<and> d_fault d = None \<and> bq_list (d_queue d) = [] \<and>
    bq_size (d_queue d) = 0 \<and> bp_high_water_bytes (d_backpressure d) = rc_high_water_bytes config"
proof -
  obtain q where q: "bq_new (rc_buffer_bytes_per_direction config) = Inr q" "bq_inv q" "bq_list q = []"
      "bq_capacity q = rc_buffer_bytes_per_direction config" "bq_size q = 0"
    using bq_new_ok [of "rc_buffer_bytes_per_direction config"] assms
    by (auto simp: relay_config_ok_def)
  obtain b where b: "bp_new (rc_low_water_bytes config) (rc_high_water_bytes config) = Inr b" "bp_inv b"
      "bp_high_water_bytes b = rc_high_water_bytes config" "\<not> bp_read_paused b" "\<not> bp_at_capacity b"
    using bp_new_ok [of "rc_low_water_bytes config"] assms by (auto simp: relay_config_ok_def)
  have "dir_inv \<lparr>d_queue = q, d_backpressure = b, d_fault = None\<rparr>"
    using q b assms by (auto simp: dir_inv_def dir_wf_def bp_synced_def relay_config_ok_def)
  with q b show ?thesis by (simp add: direction_new_def)
qed

lemma make_channel_ok:
  "\<exists>c. make_channel plan seed i now = Inr c \<and> channel_inv c 0"
  using tb_new_ok [of "fp_rate_bytes_per_second plan" "fp_effective_burst_bytes plan" now]
  by (auto simp: make_channel_def Let_def channel_inv_def fp_effective_burst_bytes_def dl_new_inv)
    (simp_all add: dl_new_def)

lemma attach_channel_ok:
  assumes "dir_inv d" and "d_fault d = None" and "bq_size (d_queue d) = 0"
  shows "\<exists>d'. attach_channel applies plan seed i now d = Inr d' \<and> dir_inv d' \<and>
    d_queue d' = d_queue d \<and> d_backpressure d' = d_backpressure d"
  using assms make_channel_ok [of plan seed i now]
  by (auto simp: attach_channel_def Let_def dir_inv_def dir_wf_def)

lemma relay_new_ok:
  assumes "relay_config_ok config"
  shows "\<exists>r. relay_new config plan cid cfd ufd connecting now = Inr r \<and> relay_inv r \<and>
    fd_for r Client = cfd \<and> fd_for r Upstream = ufd \<and>
    (\<forall>s. bq_list (queue_from r s) = [] \<and> read_open r s \<and> write_open r s \<and>
      bp_high_water_bytes (d_backpressure (direction_from r s)) = rc_high_water_bytes config)"
proof -
  obtain d where d: "direction_new config = Inr d" "dir_inv d" "d_fault d = None" "bq_list (d_queue d) = []"
      "bq_size (d_queue d) = 0" "bp_high_water_bytes (d_backpressure d) = rc_high_water_bytes config"
    using direction_new_ok [OF assms] by blast
  let ?seed = "derive_connection_seed (fp_master_seed plan) cid"
  obtain c2u where c: "attach_channel (fp_applies_to_client_to_upstream plan) plan ?seed 0 now d = Inr c2u"
      "dir_inv c2u" "d_queue c2u = d_queue d" "d_backpressure c2u = d_backpressure d"
    using attach_channel_ok [OF d(2,3,5)] by blast
  obtain u2c where u: "attach_channel (fp_applies_to_upstream_to_client plan) plan ?seed 1 now d = Inr u2c"
      "dir_inv u2c" "d_queue u2c = d_queue d" "d_backpressure u2c = d_backpressure d"
    using attach_channel_ok [OF d(2,3,5)] by blast
  have split_s: "(\<forall>s. P s) \<longleftrightarrow> P Client \<and> P Upstream" for P :: "side \<Rightarrow> bool"
    using side.exhaust by metis
  show ?thesis
    unfolding relay_new_def d(1) c(1) u(1) sum.case Let_def relay_inv_def accounted_def closed_in_order_def split_s
    by (cases "fp_any_enabled plan"; cases connecting)
      (simp_all add: relay_view_defs relay_metrics_zero_def derive_connection_state_def d c u)
qed

lemma mark_upstream_connected_inv:
  "relay_inv r \<Longrightarrow> relay_inv (mark_upstream_connected r)"
  by (simp add: mark_upstream_connected_def relay_inv_def accounted_def closed_in_order_def refreshed_flags)
    (simp add: refresh_state_def)

section \<open>Asking for interest and for the next wake-up\<close>

text \<open>Both only bring a token bucket up to date.\<close>

lemma grant_inv:
  assumes "relay_inv r" and "fault_sendable (direction_from r s) limit now = (b, d1)"
  shows "relay_inv (set_direction r s d1)" and "same_lifecycle r (set_direction r s d1)"
    and "direction_sent now 0 (direction_from r s) (direction_from (set_direction r s d1) s)"
proof -
  note view = fault_sendable_view [OF assms(2)]
  show "relay_inv (set_direction r s d1)"
    using fault_sendable_inv [OF assms(2) relay_invD(1) [OF assms(1)]] relay_invD(2,3) [OF assms(1), of s] view(1)
    by (intro relay_inv_frame [OF assms(1), of _ s]) (auto simp: accounted_def closed_in_order_def)
qed (use fault_sendable_sent [OF assms(2)] in simp_all)

definition refreshed :: "relay \<Rightarrow> side \<Rightarrow> nat \<Rightarrow> time \<Rightarrow> relay" where
  "refreshed r s limit now = set_direction r s (snd (fault_sendable (direction_from r s) limit now))"

lemma set_direction_same [simp]: "set_direction r s (direction_from r s) = r"
  by (cases s) (simp_all add: set_direction_def direction_from_def)

lemma fault_sendable_again:
  assumes "fault_sendable d limit now = (b, d1)" and "d_fault d1 = Some c1" and "fc_bucket c1 = Some k"
  shows "tb_refill k now = k"
proof -
  obtain c where c: "d_fault d = Some c" using assms(1,2) by (cases "d_fault d") auto
  with fault_sendable_channel [OF assms(1) c] assms(2,3) show ?thesis
    by (cases "fc_bucket c") auto
qed

definition wake_time :: "fault_channel \<Rightarrow> nat \<Rightarrow> time \<Rightarrow> time option" where
  "wake_time c queued now =
     (let releasable = (case fc_delay c of None \<Rightarrow> queued | Some line \<Rightarrow> dl_releasable line now)
      in earlier
        (case fc_delay c of None \<Rightarrow> None
         | Some line \<Rightarrow> if releasable = 0 then dl_next_eligible line now else None)
        (case fc_bucket c of None \<Rightarrow> None
         | Some b \<Rightarrow> if releasable > 0
             then Some (fst (tb_eligible_at b (release_quantum releasable (tb_burst b)) now)) else None))"

lemma earlier_None [simp]: "earlier t None = t" "earlier None t = t"
  by (cases t; simp add: earlier_def)+

lemma next_wake_eq:
  assumes "write_open r (opposite s)" and "\<not> (opposite s = Upstream \<and> r_upstream_connecting r)"
    and "\<not> bq_empty (queue_from r s)"
    and grant: "fault_sendable (direction_from r s) (bq_size (queue_from r s)) now = (b, d1)"
    and c1: "d_fault d1 = Some c1"
  shows "next_wake r (opposite s) now =
    (if 0 < b then None else wake_time c1 (bq_size (queue_from r s)) now, set_direction r s d1)"
proof -
  note view = fault_sendable_view [OF grant]
  have some: "d_fault (direction_from r s) \<noteq> None" using grant c1 by (cases "d_fault (direction_from r s)") auto
  have same: "d1\<lparr>d_fault := Some (c1\<lparr>fc_bucket := Some k\<rparr>)\<rparr> = d1" if "fc_bucket c1 = Some k" for k
    using that c1 by (cases d1; cases c1) simp
  have idle: "snd (tb_eligible_at k n now) = k" if "fc_bucket c1 = Some k" for k n
    using fault_sendable_again [OF grant c1 that] by (simp add: tb_eligible_at_def Let_def)
  have "next_wake r (opposite s) now =
    (if 0 < b then (None, set_direction r s d1) else
       let channel = c1;
           releasable = (case fc_delay channel of None \<Rightarrow> bq_size (queue_from r s)
                         | Some line \<Rightarrow> dl_releasable line now);
           wake = (case fc_delay channel of None \<Rightarrow> None
                   | Some line \<Rightarrow> if releasable = 0 then dl_next_eligible line now else None)
       in case fc_bucket channel of None \<Rightarrow> (wake, set_direction r s d1)
          | Some bucket \<Rightarrow>
              if releasable > 0
              then let (wake_at, bucket) = tb_eligible_at bucket (release_quantum releasable (tb_burst bucket)) now
                   in (earlier wake (Some wake_at),
                       set_direction (set_direction r s d1) s (d1\<lparr>d_fault := Some (channel\<lparr>fc_bucket := Some bucket\<rparr>)\<rparr>))
              else (wake, set_direction r s d1))"
    using assms(1-3) some by (simp only: next_wake_def Let_def opposite_simps grant prod.case c1 option.sel view(1)) auto
  then show ?thesis
    by (cases "fc_bucket c1"; cases "fc_delay c1") (auto simp: Let_def wake_time_def idle same case_prod_unfold)
qed

lemma next_wake_relay:
  assumes "next_wake r (opposite s) now = (t, r')"
  shows "r' = r \<or> r' = refreshed r s (bq_size (queue_from r s)) now"
proof (cases "write_open r (opposite s) \<and> \<not> (opposite s = Upstream \<and> r_upstream_connecting r) \<and>
    \<not> bq_empty (queue_from r s) \<and> d_fault (direction_from r s) \<noteq> None")
  case True
  obtain b d1 where grant: "fault_sendable (direction_from r s) (bq_size (queue_from r s)) now = (b, d1)"
    by fastforce
  then obtain c1 where "d_fault d1 = Some c1" using True fault_sendable_channel by fastforce
  from next_wake_eq [OF _ _ _ grant this] True assms grant show ?thesis by (simp add: refreshed_def)
next
  case False
  with assms show ?thesis by (auto simp: next_wake_def Let_def)
qed

lemma desired_interest_relay:
  assumes "desired_interest r (opposite s) now = (i, r')"
  shows "r' = r \<or> r' = refreshed r s (bq_size (queue_from r s)) now"
  using assms by (auto simp: desired_interest_def refreshed_def Let_def split: if_splits prod.splits)

lemma refreshed_write_effect:
  assumes "relay_inv r"
  shows "write_effect s now 0 r (refreshed r s limit now)"
  using grant_inv [OF assms, of s limit now] 
  by (cases "fault_sendable (direction_from r s) limit now")
    (auto simp: write_effect_def refreshed_def)

section \<open>The relay under the event loop\<close>

text \<open>
  A step is one call the event loop makes, at any time and with any flags, or a change of the
  world by somebody else (the kernel, the peers).
\<close>

inductive relay_step ::
  "(int \<Rightarrow> string) \<Rightarrow> 'w socket_io \<Rightarrow> ('w \<Rightarrow> 'w \<Rightarrow> bool) \<Rightarrow> relay \<times> 'w \<Rightarrow> relay \<times> 'w \<Rightarrow> bool"
  for strerror io env where
  environment: "env w w' \<Longrightarrow> relay_step strerror io env (r, w) (r, w')"
| connected: "relay_step strerror io env (r, w) (mark_upstream_connected r, w)"
| readable: "handle_readable strerror io s hup now r w = Some (Inr (pr, r', w')) \<Longrightarrow>
    relay_step strerror io env (r, w) (r', w')"
| flushed: "flush strerror io s now r w = Some (Inr (pr, r', w')) \<Longrightarrow>
    relay_step strerror io env (r, w) (r', w')"
| half_closes: "propagate_half_closes io r w = (r', w') \<Longrightarrow>
    relay_step strerror io env (r, w) (r', w')"
| woken: "next_wake r s now = (t, r') \<Longrightarrow> relay_step strerror io env (r, w) (r', w)"
| interest: "desired_interest r s now = (i, r') \<Longrightarrow> relay_step strerror io env (r, w) (r', w)"

inductive_cases relay_stepE: "relay_step strerror io env (r, w) (r', w')"

lemma stream_inv_write:
  assumes "stream_inv received sent r w" and "direction_sent now k (direction_from r s) (direction_from r' s)"
    and "direction_from r' (opposite s) = direction_from r (opposite s)" and "\<And>s'. fd_for r' s' = fd_for r s'"
    and "received w' = received w" and "sent w' = (sent w)(fd_for r (opposite s) :=
       sent w (fd_for r (opposite s)) @ take k (bq_list (queue_from r s)))"
  shows "stream_inv received sent r' w'"
proof -
  have ne: "fd_for r s \<noteq> fd_for r (opposite s)" using assms(1) by (cases s) (auto simp: stream_inv_def)
  have "received w' (fd_for r' s') = sent w' (fd_for r' (opposite s')) @ bq_list (queue_from r' s')" for s'
    using side_cases [of s' s] ne assms by (auto simp: stream_inv_def direction_sent_def)
  with assms(1,4) show ?thesis by (simp add: stream_inv_def)
qed

lemma stream_inv_read:
  assumes "stream_inv received sent r w" and "read_effect s xs r r'" and "sent w' = sent w"
    and "received w' = (received w)(fd_for r s := received w (fd_for r s) @ xs)"
  shows "stream_inv received sent r' w'"
proof -
  have ne: "fd_for r s \<noteq> fd_for r (opposite s)" using assms(1) by (cases s) (auto simp: stream_inv_def)
  have "received w' (fd_for r' s') = sent w' (fd_for r' (opposite s')) @ bq_list (queue_from r' s')" for s'
    using side_cases [of s' s] ne assms by (auto simp: stream_inv_def read_effect_def)
  with assms(1,2) show ?thesis by (simp add: stream_inv_def read_effect_def)
qed

text \<open>What every reachable state satisfies; the last conjunct keeps the marks and descriptors fixed.\<close>

definition relay_good ::
  "('w \<Rightarrow> int \<Rightarrow> byte list) \<Rightarrow> ('w \<Rightarrow> int \<Rightarrow> byte list) \<Rightarrow> (side \<Rightarrow> int) \<Rightarrow> nat \<Rightarrow> relay \<times> 'w \<Rightarrow> bool" where
  "relay_good received sent fds high = (\<lambda>(r, w). relay_inv r \<and> stream_inv received sent r w \<and>
     (\<forall>s. fd_for r s = fds s \<and> bp_high_water_bytes (d_backpressure (direction_from r s)) = high))"

lemma relay_good_write:
  assumes "relay_good received sent fds high (r, w)"
    and "direction_sent now k (direction_from r s) (direction_from r' s)"
    and "direction_from r' (opposite s) = direction_from r (opposite s)" and "\<And>s'. fd_for r' s' = fd_for r s'"
    and "received w' = received w" and "sent w' = (sent w)(fd_for r (opposite s) :=
       sent w (fd_for r (opposite s)) @ take k (bq_list (queue_from r s)))" and "relay_inv r'"
  shows "relay_good received sent fds high (r', w')"
proof -
  have "bp_high_water_bytes (d_backpressure (direction_from r' s')) = high" for s'
    using side_cases [of s' s] assms(1-3) by (auto simp: relay_good_def direction_sent_def)
  with assms stream_inv_write [OF _ assms(2-6)] show ?thesis by (auto simp: relay_good_def)
qed

lemma relay_good_read:
  assumes "relay_good received sent fds high (r, w)" and "read_effect s xs r r'" and "sent w' = sent w"
    and "received w' = (received w)(fd_for r s := received w (fd_for r s) @ xs)"
  shows "relay_good received sent fds high (r', w')"
proof -
  have "bp_high_water_bytes (d_backpressure (direction_from r' s')) = high" for s'
    using side_cases [of s' s] assms(1,2) by (auto simp: relay_good_def read_effect_def)
  with assms stream_inv_read [OF _ assms(2-4)] show ?thesis by (auto simp: relay_good_def read_effect_def)
qed

lemma relay_good_quiet:
  assumes "relay_good received sent fds high (r, w)" and "quiet_effect r r'"
    and "received w' = received w" and "sent w' = sent w"
  shows "relay_good received sent fds high (r', w')"
  using assms stream_inv_quiet [OF _ assms(2-4)] by (auto simp: relay_good_def quiet_effect_def)

lemma relay_good_refreshed:
  assumes "relay_good received sent fds high (r, w)"
  shows "relay_good received sent fds high (refreshed r s limit now, w)"
proof -
  have "write_effect s now 0 r (refreshed r s limit now)"
    using assms refreshed_write_effect by (simp add: relay_good_def)
  then show ?thesis
    using relay_good_write [OF assms, of now 0 s "refreshed r s limit now" w] same_lifecycleD(1)
    by (auto simp: write_effect_def)
qed

context socket_contract
begin

lemma relay_step_good:
  assumes "relay_step strerror io env st st'" and "relay_good received sent fds high st"
    and env: "\<And>w w'. env w w' \<Longrightarrow> received w' = received w \<and> sent w' = sent w"
  shows "relay_good received sent fds high st'"
  using assms(1,2)
proof (cases rule: relay_step.cases)
  case (environment w w' r)
  with assms(2) env show ?thesis by (auto simp: relay_good_def stream_inv_def)
next
  case (connected r w)
  with assms(2) mark_upstream_connected_inv [of r] show ?thesis
    by (auto simp: relay_good_def stream_inv_def mark_upstream_connected_def)
next
  case (readable s hup now r w pr r' w')
  then have good: "relay_good received sent fds high (r, w)" and "relay_inv r"
    using assms(2) by (simp_all add: relay_good_def)
  with handle_readable_ok [of r strerror s hup now w] readable relay_good_read [OF good] show ?thesis
    by (auto simp: read_post_def)
next
  case (flushed s now r w pr r' w')
  then have good: "relay_good received sent fds high (r, w)" and "relay_inv r"
    using assms(2) by (simp_all add: relay_good_def)
  with flush_ok [of r strerror "opposite s" now w] flushed
  have "flush_post (opposite s) now r w (Inr (pr, r', w'))" by auto
  with flushed relay_good_write [OF good, of now _ "opposite s" r' w'] show ?thesis
    by (auto simp: flush_post_def)
next
  case (half_closes r w r' w')
  then have good: "relay_good received sent fds high (r, w)" and "relay_inv r"
    using assms(2) by (simp_all add: relay_good_def)
  with propagate_half_closes_ok [of r w r' w'] half_closes relay_good_quiet [OF good] show ?thesis
    by simp
next
  case (woken r s now t r' w)
  with assms(2) next_wake_relay [of r "opposite s" now t r'] relay_good_refreshed show ?thesis by auto
next
  case (interest r s now i r' w)
  with assms(2) desired_interest_relay [of r "opposite s" now i r'] relay_good_refreshed show ?thesis by auto
qed

lemma relay_steps_good:
  assumes "(relay_step strerror io env)\<^sup>*\<^sup>* st st'" and "relay_good received sent fds high st"
    and env: "\<And>w w'. env w w' \<Longrightarrow> received w' = received w \<and> sent w' = sent w"
  shows "relay_good received sent fds high st'"
  using assms(1,2)
proof (induction rule: rtranclp_induct)
  case (step y z)
  then show ?case using relay_step_good [OF step.hyps(2)] env by blast
qed simp

end

section \<open>No lost wake-up\<close>

text \<open>The bucket of a channel is within the exact range and its clock does not run ahead.\<close>

definition channel_timely :: "time \<Rightarrow> fault_channel \<Rightarrow> bool" where
  "channel_timely now c \<longleftrightarrow> pred_option (\<lambda>b. tb_exact b \<and> tb_last_refill b \<le> now) (fc_bucket c)"

definition eligible_bytes :: "fault_channel \<Rightarrow> nat \<Rightarrow> time \<Rightarrow> nat" where
  "eligible_bytes c queued now =
     (case fc_delay c of None \<Rightarrow> queued | Some line \<Rightarrow> min queued (dl_releasable line now))"

lemma fault_sendable_amount:
  assumes "d_fault d = Some c"
  shows "fst (fault_sendable d limit now) =
    (case fc_bucket c of
       None \<Rightarrow> eligible_bytes c limit now
     | Some b \<Rightarrow>
         if tb_tokens (tb_refill b now) < release_quantum (eligible_bytes c limit now) (tb_burst b) then 0
         else min (eligible_bytes c limit now) (tb_tokens (tb_refill b now)))"
  using assms
  by (cases "fc_delay c"; cases "fc_bucket c")
    (auto simp: fault_sendable_def eligible_bytes_def tb_available_def Let_def)

lemma release_quantum_pos: "0 < n \<Longrightarrow> 0 < b \<Longrightarrow> 0 < release_quantum n b"
  by (simp add: release_quantum_def)

lemma fault_sendable_enough:
  assumes "d_fault d = Some c" and "0 < eligible_bytes c limit now"
    and "\<And>b. fc_bucket c = Some b \<Longrightarrow> tb_inv b \<and>
      release_quantum (eligible_bytes c limit now) (tb_burst b) \<le> tb_tokens (tb_refill b now)"
  shows "0 < fst (fault_sendable d limit now)"
  unfolding fault_sendable_amount [OF assms(1)]
proof (cases "fc_bucket c")
  case None
  with assms(2) show "0 < (case fc_bucket c of None \<Rightarrow> eligible_bytes c limit now
     | Some b \<Rightarrow> if tb_tokens (tb_refill b now) < release_quantum (eligible_bytes c limit now) (tb_burst b) then 0
         else min (eligible_bytes c limit now) (tb_tokens (tb_refill b now)))" by simp
next
  case (Some b)
  note b = assms(3) [OF Some]
  then have "0 < tb_tokens (tb_refill b now)"
    using release_quantum_pos [OF assms(2), of "tb_burst b"] by (simp add: tb_inv_def)
  with Some assms(2) b show "0 < (case fc_bucket c of None \<Rightarrow> eligible_bytes c limit now
     | Some b \<Rightarrow> if tb_tokens (tb_refill b now) < release_quantum (eligible_bytes c limit now) (tb_burst b) then 0
         else min (eligible_bytes c limit now) (tb_tokens (tb_refill b now)))" by simp
qed

text \<open>
  A direction that is blocked by its faults names a later time, at which it can send or at which
  more bytes are eligible than now. (More eligible bytes may raise the quantum the bucket waits
  for, so being woken does not always mean being able to send.)
\<close>

lemma wake_time_progress:
  assumes inv: "channel_inv c queued" and queued: "0 < queued" and timely: "channel_timely now c"
    and fresh: "\<And>b. fc_bucket c = Some b \<Longrightarrow> tb_refill b now = b"
    and c: "d_fault d = Some c" and blocked: "fst (fault_sendable d queued now) = 0"
  shows "\<exists>t. wake_time c queued now = Some t \<and> now < t \<and>
    (0 < fst (fault_sendable d queued t) \<or> eligible_bytes c queued now < eligible_bytes c queued t)"
proof (cases "eligible_bytes c queued now = 0")
  case True
  then obtain line where line: "fc_delay c = Some line"
    using queued by (cases "fc_delay c") (auto simp: eligible_bytes_def)
  have rel: "dl_releasable line now = 0" and pend: "dl_pending line = queued" and linv: "dl_inv line"
    using True line queued channel_invD [OF inv] by (auto simp: eligible_bytes_def)
  then obtain t where t: "dl_next_eligible line now = Some t" "now < t"
      "dl_releasable line now < dl_releasable line t"
    using dl_next_eligible_wakes [of line now] queued by auto
  then have "wake_time c queued now = Some t"
    using line rel by (cases "fc_bucket c") (simp_all add: wake_time_def)
  with t rel queued line show ?thesis by (auto simp: eligible_bytes_def)
next
  case False
  define n where "n = eligible_bytes c queued now"
  have n: "0 < n" "(case fc_delay c of None \<Rightarrow> queued | Some line \<Rightarrow> dl_releasable line now) = n"
    using False dl_releasable_le channel_invD(1,2) [OF inv]
    by (fastforce simp: n_def eligible_bytes_def split: option.splits)+
  obtain b where b: "fc_bucket c = Some b"
    using blocked False unfolding fault_sendable_amount [OF c] by (cases "fc_bucket c") auto
  have binv: "tb_inv b" "tb_exact b" "tb_last_refill b \<le> now"
    using channel_invD(3) [OF inv b] timely b by (auto simp: channel_timely_def)
  have short: "tb_tokens b < release_quantum n (tb_burst b)"
  proof (rule ccontr)
    assume "\<not> ?thesis"
    then have "0 < fst (fault_sendable d queued now)"
      using n(1) b binv fresh [OF b] by (intro fault_sendable_enough [OF c]) (auto simp: n_def)
    with blocked show False by simp
  qed
  obtain t b' where t: "tb_eligible_at b (release_quantum n (tb_burst b)) now = (t, b')" by fastforce
  note wakes = tb_eligible_at_wakes [OF binv(1,2) t binv(3)]
  have q: "min (release_quantum n (tb_burst b)) (tb_burst b) = release_quantum n (tb_burst b)"
    by (simp add: release_quantum_def)
  have later: "now < t" and enough: "release_quantum n (tb_burst b) \<le> tb_tokens (tb_refill b t)"
    using wakes short fresh [OF b] q by simp_all
  have wake: "wake_time c queued now = Some t"
    using n b t by (cases "fc_delay c") (simp_all add: wake_time_def)
  have mono: "n \<le> eligible_bytes c queued t"
    using later dl_releasable_mono [of _ now t] channel_invD(1) [OF inv]
    by (cases "fc_delay c") (auto simp: n_def eligible_bytes_def min_le_iff_disj)
  have "0 < fst (fault_sendable d queued t)" if "eligible_bytes c queued t = n"
    using that n(1) enough b binv(1) by (intro fault_sendable_enough [OF c]) auto
  with mono wake later show ?thesis by (auto simp: n_def)
qed

section \<open>Write interest\<close>

lemma release_quantum_mono: "m \<le> n \<Longrightarrow> release_quantum m b \<le> release_quantum n b"
  by (auto simp: release_quantum_def min_le_iff_disj)

text \<open>What is sendable of the whole queue is sendable of its contiguous front.\<close>

lemma fault_sendable_front:
  assumes "0 < fst (fault_sendable d queued now)" and "0 < len" and "len \<le> queued"
  shows "0 < fst (fault_sendable d len now)"
proof (cases "d_fault d")
  case None
  with assms(2) show ?thesis by simp
next
  case (Some c)
  have el: "0 < eligible_bytes c queued now \<Longrightarrow> 0 < eligible_bytes c len now"
    "eligible_bytes c len now \<le> eligible_bytes c queued now"
    using assms(2,3) by (auto simp: eligible_bytes_def split: option.splits)
  show ?thesis
  proof (cases "fc_bucket c")
    case None
    with assms(1) el show ?thesis by (simp add: fault_sendable_amount [OF Some])
  next
    case (Some b)
    with assms(1) el release_quantum_mono [OF el(2), of "tb_burst b"] show ?thesis
      by (auto simp: fault_sendable_amount [OF \<open>d_fault d = Some c\<close>] split: if_splits)
  qed
qed

context socket_contract
begin

lemma flush_step_progress:
  assumes inv: "relay_inv r" and open_d: "write_open r (opposite s)"
    and ready: "0 < fst (fault_sendable (direction_from r s) (bq_size (queue_from r s)) now)"
    and queued: "\<not> bq_empty (queue_from r s)"
    and accepts: "\<And>data. data \<noteq> [] \<Longrightarrow>
      \<exists>res w'. io_send io (fd_for r (opposite s)) data w = Some (res, w') \<and> io_status res = Transferred"
  shows "\<exists>r1 w1. flush_step strerror io (opposite s) now (r, w) = Some (Again (r1, w1))"
proof -
  let ?d = "direction_from r s"
  note dinv = relay_invD(1) [OF inv, of s]
  note q = dir_wfD(1) [OF dir_inv_wf [OF dinv]]
  obtain off len where span: "bq_readable_span (d_queue ?d) = (off, len)" by fastforce
  have len: "0 < len" "len \<le> bq_size (d_queue ?d)"
    using bq_readable_span_prefix(2,3) [OF q] span queued by (simp_all add: bq_empty_def)
  obtain budget d1 where grant: "fault_sendable ?d len now = (budget, d1)" by fastforce
  note view = fault_sendable_view [OF grant]
  have budget: "0 < budget" using fault_sendable_front [OF ready len] grant by simp
  have bytes: "bq_span_bytes (d_queue d1) (off, budget) = take budget (bq_list (d_queue ?d))"
    using readable_prefix [OF q span view(3)] view(1) by simp
  have "take budget (bq_list (d_queue ?d)) \<noteq> []"
    using budget queued by (auto simp: bq_empty_iff)
  from accepts [OF this] obtain res w1 where
    call: "io_send io (fd_for r (opposite s)) (take budget (bq_list (d_queue ?d))) w = Some (res, w1)"
      "io_status res = Transferred" by blast
  then have "io_bytes res \<le> budget"
    using send_ok [of "fd_for r (opposite s)" "take budget (bq_list (d_queue ?d))" w] by auto
  from consume_egress_ok [OF inv open_d grant len(2) this]
  obtain r1 where "consume_egress (set_direction r s d1) (opposite s) (io_bytes res) budget now = Inr r1"
    by blast
  with call budget queued show ?thesis
    unfolding flush_step_def by (simp add: Let_def span grant bytes)
qed

text \<open>If the destination accepts data and the direction is ready, \<open>flush\<close> sends at least one byte.\<close>

lemma flush_progress:
  assumes inv: "relay_inv r" and open_d: "write_open r (opposite s)"
    and up: "\<not> (opposite s = Upstream \<and> r_upstream_connecting r)"
    and ready: "0 < fst (fault_sendable (direction_from r s) (bq_size (queue_from r s)) now)"
    and queued: "\<not> bq_empty (queue_from r s)"
    and accepts: "\<And>data. data \<noteq> [] \<Longrightarrow>
      \<exists>res w'. io_send io (fd_for r (opposite s)) data w = Some (res, w') \<and> io_status res = Transferred"
  shows "\<exists>pr r' w' k. flush strerror io (opposite s) now r w = Some (Inr (pr, r', w')) \<and> 0 < k \<and>
    sent w' (fd_for r (opposite s)) = sent w (fd_for r (opposite s)) @ take k (bq_list (queue_from r s))"
proof -
  obtain r1 w1 where step: "flush_step strerror io (opposite s) now (r, w) = Some (Again (r1, w1))"
    using flush_step_progress [OF inv open_d ready queued accepts] by blast
  with flush_step_ok [OF inv open_d, of strerror now w] obtain k where k: "0 < k"
      "write_effect s now k r r1" "sent w1 = (sent w)(fd_for r (opposite s) :=
        sent w (fd_for r (opposite s)) @ take k (bq_list (queue_from r s)))"
    by auto
  then have inv1: "relay_inv r1" and open1: "write_open r1 (opposite s)"
    and fd1: "fd_for r1 (opposite s) = fd_for r (opposite s)"
    and q1: "bq_list (queue_from r1 s) = drop k (bq_list (queue_from r s))"
    using open_d by (auto simp: write_effect_def direction_sent_def same_lifecycle_def)
  have "flush strerror io (opposite s) now r w = flush strerror io (opposite s) now r1 w1"
    using open_d up open1 k(2) run_loop_Again [of "flush_step strerror io (opposite s) now" "(r, w)", OF step]
    by (auto simp: flush_def write_effect_def same_lifecycle_def)
  moreover from flush_ok [OF inv1, of strerror s now w1] obtain pr r' w' n where
    "flush strerror io (opposite s) now r1 w1 = Some (Inr (pr, r', w'))"
    "sent w' = (sent w1)(fd_for r1 (opposite s) :=
       sent w1 (fd_for r1 (opposite s)) @ take n (bq_list (queue_from r1 s)))"
    by (auto simp: flush_post_def)
  ultimately show ?thesis
    using k(1,3) fd1 q1 by (intro exI [of _ pr] exI [of _ r'] exI [of _ w'] exI [of _ "k + n"]) (simp add: take_add)
qed

end

context posix_kernel
begin

lemma system_contract: "socket_contract (system_socket_io K) received sent"
  by (rule system.socket_contract_axioms)

end

section \<open>Reachable states\<close>

text \<open>A relay just built on two distinct sockets that have moved no bytes yet, and what it can become.\<close>

definition fresh_sockets ::
  "('w \<Rightarrow> int \<Rightarrow> byte list) \<Rightarrow> ('w \<Rightarrow> int \<Rightarrow> byte list) \<Rightarrow> 'w \<Rightarrow> int \<Rightarrow> int \<Rightarrow> bool" where
  "fresh_sockets received sent w cfd ufd \<longleftrightarrow> cfd \<noteq> ufd \<and>
     received w cfd = [] \<and> sent w cfd = [] \<and> received w ufd = [] \<and> sent w ufd = []"

definition relay_reachable ::
  "(int \<Rightarrow> string) \<Rightarrow> 'w socket_io \<Rightarrow> ('w \<Rightarrow> 'w \<Rightarrow> bool) \<Rightarrow> relay_config \<Rightarrow> int \<Rightarrow> int \<Rightarrow> 'w \<Rightarrow> relay \<Rightarrow> 'w \<Rightarrow> bool" where
  "relay_reachable strerror io env config cfd ufd w0 r w \<longleftrightarrow>
     (\<exists>plan cid connecting t0 r0. relay_new config plan cid cfd ufd connecting t0 = Inr r0 \<and>
        (relay_step strerror io env)\<^sup>*\<^sup>* (r0, w0) (r, w))"

definition silent :: "('w \<Rightarrow> int \<Rightarrow> byte list) \<Rightarrow> ('w \<Rightarrow> int \<Rightarrow> byte list) \<Rightarrow> ('w \<Rightarrow> 'w \<Rightarrow> bool) \<Rightarrow> bool" where
  "silent received sent env \<longleftrightarrow> (\<forall>w w'. env w w' \<longrightarrow> received w' = received w \<and> sent w' = sent w)"

lemma relay_reachable_good:
  assumes "socket_contract io received sent" and "relay_config_ok config" and "silent received sent env"
    and "fresh_sockets received sent w0 cfd ufd" and "relay_reachable strerror io env config cfd ufd w0 r w"
  shows "relay_good received sent (\<lambda>s. if s = Client then cfd else ufd) (rc_high_water_bytes config) (r, w)"
proof -
  obtain plan cid connecting t0 r0 where r0: "relay_new config plan cid cfd ufd connecting t0 = Inr r0"
    and steps: "(relay_step strerror io env)\<^sup>*\<^sup>* (r0, w0) (r, w)"
    using assms(5) by (auto simp: relay_reachable_def)
  have new: "relay_inv r0" "fd_for r0 Client = cfd" "fd_for r0 Upstream = ufd"
      "\<And>s. bq_list (queue_from r0 s) = []"
      "\<And>s. bp_high_water_bytes (d_backpressure (direction_from r0 s)) = rc_high_water_bytes config"
    using relay_new_ok [OF assms(2), of plan cid cfd ufd connecting t0] r0 by auto
  have "received w0 (fd_for r0 s) = sent w0 (fd_for r0 (opposite s)) @ bq_list (queue_from r0 s) \<and>
      fd_for r0 s = (if s = Client then cfd else ufd)" for s
    using new assms(4) by (cases s) (auto simp: fresh_sockets_def)
  then have "relay_good received sent (\<lambda>s. if s = Client then cfd else ufd) (rc_high_water_bytes config) (r0, w0)"
    using new assms(4) by (auto simp: relay_good_def stream_inv_def fresh_sockets_def)
  then show ?thesis
    using socket_contract.relay_steps_good [OF assms(1) steps] assms(3) by (simp add: silent_def)
qed

lemma relay_goodD:
  assumes "relay_good received sent (\<lambda>s. if s = Client then cfd else ufd) high (r, w)"
  shows "relay_inv r" and "received w cfd = sent w ufd @ bq_list (d_queue (r_client_to_upstream r))"
    and "received w ufd = sent w cfd @ bq_list (d_queue (r_upstream_to_client r))"
    and "bq_size (d_queue (r_client_to_upstream r)) \<le> high" and "bq_size (d_queue (r_upstream_to_client r)) \<le> high"
proof -
  show inv: "relay_inv r" using assms by (simp add: relay_good_def)
  have st: "received w (fd_for r s) = sent w (fd_for r (opposite s)) @ bq_list (queue_from r s)"
    "fd_for r s = (if s = Client then cfd else ufd)"
    "bp_high_water_bytes (d_backpressure (direction_from r s)) = high" for s
    using assms unfolding relay_good_def stream_inv_def prod.case by blast+
  note size = dir_wfD(4) [OF dir_inv_wf [OF relay_invD(1) [OF inv]]]
  show "received w cfd = sent w ufd @ bq_list (d_queue (r_client_to_upstream r))"
    using st(1) [of Client] st(2) by (simp add: direction_from_def)
  show "received w ufd = sent w cfd @ bq_list (d_queue (r_upstream_to_client r))"
    using st(1) [of Upstream] st(2) by (simp add: direction_from_def)
  show "bq_size (d_queue (r_client_to_upstream r)) \<le> high"
    using size [of Client] st(3) [of Client] by (simp add: direction_from_def)
  show "bq_size (d_queue (r_upstream_to_client r)) \<le> high"
    using size [of Upstream] st(3) [of Upstream] by (simp add: direction_from_def)
qed

lemma closed_in_orderD:
  assumes "relay_inv r"
  shows "\<not> r_upstream_write_open r \<Longrightarrow> \<not> r_client_read_open r \<and> bq_empty (d_queue (r_client_to_upstream r))"
    and "\<not> r_client_write_open r \<Longrightarrow> \<not> r_half_close_injected r \<Longrightarrow>
      \<not> r_upstream_read_open r \<and> bq_empty (d_queue (r_upstream_to_client r))"
  using relay_invD(3) [OF assms, of Client] relay_invD(3) [OF assms, of Upstream]
  by (auto simp: closed_in_order_def relay_view_defs)

lemma fully_drained_empty:
  assumes "relay_inv r" and "fully_drained r" and "\<not> r_half_close_injected r"
  shows "bq_list (d_queue (r_client_to_upstream r)) = []" and "bq_list (d_queue (r_upstream_to_client r)) = []"
  using assms(2,3) closed_in_orderD [OF assms(1)] by (auto simp: fully_drained_def bq_empty_iff)

section \<open>A connection that cannot drain\<close>

text \<open>
  The write side towards the client is closed while reading from the upstream is paused. Nothing
  can lower the queue any more, so reading is never resumed and the end of the upstream's stream
  is never seen.
\<close>

definition relay_stuck :: "relay \<Rightarrow> bool" where
  "relay_stuck r \<longleftrightarrow> \<not> r_client_write_open r \<and> r_upstream_read_open r \<and>
     bp_read_paused (d_backpressure (r_upstream_to_client r))"

lemma relay_stuck_view:
  "relay_stuck r \<longleftrightarrow> \<not> write_open r Client \<and> read_open r Upstream \<and>
     bp_read_paused (d_backpressure (direction_from r Upstream))"
  by (simp add: relay_stuck_def relay_view_defs)

lemma relay_stuck_refreshed:
  assumes "relay_stuck r"
  shows "relay_stuck (refreshed r s limit now)"
  using assms fault_sendable_view(2) [OF prod.collapse [symmetric], of "direction_from r s" limit now]
  by (auto simp: relay_stuck_view refreshed_def)

context socket_contract
begin

lemma relay_stuck_step:
  assumes "relay_step strerror io env st st'" and "relay_inv (fst st)" and "relay_stuck (fst st)"
  shows "relay_stuck (fst st')"
  using assms
proof (cases rule: relay_step.cases)
  case (readable s hup now r w pr r' w')
  show ?thesis
  proof (cases s)
    case Client
    have "relay_inv r" and stuck: "relay_stuck r" using readable(1) assms(2,3) by simp_all
    with handle_readable_ok [of r strerror s hup now w] readable(3) obtain xs where "read_effect s xs r r'"
      by (auto simp: read_post_def)
    then have "write_open r' Client = write_open r Client" "read_open r' Upstream = read_open r Upstream"
      "direction_from r' Upstream = direction_from r Upstream"
      unfolding read_effect_def Client by simp_all
    with stuck readable(2) show ?thesis by (simp add: relay_stuck_view)
  next
    case Upstream
    with readable assms(3) have "read_step strerror io s hup now (r, w) = Some (Halt (Inr (pump_continue, r, w)))"
      by (auto simp: read_step_def relay_stuck_view Let_def)
    then have "handle_readable strerror io s hup now r w = Some (Inr (pump_continue, r, w))"
      unfolding handle_readable_def by (subst run_loop.simps) simp
    with readable assms(3) show ?thesis by simp
  qed
next
  case (flushed s now r w pr r' w')
  show ?thesis
  proof (cases s)
    case Client
    with flushed assms(3) have "r' = r" by (simp add: flush_def relay_stuck_view)
    with flushed assms(3) show ?thesis by simp
  next
    case Upstream
    with flushed assms(2) flush_ok [of r strerror Client now w]
    have "flush_post Client now r w (Inr (pr, r', w'))" by auto
    with flushed assms(3) show ?thesis by (auto simp: flush_post_def relay_stuck_view)
  qed
next
  case (half_closes r w r' w')
  with assms propagate_half_closes_ok [of r w r' w'] show ?thesis
    by (auto simp: quiet_effect_def relay_stuck_view)
next
  case (connected r w)
  with assms(3) show ?thesis by (simp add: relay_stuck_view mark_upstream_connected_def)
next
  case (woken r s now t r' w)
  with assms(3) next_wake_relay [of r "opposite s" now t r'] relay_stuck_refreshed show ?thesis by auto
next
  case (interest r s now i r' w)
  with assms(3) desired_interest_relay [of r "opposite s" now i r'] relay_stuck_refreshed show ?thesis by auto
qed simp

end

end
