(* ===== verification/Relay_Theorems.thy ===== *)
theory Relay_Theorems
  imports Relay_Properties
begin

text \<open>
  The properties of the relay over the system calls, from the lemmas of \<open>Relay_Correctness\<close> and
  \<open>Relay_Properties\<close>. The kernel is any that keeps the documented behaviour \<open>posix_kernel\<close>. The
  witnesses use one run on the scripted kernel, computed step by step: the upstream delivers more
  than the high-water mark, the client accepts one byte and blocks, and a half-close is injected
  after the first byte.
\<close>

section \<open>An example run\<close>

definition config_example :: relay_config where
  "config_example = \<lparr>rc_buffer_bytes_per_direction = 4, rc_low_water_bytes = 0, rc_high_water_bytes = 2\<rparr>"

definition plan_example :: fault_plan where
  "plan_example = fault_plan_default\<lparr>fp_half_close_after_bytes := 1\<rparr>"

definition world_example :: script_world where
  "world_example = \<lparr>sw_recv_script = [Deliver [1, 2, 3]], sw_send_script = [Accept 1, SendFails EAGAIN],
     sw_received = (\<lambda>_. []), sw_sent = (\<lambda>_. []), sw_shutdowns = []\<rparr>"

abbreviation scripted_io :: "script_world socket_io" where
  "scripted_io \<equiv> system_socket_io scripted_kernel"

abbreviation no_text :: "int \<Rightarrow> string" where
  "no_text \<equiv> (\<lambda>_. '''')"

definition direction_example :: "byte list \<Rightarrow> nat \<Rightarrow> nat \<Rightarrow> nat \<Rightarrow> bool \<Rightarrow> direction" where
  "direction_example storage head queued high paused =
     \<lparr>d_queue = \<lparr>bq_storage = storage, bq_head = head, bq_size = queued, bq_high_water_mark = high\<rparr>,
      d_backpressure = \<lparr>bp_low_water_bytes = 0, bp_high_water_bytes = 2, bp_read_paused = paused,
        bp_at_capacity = False, bp_pause_started_at = (if paused then 10 else 0), bp_total_paused = 0,
        bp_pause_count = (if paused then 1 else 0), bp_resume_count = 0, bp_saturation_count = 0\<rparr>,
      d_fault = None\<rparr>"

definition relay_example :: "bool \<Rightarrow> direction \<Rightarrow> relay_metrics \<Rightarrow> time \<Rightarrow> relay_event list \<Rightarrow> relay" where
  "relay_example can_write u2c metrics activity events =
     \<lparr>r_client_fd = 4, r_upstream_fd = 5, r_upstream_connecting = False,
      r_client_read_open = True, r_client_write_open = can_write,
      r_upstream_read_open = True, r_upstream_write_open = True,
      r_faults_active = True, r_reset_after_bytes = 0, r_half_close_after_bytes = 1,
      r_half_close_injected = (\<not> can_write), r_state = Active,
      r_client_to_upstream = direction_example [0, 0, 0, 0] 0 0 0 False, r_upstream_to_client = u2c,
      r_metrics = metrics, r_accepted_at = 0, r_last_activity = activity, r_events = events\<rparr>"

definition paused_event :: relay_event where
  "paused_event = \<lparr>ev_name = ''read_paused'', ev_state = Active,
     ev_detail = ''direction='' @ ''upstream_to_client'' @ '',queue_bytes='' @ nat_to_string 2 @
       '',low_water_bytes='' @ nat_to_string 0 @ '',high_water_bytes='' @ nat_to_string 2\<rparr>"

definition injected_event :: relay_event where
  "injected_event = \<lparr>ev_name = ''fault_injected'', ev_state = Active,
     ev_detail = ''fault=half_close,direction=client_write,after_bytes='' @ u64_to_string 1\<rparr>"

definition start_relay :: relay where
  "start_relay = relay_example True (direction_example [0, 0, 0, 0] 0 0 0 False) relay_metrics_zero 0 []"

definition read_relay :: relay where
  "read_relay = relay_example True (direction_example [1, 2, 0, 0] 0 2 2 True)
     (relay_metrics_zero\<lparr>m_read_operations := 1, m_upstream_bytes_read := 2\<rparr>) 10 [paused_event]"

definition read_world :: script_world where
  "read_world = world_example\<lparr>sw_recv_script := [Deliver [3]], sw_received := (\<lambda>_. [])(5 := [1, 2])\<rparr>"

definition sent_relay :: relay where
  "sent_relay = relay_example True (direction_example [1, 2, 0, 0] 1 1 2 True)
     (relay_metrics_zero\<lparr>m_read_operations := 1, m_upstream_bytes_read := 2, m_partial_writes := 1,
        m_write_operations := 1, m_client_bytes_written := 1\<rparr>) 20 [paused_event]"

definition sent_world :: script_world where
  "sent_world = read_world\<lparr>sw_send_script := [SendFails EAGAIN], sw_sent := (\<lambda>_. [])(4 := [1])\<rparr>"

definition blocked_world :: script_world where
  "blocked_world = sent_world\<lparr>sw_send_script := []\<rparr>"

definition stuck_relay :: relay where
  "stuck_relay = relay_example False (direction_example [1, 2, 0, 0] 1 1 2 True)
     (relay_metrics_zero\<lparr>m_read_operations := 1, m_upstream_bytes_read := 2, m_partial_writes := 1,
        m_write_operations := 1, m_client_bytes_written := 1, m_eagain_events := 1\<rparr>) 20
     [paused_event, injected_event]"

definition stuck_world :: script_world where
  "stuck_world = blocked_world\<lparr>sw_shutdowns := [4]\<rparr>"

definition waiting_relay :: relay where
  "waiting_relay = read_relay\<lparr>r_upstream_to_client := (direction_example [1, 2, 0, 0] 0 2 2 True)
     \<lparr>d_fault := Some \<lparr>fc_delay = Some \<lparr>dl_segments = [\<lparr>seg_bytes = 2, seg_eligible_at = 50\<rparr>],
          dl_pending = 2, dl_last_eligible = 50\<rparr>,
        fc_bucket = Some tb_example, fc_rng = \<lparr>sm_state = 0\<rparr>, fc_latency = 40, fc_jitter = 0,
        fc_delayed_segments = 1, fc_delay_budget = 40\<rparr>\<rparr>\<rparr>"

definition drain_world :: "recv_event list \<Rightarrow> script_world" where
  "drain_world script = \<lparr>sw_recv_script = script, sw_send_script = [], sw_received = (\<lambda>_. [])(4 := [7]),
     sw_sent = (\<lambda>_. []), sw_shutdowns = []\<rparr>"

definition drain_start :: script_world where
  "drain_start = (drain_world [Deliver [7], EndOfStream, EndOfStream])\<lparr>sw_received := (\<lambda>_. [])\<rparr>"

definition drain_sent :: "recv_event list \<Rightarrow> script_world" where
  "drain_sent script = (drain_world script)\<lparr>sw_sent := (\<lambda>_. [])(5 := [7])\<rparr>"

definition drain_read :: relay where
  "drain_read = start_relay\<lparr>r_client_to_upstream := direction_example [7, 0, 0, 0] 0 1 1 False,
     r_metrics := relay_metrics_zero\<lparr>m_client_bytes_read := 1, m_read_operations := 1\<rparr>, r_last_activity := 10\<rparr>"

definition drain_ended :: relay where
  "drain_ended = note_half_closed_read drain_read Client"

definition drain_written :: relay where
  "drain_written = drain_ended\<lparr>r_client_to_upstream := direction_example [7, 0, 0, 0] 0 0 1 False,
     r_metrics := (r_metrics drain_ended)\<lparr>m_write_operations := 1, m_upstream_bytes_written := 1\<rparr>,
     r_last_activity := 20\<rparr>"

definition drained_relay :: relay where
  "drained_relay = note_half_closed_read drain_written Upstream"

definition forwarded_relay :: relay where
  "forwarded_relay = on_event (drain_written\<lparr>r_upstream_write_open := False\<rparr>) ''half_close_forwarded''
     ''direction=upstream_write''"

definition forwarded_world :: script_world where
  "forwarded_world = (drain_sent [EndOfStream])\<lparr>sw_shutdowns := sw_shutdowns (drain_sent [EndOfStream]) @ [5]\<rparr>"

lemmas world_eval = world_example_def read_world_def scripted_kernel_def scripted_recv_def scripted_send_def
  system_socket_io_def system_receive_def system_send_def receive_step_def send_step_def
  system_shutdown_write_def errno_defs

lemma start: "relay_new config_example plan_example 1 4 5 False 0 = Inr start_relay"
  by (simp add: relay_new_def direction_new_def bq_new_def bp_new_def config_example_def plan_example_def
      fault_plan_default_def fp_any_enabled_def attach_channel_def Let_def relay_metrics_zero_def numeral_eq_Suc
      start_relay_def relay_example_def direction_example_def)

lemma recv1: "system_receive scripted_kernel 5 [0, 0] world_example =
    Some (\<lparr>io_status = Transferred, io_bytes = 2, io_error = 0\<rparr>, [1, 2], read_world)"
  unfolding system_receive_def by (subst run_loop.simps) (simp add: world_eval Let_def)

lemmas relay_eval = relay_example_def direction_example_def relay_metrics_zero_def paused_event_def injected_event_def
  direction_from_def set_direction_def read_open_def write_open_def fd_for_def opposite_def Let_def
  bq_full_def bq_capacity_def bq_available_def bq_empty_def u64_modulus_def bq_fill_def bq_span_bytes_def
  observe_backpressure_def bp_observe_def bp_note_saturation_def on_event_def

lemma read1: "read_step no_text scripted_io Upstream False 10 (start_relay, world_example) =
    Some (Again (read_relay, read_world))"
proof -
  let ?d = "direction_example [0, 0, 0, 0] 0 0 0 False"
  have span: "read_span ?d = (0, 2)" "bq_span_bytes (d_queue ?d) (0, 2) = [0, 0]"
    by (simp_all add: read_span_def bq_writable_span_def relay_eval)
  have "commit_ingress (set_direction start_relay Upstream (?d\<lparr>d_queue := bq_fill (d_queue ?d) 0 [1, 2]\<rparr>))
      Upstream 2 10 = Inr read_relay"
    by (simp add: commit_ingress_def bq_commit_write_def stamp_ingress_def count_read_def relay_eval
        start_relay_def read_relay_def)
  moreover have "direction_from start_relay Upstream = ?d" "fd_for start_relay Upstream = 5"
    "read_open start_relay Upstream" "\<not> bp_read_paused (d_backpressure ?d)"
    by (simp_all add: start_relay_def relay_eval)
  ultimately show ?thesis
    by (simp add: read_step_def span recv1 Let_def system_socket_io_def)
qed

lemma read2: "handle_readable no_text scripted_io Upstream False 10 start_relay world_example =
    Some (Inr (pump_continue, read_relay, read_world))"
proof -
  have "read_step no_text scripted_io Upstream False 10 (read_relay, read_world) =
      Some (Halt (Inr (pump_continue, read_relay, read_world)))"
    by (simp add: read_step_def read_relay_def relay_eval)
  then show ?thesis
    unfolding handle_readable_def by (subst run_loop.simps) (simp add: read1, subst run_loop.simps, simp)
qed

lemma send1: "system_send scripted_kernel 4 [1, 2] read_world =
    Some (\<lparr>io_status = Transferred, io_bytes = 1, io_error = 0\<rparr>, sent_world)"
  unfolding system_send_def by (subst run_loop.simps) (simp add: world_eval sent_world_def Let_def)

lemma send2: "system_send scripted_kernel 4 [2] sent_world =
    Some (\<lparr>io_status = WouldBlock, io_bytes = 0, io_error = 0\<rparr>, blocked_world)"
  unfolding system_send_def
  by (subst run_loop.simps) (simp add: world_eval sent_world_def blocked_world_def Let_def)

lemma flush1: "flush_step no_text scripted_io Client 20 (read_relay, read_world) = Some (Again (sent_relay, sent_world))"
  by (simp add: flush_step_def bq_readable_span_def consume_egress_def consume_direction_def bq_consume_def
      count_write_def relay_eval read_relay_def sent_relay_def system_socket_io_def send1)

lemma flush2: "flush_step no_text scripted_io Client 20 (sent_relay, sent_world) =
    Some (Halt (Inr (None, count_eagain sent_relay, blocked_world)))"
  by (simp add: flush_step_def bq_readable_span_def relay_eval sent_relay_def system_socket_io_def send2)

abbreviation no_change :: "script_world \<Rightarrow> script_world \<Rightarrow> bool" where
  "no_change \<equiv> (\<lambda>_ _. False)"

lemma flush_example: "flush no_text scripted_io Client 20 read_relay read_world =
    Some (Inr (pump_continue, stuck_relay, stuck_world))"
proof -
  have "run_loop (flush_step no_text scripted_io Client 20) (read_relay, read_world) =
      Some (Inr (None, count_eagain sent_relay, blocked_world))"
    by (subst run_loop.simps, simp add: flush1, subst run_loop.simps, simp add: flush2)
  moreover have "check_lifecycle_faults scripted_io (count_eagain sent_relay) blocked_world =
      (pump_continue, stuck_relay, stuck_world)"
    by (simp add: check_lifecycle_faults_def count_eagain_def sent_relay_def stuck_relay_def stuck_world_def
        relay_eval world_eval blocked_world_def sent_world_def)
  ultimately show ?thesis
    by (simp add: flush_def read_relay_def relay_example_def write_open_def)
qed

lemma config_example_ok [simp]: "relay_config_ok config_example"
  by (simp add: relay_config_ok_def config_example_def)

lemma world_example_fresh [simp]: "fresh_sockets sw_received sw_sent world_example 4 5"
  by (simp add: fresh_sockets_def world_example_def)

lemma no_change_silent [simp]: "silent sw_received sw_sent no_change"
  by (simp add: silent_def)

lemma example_reachable:
  "relay_reachable no_text scripted_io no_change config_example 4 5 world_example read_relay read_world"
  "relay_reachable no_text scripted_io no_change config_example 4 5 world_example stuck_relay stuck_world"
proof -
  note s1 = relay_step.readable [OF read2, of no_change]
  note s2 = relay_step.flushed [OF flush_example, of no_change]
  show "relay_reachable no_text scripted_io no_change config_example 4 5 world_example read_relay read_world"
    unfolding relay_reachable_def using start s1 by blast
  show "relay_reachable no_text scripted_io no_change config_example 4 5 world_example stuck_relay stuck_world"
    unfolding relay_reachable_def using start s1 s2 by (meson converse_rtranclp_into_rtranclp r_into_rtranclp)
qed

lemmas scripted_posix = scripted.posix_kernel_axioms

lemmas example_good = relay_reachable_good [OF posix_kernel.system_contract [OF scripted_posix]
  config_example_ok no_change_silent world_example_fresh]

lemma drain_receive:
  "system_receive scripted_kernel 4 [0, 0] drain_start =
     Some (\<lparr>io_status = Transferred, io_bytes = 1, io_error = 0\<rparr>, [7, 0], drain_world [EndOfStream, EndOfStream])"
  "system_receive scripted_kernel 4 [0] (drain_world [EndOfStream, EndOfStream]) =
     Some (\<lparr>io_status = PeerClosed, io_bytes = 0, io_error = 0\<rparr>, [0], drain_world [EndOfStream])"
  "system_receive scripted_kernel 5 [0, 0] (drain_sent [EndOfStream]) =
     Some (\<lparr>io_status = PeerClosed, io_bytes = 0, io_error = 0\<rparr>, [0, 0], drain_sent [])"
  "system_send scripted_kernel 5 [7] (drain_world [EndOfStream]) =
     Some (\<lparr>io_status = Transferred, io_bytes = 1, io_error = 0\<rparr>, drain_sent [EndOfStream])"
  unfolding system_receive_def system_send_def
  by (subst run_loop.simps, simp add: world_eval drain_start_def drain_world_def drain_sent_def Let_def)+

lemmas drain_eval = drain_read_def drain_ended_def drain_written_def start_relay_def note_half_closed_read_def
  refresh_state_def close_read_def relay_eval

lemma drain_step1: "read_step no_text scripted_io Client False 10 (start_relay, drain_start) =
    Some (Again (drain_read, drain_world [EndOfStream, EndOfStream]))"
  by (simp add: read_step_def read_span_def bq_writable_span_def commit_ingress_def bq_commit_write_def
      stamp_ingress_def count_read_def system_socket_io_def drain_receive drain_eval)

lemma drain_step2: "read_step no_text scripted_io Client False 10 (drain_read, drain_world [EndOfStream, EndOfStream]) =
    Some (Halt (Inr (pump_continue, drain_ended, drain_world [EndOfStream])))"
  by (simp add: read_step_def read_span_def bq_writable_span_def system_socket_io_def drain_receive drain_eval)

lemma drain_step3: "flush_step no_text scripted_io Upstream 20 (drain_ended, drain_world [EndOfStream]) =
    Some (Again (drain_written, drain_sent [EndOfStream]))"
  by (simp add: flush_step_def bq_readable_span_def consume_egress_def consume_direction_def bq_consume_def
      count_write_def system_socket_io_def drain_receive drain_eval)

lemma drain_step4: "flush_step no_text scripted_io Upstream 20 (drain_written, drain_sent [EndOfStream]) =
    Some (Halt (Inr (None, drain_written, drain_sent [EndOfStream])))"
  by (simp add: flush_step_def drain_eval)

lemma drain_step5: "read_step no_text scripted_io Upstream False 30 (drain_written, drain_sent [EndOfStream]) =
    Some (Halt (Inr (pump_continue, drained_relay, drain_sent [])))"
  by (simp add: read_step_def read_span_def bq_writable_span_def system_socket_io_def drain_receive
      drained_relay_def drain_eval)

lemma drain_reachable:
  "relay_reachable no_text scripted_io no_change config_example 4 5 drain_start drained_relay (drain_sent [])"
  "relay_reachable no_text scripted_io no_change config_example 4 5 drain_start forwarded_relay forwarded_world"
proof -
  have a: "handle_readable no_text scripted_io Client False 10 start_relay drain_start =
      Some (Inr (pump_continue, drain_ended, drain_world [EndOfStream]))"
    unfolding handle_readable_def
    by (subst run_loop.simps, simp add: drain_step1, subst run_loop.simps, simp add: drain_step2)
  have "check_lifecycle_faults scripted_io drain_written (drain_sent [EndOfStream]) =
      (pump_continue, drain_written, drain_sent [EndOfStream])"
    by (simp add: check_lifecycle_faults_def drain_eval)
  moreover have "run_loop (flush_step no_text scripted_io Upstream 20) (drain_ended, drain_world [EndOfStream]) =
      Some (Inr (None, drain_written, drain_sent [EndOfStream]))"
    by (subst run_loop.simps, simp add: drain_step3, subst run_loop.simps, simp add: drain_step4)
  ultimately have b: "flush no_text scripted_io Upstream 20 drain_ended (drain_world [EndOfStream]) =
      Some (Inr (pump_continue, drain_written, drain_sent [EndOfStream]))"
    by (simp add: flush_def) (simp add: drain_eval)
  have c: "handle_readable no_text scripted_io Upstream False 30 drain_written (drain_sent [EndOfStream]) =
      Some (Inr (pump_continue, drained_relay, drain_sent []))"
    unfolding handle_readable_def by (subst run_loop.simps, simp add: drain_step5)
  have d: "propagate_half_closes scripted_io drain_written (drain_sent [EndOfStream]) = (forwarded_relay, forwarded_world)"
    by (simp add: propagate_half_closes_def forwarded_relay_def forwarded_world_def world_eval drain_eval)
  note steps = relay_step.readable [OF a, of no_change] relay_step.flushed [OF b, of no_change]
  show "relay_reachable no_text scripted_io no_change config_example 4 5 drain_start drained_relay (drain_sent [])"
    unfolding relay_reachable_def
    using start steps relay_step.readable [OF c, of no_change]
    by (meson converse_rtranclp_into_rtranclp r_into_rtranclp)
  show "relay_reachable no_text scripted_io no_change config_example 4 5 drain_start forwarded_relay forwarded_world"
    unfolding relay_reachable_def
    using start steps relay_step.half_closes [OF d, of no_text no_change]
    by (meson converse_rtranclp_into_rtranclp r_into_rtranclp)
qed

lemma drain_start_fresh: "fresh_sockets sw_received sw_sent drain_start 4 5"
  by (simp add: fresh_sockets_def drain_start_def drain_world_def)

section \<open>Properties\<close>

text \<open>
  C1. Stream integrity and bounded memory. Whatever the event loop does with a relay built on two
  fresh sockets, at any times and in any order, and however the kernel splits, delays, interrupts
  or fails the transfers: the bytes received from either side are, in order and without loss or
  duplication, the bytes sent to the other side followed by the bytes still queued; and neither
  queue ever holds more than the high-water mark.
\<close>

theorem relay_stream_integrity:
  assumes "posix_kernel K received sent interruptions" and "relay_config_ok config"
    and "silent received sent env" and "fresh_sockets received sent w0 cfd ufd"
    and "relay_reachable strerror (system_socket_io K) env config cfd ufd w0 r w"
  shows "received w cfd = sent w ufd @ bq_list (d_queue (r_client_to_upstream r)) \<and>
    received w ufd = sent w cfd @ bq_list (d_queue (r_upstream_to_client r)) \<and>
    bq_size (d_queue (r_client_to_upstream r)) \<le> rc_high_water_bytes config \<and>
    bq_size (d_queue (r_upstream_to_client r)) \<le> rc_high_water_bytes config"
  using relay_goodD [OF relay_reachable_good [OF posix_kernel.system_contract [OF assms(1)] assms(2-5)]]
  by blast

theorem relay_stream_integrity_witness:
  "sw_received stuck_world 5 = [1, 2] \<and> sw_sent stuck_world 4 = [1] \<and>
   sw_received stuck_world 5 = sw_sent stuck_world 4 @ bq_list (d_queue (r_upstream_to_client stuck_relay)) \<and>
   bq_size (d_queue (r_upstream_to_client stuck_relay)) \<le> 2"
  using relay_stream_integrity [OF scripted_posix config_example_ok no_change_silent world_example_fresh
      example_reachable(2)]
  by (simp add: stuck_world_def blocked_world_def sent_world_def read_world_def config_example_def)

text \<open>
  C2. The relay never fails and always returns. In every reachable state, for either side and at
  any time, reading and flushing end and neither throws; the queues, the delay line and the token
  bucket are never asked for more than they hold.
\<close>

theorem relay_never_throws:
  assumes "posix_kernel K received sent interruptions" and "relay_config_ok config"
    and "silent received sent env" and "fresh_sockets received sent w0 cfd ufd"
    and "relay_reachable strerror (system_socket_io K) env config cfd ufd w0 r w"
  shows "(\<exists>pr r' w'. handle_readable strerror (system_socket_io K) s hup now r w = Some (Inr (pr, r', w'))) \<and>
    (\<exists>pr r' w'. flush strerror (system_socket_io K) s now r w = Some (Inr (pr, r', w')))"
proof -
  note contract = posix_kernel.system_contract [OF assms(1)]
  note inv = relay_goodD(1) [OF relay_reachable_good [OF contract assms(2-5)]]
  from socket_contract.handle_readable_ok [OF contract inv] socket_contract.flush_ok [OF contract inv, of strerror "opposite s"]
  show ?thesis
    unfolding socket_contract.read_post_def [OF contract] socket_contract.flush_post_def [OF contract]
      opposite_simps by blast
qed

theorem relay_never_throws_witness:
  "\<exists>pr r' w'. flush no_text scripted_io Client 20 read_relay read_world = Some (Inr (pr, r', w'))"
  using relay_never_throws [OF scripted_posix config_example_ok no_change_silent world_example_fresh
      example_reachable(1), of Client False 20]
  by blast

text \<open>
  C30. Accounting and lifecycle. In every reachable state the 64-bit counters agree with the
  queues (bytes read from a side are bytes written to the other plus bytes queued, modulo
  \<open>2 ^ 64\<close>), and the reported connection state is the one derived from the flags.
\<close>

theorem relay_accounting:
  assumes "posix_kernel K received sent interruptions" and "relay_config_ok config"
    and "silent received sent env" and "fresh_sockets received sent w0 cfd ufd"
    and "relay_reachable strerror (system_socket_io K) env config cfd ufd w0 r w"
  shows "m_client_bytes_read (r_metrics r) =
      m_upstream_bytes_written (r_metrics r) + of_nat (bq_size (d_queue (r_client_to_upstream r))) \<and>
    m_upstream_bytes_read (r_metrics r) =
      m_client_bytes_written (r_metrics r) + of_nat (bq_size (d_queue (r_upstream_to_client r))) \<and>
    r_state r = r_state (refresh_state r)"
proof -
  note inv = relay_goodD(1) [OF relay_reachable_good [OF posix_kernel.system_contract [OF assms(1)] assms(2-5)]]
  from relay_invD(2) [OF inv, of Client] relay_invD(2) [OF inv, of Upstream] relay_invD(4) [OF inv]
  show ?thesis by (simp add: accounted_def bytes_read_def bytes_written_def direction_from_def)
qed

theorem relay_accounting_witness:
  "m_upstream_bytes_read (r_metrics stuck_relay) = m_client_bytes_written (r_metrics stuck_relay) + 1"
  using relay_accounting [OF scripted_posix config_example_ok no_change_silent world_example_fresh
      example_reachable(2)]
  by (simp add: stuck_relay_def relay_example_def direction_example_def)

text \<open>
  C7. Faults are respected. Every flush at time \<open>now\<close> sends a prefix of the queue; under a delay
  line each byte of it has reached its eligibility time, and under a token bucket its length is
  covered by the tokens the bucket holds at \<open>now\<close> and is taken from them.
\<close>

theorem flush_respects_faults:
  assumes "posix_kernel K received sent interruptions" and "relay_inv r"
    and "flush strerror (system_socket_io K) (opposite s) now r w = Some (Inr (pr, r', w'))"
    and "d_fault (direction_from r s) = Some c"
  shows "\<exists>k c'. sent w' (fd_for r (opposite s)) =
      sent w (fd_for r (opposite s)) @ take k (bq_list (d_queue (direction_from r s))) \<and>
    bq_list (d_queue (direction_from r' s)) = drop k (bq_list (d_queue (direction_from r s))) \<and>
    d_fault (direction_from r' s) = Some c' \<and>
    pred_option (\<lambda>line. \<forall>t \<in> set (take k (dl_times line)). t \<le> now) (fc_delay c) \<and>
    rel_option (\<lambda>b b'. k \<le> tb_tokens (tb_refill b now) \<and>
      tb_credit (tb_refill b' now) + k * giga = tb_credit (tb_refill b now)) (fc_bucket c) (fc_bucket c')"
proof -
  note contract = posix_kernel.system_contract [OF assms(1)]
  obtain k where k: "direction_sent now k (direction_from r s) (direction_from r' s)"
    "sent w' = (sent w)(fd_for r (opposite s) :=
       sent w (fd_for r (opposite s)) @ take k (bq_list (queue_from r s)))"
    using socket_contract.flush_ok [OF contract assms(2), of strerror s now w] assms(3)
    by (auto simp: socket_contract.flush_post_def [OF contract])
  then obtain c' where c': "d_fault (direction_from r' s) = Some c'" "channel_sent now k c c'"
    using assms(4) by (auto simp: direction_sent_def option_rel_Some1)
  note cinv = dir_wfD(5) [OF dir_inv_wf [OF relay_invD(1) [OF assms(2)]] assms(4)]
  have delay: "pred_option (\<lambda>line. \<forall>t \<in> set (take k (dl_times line)). t \<le> now) (fc_delay c)"
    using c'(2) channel_invD(1) [OF cinv]
    by (cases "fc_delay c") (auto simp: channel_sent_def option_rel_Some1 intro: dl_releasable_eligible)
  have bucket: "rel_option (\<lambda>b b'. k \<le> tb_tokens (tb_refill b now) \<and>
      tb_credit (tb_refill b' now) + k * giga = tb_credit (tb_refill b now)) (fc_bucket c) (fc_bucket c')"
  proof (cases "fc_bucket c")
    case (Some b)
    with c'(2) obtain b' where b': "fc_bucket c' = Some b'"
      "tb_credit (tb_refill b' now) + k * giga = tb_credit (tb_refill b now)"
      by (auto simp: channel_sent_def option_rel_Some1)
    have "k \<le> tb_tokens (tb_refill b now)"
      using b'(2) by (intro tb_tokens_geI tb_refill_inv channel_invD(3) [OF cinv Some]) simp
    with Some b' show ?thesis by simp
  qed (use c'(2) in \<open>simp add: channel_sent_def\<close>)
  from k c' delay bucket show ?thesis by (auto simp: direction_sent_def)
qed

lemma fault_channel_example:
  "\<exists>r c. relay_new config_example (fault_plan_default\<lparr>fp_latency := 5, fp_rate_bytes_per_second := 1000\<rparr>) 1 4 5 False 0 =
     Inr r \<and> relay_inv r \<and> d_fault (direction_from r Client) = Some c \<and> fc_delay c \<noteq> None \<and> fc_bucket c \<noteq> None"
proof -
  let ?plan = "fault_plan_default\<lparr>fp_latency := 5, fp_rate_bytes_per_second := 1000\<rparr>"
  obtain r where r: "relay_new config_example ?plan 1 4 5 False 0 = Inr r" "relay_inv r"
    using relay_new_ok [OF config_example_ok] by blast
  then have "\<exists>c. d_fault (direction_from r Client) = Some c \<and> fc_delay c \<noteq> None \<and> fc_bucket c \<noteq> None"
    by (auto simp: relay_new_def direction_new_def attach_channel_def make_channel_def tb_new_def Let_def
        fault_plan_default_def fp_any_enabled_def fp_applies_to_client_to_upstream_def
        fp_applies_to_upstream_to_client_def fp_effective_burst_bytes_def direction_from_def
        split: sum.splits)
  with r show ?thesis by blast
qed

theorem flush_respects_faults_witness:
  "\<exists>r c pr r' w' k. relay_inv r \<and> d_fault (direction_from r Client) = Some c \<and> fc_delay c \<noteq> None \<and>
     fc_bucket c \<noteq> None \<and>
     flush no_text scripted_io Upstream 20 r world_example = Some (Inr (pr, r', w')) \<and>
     sw_sent w' (fd_for r Upstream) = sw_sent world_example (fd_for r Upstream) @
       take k (bq_list (d_queue (direction_from r Client))) \<and>
     pred_option (\<lambda>line. \<forall>t \<in> set (take k (dl_times line)). t \<le> 20) (fc_delay c)"
proof -
  obtain r c where r: "relay_inv r" "d_fault (direction_from r Client) = Some c" "fc_delay c \<noteq> None"
      "fc_bucket c \<noteq> None" using fault_channel_example by blast
  note contract = posix_kernel.system_contract [OF scripted_posix]
  obtain pr r' w' where f: "flush no_text scripted_io (opposite Client) 20 r world_example = Some (Inr (pr, r', w'))"
    using socket_contract.flush_ok [OF contract r(1), of no_text Client 20 world_example]
    by (auto simp: socket_contract.flush_post_def [OF contract])
  from flush_respects_faults [OF scripted_posix r(1) f r(2)] r f show ?thesis
    unfolding opposite_simps by blast
qed

text \<open>
  C6. No lost wake-up. A destination that could be written to and has bytes queued either gets
  write interest or a wake-up in the future; when the wake-up comes, bytes can be sent or strictly
  more bytes have become eligible. So a fault never leaves data waiting for an event that will not
  come. (The bucket must be within its exact range and the clock not behind its last refill.)
\<close>

theorem relay_no_lost_wakeup:
  assumes "relay_inv r" and "write_open r (opposite s)"
    and "\<not> (opposite s = Upstream \<and> r_upstream_connecting r)" and "\<not> bq_empty (d_queue (direction_from r s))"
    and "pred_option (channel_timely now) (d_fault (direction_from r s))"
    and "desired_interest r (opposite s) now = (i, r1)" and "next_wake r (opposite s) now = (wake, r2)"
  shows "is_write i \<or> (\<exists>c t. d_fault (direction_from r2 s) = Some c \<and> wake = Some t \<and> now < t \<and>
    (0 < fst (fault_sendable (direction_from r2 s) (bq_size (d_queue (direction_from r s))) t) \<or>
     eligible_bytes c (bq_size (d_queue (direction_from r s))) now <
       eligible_bytes c (bq_size (d_queue (direction_from r s))) t))"
proof (cases "is_write i")
  case True
  then show ?thesis by simp
next
  case nw: False
  let ?d = "direction_from r s" and ?n = "bq_size (d_queue (direction_from r s))"
  obtain b d1 where grant: "fault_sendable ?d ?n now = (b, d1)" by fastforce
  have "b = 0"
    using nw assms(2-4,6) grant by (auto simp: desired_interest_def Let_def split: if_splits)
  have n: "0 < ?n" using assms(4) by (simp add: bq_empty_def)
  then obtain c where c: "d_fault ?d = Some c"
    using grant \<open>b = 0\<close> by (cases "d_fault ?d") auto
  obtain c1 where c1: "d_fault d1 = Some c1" "fc_delay c1 = fc_delay c"
      "fc_bucket c1 = map_option (\<lambda>b. tb_refill b now) (fc_bucket c)"
    using fault_sendable_channel [OF grant c] by blast
  have wake: "wake = wake_time c1 ?n now" and r2: "direction_from r2 s = d1"
    using next_wake_eq [OF assms(2-4) grant c1(1)] assms(7) \<open>b = 0\<close> by auto
  have wf1: "dir_wf d1" using fault_sendable_wf [OF grant dir_inv_wf [OF relay_invD(1) [OF assms(1)]]] .
  have inv1: "channel_inv c1 ?n"
    using dir_wfD(5) [OF wf1 c1(1)] fault_sendable_view(1) [OF grant] by simp
  have timely: "channel_timely now c1"
    using assms(5) c c1(3) by (cases "fc_bucket c") (auto simp: channel_timely_def)
  have "fst (fault_sendable d1 ?n now) = 0"
    using grant \<open>b = 0\<close> c c1 fault_sendable_amount [OF c, of ?n now] fault_sendable_amount [OF c1(1), of ?n now]
    by (cases "fc_bucket c") (auto simp: eligible_bytes_def)
  from wake_time_progress [OF inv1 n timely fault_sendable_again [OF grant c1(1)] c1(1) this]
  show ?thesis using wake r2 c1(1) by auto
qed

lemma waiting_relay_inv: "relay_inv waiting_relay"
proof -
  have d: "dir_inv (direction_from waiting_relay s)" for s
    using tb_example_ok(1)
    by (cases s) (simp_all add: waiting_relay_def read_relay_def relay_eval dir_inv_def dir_wf_def bq_inv_def bp_inv_def
        bp_synced_def channel_inv_def dl_inv_def dl_times_def)
  have "accounted waiting_relay s \<and> closed_in_order waiting_relay s" for s
    by (cases s) (simp_all add: waiting_relay_def read_relay_def relay_eval accounted_def closed_in_order_def
        bytes_read_def bytes_written_def)
  with d show ?thesis
    by (simp add: relay_inv_def) (simp add: waiting_relay_def read_relay_def relay_eval refresh_state_def
        derive_connection_state_def)
qed

theorem relay_no_lost_wakeup_witness:
  "relay_inv waiting_relay \<and> (\<exists>i r1 wake r2. desired_interest waiting_relay Client 20 = (i, r1) \<and>
     next_wake waiting_relay Client 20 = (wake, r2) \<and> (is_write i \<or> (\<exists>t. wake = Some t \<and> 20 < t)))"
proof -
  obtain i r1 wake r2 where calls: "desired_interest waiting_relay (opposite Upstream) 20 = (i, r1)"
    "next_wake waiting_relay (opposite Upstream) 20 = (wake, r2)" by fastforce
  have "pred_option (channel_timely 20) (d_fault (direction_from waiting_relay Upstream))"
    using tb_example_ok(2) by (simp add: waiting_relay_def direction_from_def channel_timely_def tb_example_def)
  moreover have "write_open waiting_relay (opposite Upstream)" "\<not> (opposite Upstream = Upstream \<and> r_upstream_connecting waiting_relay)"
    "\<not> bq_empty (d_queue (direction_from waiting_relay Upstream))"
    by (simp_all add: waiting_relay_def read_relay_def relay_eval)
  ultimately show ?thesis
    using relay_no_lost_wakeup [OF waiting_relay_inv _ _ _ _ calls] calls waiting_relay_inv by auto
qed





text \<open>
  C12. Half-closes are forwarded in order. In every reachable state, if the write side towards the
  upstream is closed then the client has ended its stream and all of it has been sent on; the
  same holds towards the client unless the half-close was injected as a fault.
\<close>

theorem half_close_in_order:
  assumes "posix_kernel K received sent interruptions" and "relay_config_ok config"
    and "silent received sent env" and "fresh_sockets received sent w0 cfd ufd"
    and "relay_reachable strerror (system_socket_io K) env config cfd ufd w0 r w"
  shows "(\<not> r_upstream_write_open r \<longrightarrow> \<not> r_client_read_open r \<and> sent w ufd = received w cfd) \<and>
    (\<not> r_client_write_open r \<and> \<not> r_half_close_injected r \<longrightarrow>
       \<not> r_upstream_read_open r \<and> sent w cfd = received w ufd)"
proof -
  note good = relay_goodD [OF relay_reachable_good [OF posix_kernel.system_contract [OF assms(1)] assms(2-5)]]
  from closed_in_orderD [OF good(1)] good(2,3) show ?thesis by (auto simp: bq_empty_iff)
qed

theorem half_close_in_order_witness:
  "\<not> r_upstream_write_open forwarded_relay \<and> sw_received forwarded_world 4 = [7] \<and>
   sw_sent forwarded_world 5 = sw_received forwarded_world 4"
proof -
  have "\<not> r_upstream_write_open forwarded_relay" by (simp add: forwarded_relay_def on_event_def)
  with half_close_in_order [OF scripted_posix config_example_ok no_change_silent drain_start_fresh drain_reachable(2)]
  show ?thesis by (simp add: forwarded_world_def drain_sent_def drain_world_def)
qed

text \<open>
  C13. A drained connection has delivered everything. When a relay reports that it is fully
  drained and no half-close was injected, both streams have been delivered completely, so closing
  the sockets loses nothing.
\<close>

theorem fully_drained_delivered:
  assumes "posix_kernel K received sent interruptions" and "relay_config_ok config"
    and "silent received sent env" and "fresh_sockets received sent w0 cfd ufd"
    and "relay_reachable strerror (system_socket_io K) env config cfd ufd w0 r w"
    and "fully_drained r" and "\<not> r_half_close_injected r"
  shows "sent w ufd = received w cfd \<and> sent w cfd = received w ufd"
proof -
  note good = relay_goodD [OF relay_reachable_good [OF posix_kernel.system_contract [OF assms(1)] assms(2-5)]]
  from fully_drained_empty [OF good(1) assms(6,7)] good(2,3) show ?thesis by simp
qed

theorem fully_drained_delivered_witness:
  "fully_drained drained_relay \<and> sw_received (drain_sent []) 4 = [7] \<and>
   sw_sent (drain_sent []) 5 = sw_received (drain_sent []) 4"
proof -
  have "fully_drained drained_relay" "\<not> r_half_close_injected drained_relay"
    by (simp_all add: fully_drained_def drained_relay_def drain_eval)
  with fully_drained_delivered [OF scripted_posix config_example_ok no_change_silent drain_start_fresh drain_reachable(1)]
  show ?thesis by (simp add: drain_sent_def drain_world_def)
qed

text \<open>
  C32. A half-close injected while the upstream's direction is at its high-water mark wedges the
  connection: from such a state no sequence of relay calls and kernel events resumes reading, the
  upstream's end of stream is never noticed, and the relay never becomes fully drained.
\<close>

theorem injected_half_close_wedges:
  assumes "posix_kernel K received sent interruptions" and "silent received sent env"
    and "relay_good received sent fds high (r, w)" and "relay_stuck r"
    and "(relay_step strerror (system_socket_io K) env)\<^sup>*\<^sup>* (r, w) (r', w')"
  shows "relay_stuck r' \<and> \<not> fully_drained r'"
proof -
  note contract = posix_kernel.system_contract [OF assms(1)]
  from assms(5) have "relay_good received sent fds high (r', w') \<and> relay_stuck r'"
  proof (induction "(r', w')" arbitrary: r' w' rule: rtranclp_induct)
    case base
    with assms(3,4) show ?case by simp
  next
    case (step y r' w')
    have good: "relay_good received sent fds high y" "relay_stuck (fst y)" using step.hyps(3) [of "fst y" "snd y"] by simp_all
    then have "relay_inv (fst y)" by (cases y) (simp add: relay_good_def)
    with socket_contract.relay_stuck_step [OF contract step.hyps(2)] good(2) have "relay_stuck r'" by simp
    moreover have "relay_good received sent fds high (r', w')"
      using socket_contract.relay_step_good [OF contract step.hyps(2) good(1)] assms(2) by (simp add: silent_def)
    ultimately show ?case by simp
  qed
  then show ?thesis by (simp add: relay_stuck_def fully_drained_def)
qed

theorem injected_half_close_wedges_witness:
  "relay_reachable no_text scripted_io no_change config_example 4 5 world_example stuck_relay stuck_world \<and>
   {(r', w'). (relay_step no_text scripted_io no_change)\<^sup>*\<^sup>* (stuck_relay, stuck_world) (r', w') \<and> fully_drained r'} = {}"
proof -
  have "relay_stuck stuck_relay"
    by (simp add: relay_stuck_def stuck_relay_def relay_example_def direction_example_def)
  with injected_half_close_wedges [OF scripted_posix no_change_silent example_good [OF example_reachable(2)]]
    example_reachable(2) show ?thesis by blast
qed

lemma flush_step_result:
  assumes "flush_step strerror io d now st = Some (Halt (Inr (Some p, r, w)))"
  shows "pr_status p = CloseConnection"
  using assms unfolding flush_step_def Let_def
  by (auto simp: close_for_error_def split: prod.splits if_splits option.splits io_status.splits sum.splits)

text \<open>
  C31. The reset fault fires. A flush that lets the connection continue leaves the total number of
  forwarded bytes (in the 64-bit counters) below the configured reset threshold: once the
  threshold is reached the flush asks for the connection to be closed with a reset.
\<close>

theorem flush_stops_at_reset_threshold:
  assumes "flush strerror io d now r w = Some (Inr (pr, r', w'))" and "write_open r d"
    and "\<not> (d = Upstream \<and> r_upstream_connecting r)" and "pr_status pr = Continue"
    and "0 < r_reset_after_bytes r'"
  shows "m_client_bytes_written (r_metrics r') + m_upstream_bytes_written (r_metrics r') < r_reset_after_bytes r'"
proof -
  obtain res where loop: "run_loop (flush_step strerror io d now) (r, w) = Some (Inr res)"
    using assms(1-3) by (auto simp: flush_def split: option.splits sum.splits)
  obtain p r1 w1 where res: "res = (p, r1, w1)" by (cases res)
  have "\<forall>q r w. Inr res = (Inr (Some q, r, w) :: exn + _) \<longrightarrow> pr_status q = CloseConnection"
    by (rule run_loop_partial [OF loop]) (auto dest: flush_step_result)
  with assms loop res have "p = None" "check_lifecycle_faults io r1 w1 = (pr, r', w')"
    by (auto simp: flush_def split: option.splits)
  then show ?thesis
    using assms(4,5) unfolding check_lifecycle_faults_def Let_def
    by (auto simp: on_event_def split: if_splits prod.splits)
qed
theorem flush_stops_at_reset_threshold_witness:
  "\<exists>pr r' w'. flush no_text scripted_io Upstream 20 (drain_ended\<lparr>r_reset_after_bytes := 5\<rparr>) (drain_world [EndOfStream]) =
     Some (Inr (pr, r', w')) \<and> pr_status pr = Continue \<and>
     m_client_bytes_written (r_metrics r') + m_upstream_bytes_written (r_metrics r') < r_reset_after_bytes r'"
proof -
  let ?r = "drain_ended\<lparr>r_reset_after_bytes := 5\<rparr>" and ?r' = "drain_written\<lparr>r_reset_after_bytes := 5\<rparr>"
  have "flush_step no_text scripted_io Upstream 20 (?r, drain_world [EndOfStream]) =
      Some (Again (?r', drain_sent [EndOfStream]))"
    by (simp add: flush_step_def bq_readable_span_def consume_egress_def consume_direction_def bq_consume_def
        count_write_def system_socket_io_def drain_receive drain_eval)
  moreover have "flush_step no_text scripted_io Upstream 20 (?r', drain_sent [EndOfStream]) =
      Some (Halt (Inr (None, ?r', drain_sent [EndOfStream])))"
    by (simp add: flush_step_def drain_eval)
  ultimately have loop: "run_loop (flush_step no_text scripted_io Upstream 20) (?r, drain_world [EndOfStream]) =
      Some (Inr (None, ?r', drain_sent [EndOfStream]))"
    by (subst run_loop.simps, simp, subst run_loop.simps, simp)
  have "check_lifecycle_faults scripted_io ?r' (drain_sent [EndOfStream]) = (pump_continue, ?r', drain_sent [EndOfStream])"
    by (simp add: check_lifecycle_faults_def drain_eval word_le_nat_alt)
  with loop have fl: "flush no_text scripted_io Upstream 20 ?r (drain_world [EndOfStream]) =
      Some (Inr (pump_continue, ?r', drain_sent [EndOfStream]))"
    by (simp add: flush_def) (simp add: drain_eval)
  moreover have "write_open ?r Upstream" "\<not> r_upstream_connecting ?r" "0 < r_reset_after_bytes ?r'"
    "pr_status pump_continue = Continue"
    by (simp_all add: drain_eval pump_continue_def)
  ultimately show ?thesis using flush_stops_at_reset_threshold [OF fl] by blast
qed

end
