(* ===== verification/Relay_Refinement.thy ===== *)
theory Relay_Refinement
  imports Relay_Theorems
begin

text \<open>
  What the relay promises, without its queues, marks, faults and system calls: a pair of bounded
  channels. A channel takes bytes at one end while that end is open and there is room for them,
  hands them on in order at the other end while that is open, and shuts the other end only once its
  own input has ended and it is empty; towards the client it may also be shut by an injected
  half-close, which is recorded. The relay under any sequence of calls of the event loop is a
  refinement of this specification, by a functional abstraction of the relay and the sockets.
\<close>

section \<open>The specification\<close>

text \<open>
  \<open>dx_buffer s\<close> holds what was taken from side \<open>s\<close> and not handed on; \<open>dx_input s\<close> says
  whether side \<open>s\<close> may still send and \<open>dx_output s\<close> whether it can still be sent to.
\<close>

record duplex =
  dx_buffer :: "side \<Rightarrow> byte list"
  dx_input :: "side \<Rightarrow> bool"
  dx_output :: "side \<Rightarrow> bool"
  dx_taken :: "side \<Rightarrow> byte list"
  dx_handed :: "side \<Rightarrow> byte list"
  dx_injected :: bool

definition duplex_init :: duplex where
  "duplex_init = \<lparr>dx_buffer = (\<lambda>_. []), dx_input = (\<lambda>_. True), dx_output = (\<lambda>_. True),
     dx_taken = (\<lambda>_. []), dx_handed = (\<lambda>_. []), dx_injected = False\<rparr>"

inductive duplex_step :: "nat \<Rightarrow> duplex \<Rightarrow> duplex \<Rightarrow> bool" for bound where
  take_in: "dx_input D s \<Longrightarrow> length (dx_buffer D s) + length xs \<le> bound \<Longrightarrow>
    duplex_step bound D (D\<lparr>dx_buffer := (dx_buffer D)(s := dx_buffer D s @ xs),
      dx_taken := (dx_taken D)(s := dx_taken D s @ xs)\<rparr>)"
| hand_on: "dx_output D (opposite s) \<Longrightarrow>
    duplex_step bound D (D\<lparr>dx_buffer := (dx_buffer D)(s := drop k (dx_buffer D s)),
      dx_handed := (dx_handed D)(opposite s := dx_handed D (opposite s) @ take k (dx_buffer D s))\<rparr>)"
| input_ends: "duplex_step bound D (D\<lparr>dx_input := (dx_input D)(s := False)\<rparr>)"
| shut: "\<not> dx_input D s \<Longrightarrow> dx_buffer D s = [] \<Longrightarrow>
    duplex_step bound D (D\<lparr>dx_output := (dx_output D)(opposite s := False)\<rparr>)"
| inject: "duplex_step bound D (D\<lparr>dx_injected := True\<rparr>)"
| cut: "dx_injected D \<Longrightarrow> duplex_step bound D (D\<lparr>dx_output := (dx_output D)(Client := False)\<rparr>)"

inductive_cases duplex_stepE: "duplex_step bound D D'"

text \<open>What the specification itself guarantees in every state it reaches.\<close>

definition duplex_ok :: "nat \<Rightarrow> duplex \<Rightarrow> bool" where
  "duplex_ok bound D \<longleftrightarrow> (\<forall>s. dx_taken D s = dx_handed D (opposite s) @ dx_buffer D s \<and>
     length (dx_buffer D s) \<le> bound \<and>
     (\<not> dx_output D (opposite s) \<longrightarrow>
        \<not> dx_input D s \<and> dx_handed D (opposite s) = dx_taken D s \<or> s = Upstream \<and> dx_injected D))"

lemma duplex_init_ok: "duplex_ok bound duplex_init"
  by (simp add: duplex_ok_def duplex_init_def)

lemma opposite_eq [simp]: "opposite s = opposite s' \<longleftrightarrow> s = s'"
  by (metis opposite_simps(3))

lemma opposite_eq_iff [simp]: "opposite s = Client \<longleftrightarrow> s = Upstream" "opposite s = Upstream \<longleftrightarrow> s = Client"
  by (cases s; simp)+

lemma duplex_step_ok: "duplex_step bound D D' \<Longrightarrow> duplex_ok bound D \<Longrightarrow> duplex_ok bound D'"
proof (induction rule: duplex_step.induct)
  case (hand_on D s k)
  then have "length (dx_buffer D s) - k \<le> bound" by (meson diff_le_self duplex_ok_def le_trans)
  with hand_on show ?case by (auto simp: duplex_ok_def)
next
  case (take_in D s xs)
  then show ?case by (auto simp: duplex_ok_def)
next
  case (shut D s)
  then show ?case by (fastforce simp: duplex_ok_def)
next
  case (cut D)
  then show ?case by (auto simp: duplex_ok_def)
qed (auto simp: duplex_ok_def)

lemma duplex_steps_ok: "(duplex_step bound)\<^sup>*\<^sup>* D D' \<Longrightarrow> duplex_ok bound D \<Longrightarrow> duplex_ok bound D'"
  by (induction rule: rtranclp_induct) (auto intro: duplex_step_ok)

section \<open>The abstraction\<close>

definition duplex_of ::
  "('w \<Rightarrow> int \<Rightarrow> byte list) \<Rightarrow> ('w \<Rightarrow> int \<Rightarrow> byte list) \<Rightarrow> relay \<times> 'w \<Rightarrow> duplex" where
  "duplex_of received sent = (\<lambda>(r, w).
     \<lparr>dx_buffer = (\<lambda>s. bq_list (queue_from r s)), dx_input = read_open r, dx_output = write_open r,
      dx_taken = (\<lambda>s. received w (fd_for r s)), dx_handed = (\<lambda>s. sent w (fd_for r s)),
      dx_injected = r_half_close_injected r\<rparr>)"

text \<open>
  Each of the relay's effects is a short sequence of steps of the specification. Whether a write
  side was allowed to close is read off the invariant of the state that results.
\<close>

text \<open>Closing the outputs that a later state has closed, in any state with the right buffers and inputs.\<close>

lemma duplex_shut_outputs:
  assumes "relay_inv r'" and "\<And>s. dx_buffer D s = bq_list (queue_from r' s)"
    and "\<And>s. dx_input D s = read_open r' s" and "\<And>s. write_open r' s \<Longrightarrow> dx_output D s"
    and "dx_injected D \<Longrightarrow> r_half_close_injected r'"
  shows "(duplex_step bound)\<^sup>*\<^sup>* D (D\<lparr>dx_injected := r_half_close_injected r', dx_output := write_open r'\<rparr>)"
proof -
  let ?D1 = "D\<lparr>dx_injected := r_half_close_injected r'\<rparr>"
  have inj: "(duplex_step bound)\<^sup>*\<^sup>* D ?D1"
  proof (cases "r_half_close_injected r' = dx_injected D")
    case False
    with assms(5) have "r_half_close_injected r'" by blast
    then show ?thesis using duplex_step.inject [of bound D] by auto
  qed simp
  have shut: "(duplex_step bound)\<^sup>*\<^sup>* E (E\<lparr>dx_output := (dx_output E)(opposite s := write_open r' (opposite s))\<rparr>)"
    if "dx_buffer E = dx_buffer D" "dx_input E = dx_input D" "dx_injected E = r_half_close_injected r'"
      "dx_output E (opposite s) = dx_output D (opposite s)" for E s
  proof (cases "write_open r' (opposite s) = dx_output E (opposite s)")
    case True
    then show ?thesis by (simp add: fun_upd_idem)
  next
    case False
    with that assms(4) have closed: "\<not> write_open r' (opposite s)" by metis
    with relay_invD(3) [OF assms(1), of s] assms(2,3)
    have "\<not> dx_input D s \<and> dx_buffer D s = [] \<or> s = Upstream \<and> r_half_close_injected r'"
      by (simp add: closed_in_order_def bq_empty_iff)
    then have "duplex_step bound E (E\<lparr>dx_output := (dx_output E)(opposite s := False)\<rparr>)"
      using that duplex_step.shut [of E s bound] duplex_step.cut [of E bound] by auto
    with closed show ?thesis by simp
  qed
  let ?D2 = "?D1\<lparr>dx_output := (dx_output D)(Upstream := write_open r' Upstream)\<rparr>"
  have up: "(duplex_step bound)\<^sup>*\<^sup>* ?D1 ?D2" using shut [of ?D1 Client] by simp
  have "(duplex_step bound)\<^sup>*\<^sup>* ?D2
      (D\<lparr>dx_injected := r_half_close_injected r', dx_output := write_open r'\<rparr>)"
  proof -
    have "(dx_output ?D2)(Client := write_open r' Client) = write_open r'"
      using side.exhaust by (auto simp: fun_eq_iff)
    then show ?thesis using shut [of ?D2 Upstream] by simp
  qed
  then show ?thesis by (rule rtranclp_trans [OF rtranclp_trans [OF inj up]])
qed

lemma duplex_quiet:
  assumes "quiet_effect r r'" and "received w' = received w" and "sent w' = sent w"
  shows "(duplex_step bound)\<^sup>*\<^sup>* (duplex_of received sent (r, w)) (duplex_of received sent (r', w'))"
proof -
  let ?D = "duplex_of received sent (r, w)"
  have "duplex_of received sent (r', w') =
      ?D\<lparr>dx_injected := r_half_close_injected r', dx_output := write_open r'\<rparr>"
    using assms by (simp add: duplex_of_def quiet_effect_def fun_eq_iff)
  moreover have "(duplex_step bound)\<^sup>*\<^sup>* ?D (?D\<lparr>dx_injected := r_half_close_injected r', dx_output := write_open r'\<rparr>)"
    using assms(1) by (intro duplex_shut_outputs) (auto simp: duplex_of_def quiet_effect_def)
  ultimately show ?thesis by simp
qed

lemma duplex_read:
  assumes "relay_good received sent fds bound (r, w)" and "read_effect s xs r r'" and "sent w' = sent w"
    and "received w' = (received w)(fd_for r s := received w (fd_for r s) @ xs)"
  shows "(duplex_step bound)\<^sup>*\<^sup>* (duplex_of received sent (r, w)) (duplex_of received sent (r', w'))"
proof -
  let ?D = "duplex_of received sent (r, w)"
  let ?D1 = "?D\<lparr>dx_buffer := (dx_buffer ?D)(s := dx_buffer ?D s @ xs),
      dx_taken := (dx_taken ?D)(s := dx_taken ?D s @ xs)\<rparr>"
  have ne: "fd_for r (opposite s) \<noteq> fd_for r s" using assms(1) by (cases s) (auto simp: relay_good_def stream_inv_def)
  have eff: "bq_list (queue_from r' s) = bq_list (queue_from r s) @ xs" "xs \<noteq> [] \<Longrightarrow> read_open r s"
    "read_open r' (opposite s) = read_open r (opposite s)" "read_open r' s \<Longrightarrow> read_open r s"
    "\<And>s'. fd_for r' s' = fd_for r s'" "\<And>s'. write_open r' s' = write_open r s'"
    "direction_from r' (opposite s) = direction_from r (opposite s)"
    "r_half_close_injected r' = r_half_close_injected r"
    using assms(2) by (auto simp: read_effect_def)
  have "relay_good received sent fds bound (r', w')" by (rule relay_good_read [OF assms])
  then have "length (bq_list (queue_from r' s)) \<le> bound"
    using dir_wfD(4) [OF dir_inv_wf [OF relay_invD(1)], of r' s] by (simp add: relay_good_def)
  then have "duplex_step bound ?D ?D1" if "xs \<noteq> []"
    using duplex_step.take_in [of ?D s xs bound] eff(1,2) that by (simp add: duplex_of_def)
  then have "(duplex_step bound)\<^sup>*\<^sup>* ?D ?D1" by (cases "xs = []") auto
  moreover have "bq_list (queue_from r' s') = dx_buffer ?D1 s' \<and> received w' (fd_for r' s') = dx_taken ?D1 s'" for s'
    using eff(1,5,7) ne assms(4) side_cases [of s' s] by (auto simp: duplex_of_def)
  then have "duplex_of received sent (r', w') = ?D1\<lparr>dx_input := read_open r'\<rparr>"
    using eff(5,6,8) assms(3) by (simp add: duplex_of_def fun_eq_iff)
  moreover have "(duplex_step bound)\<^sup>*\<^sup>* ?D1 (?D1\<lparr>dx_input := read_open r'\<rparr>)"
  proof (cases "read_open r' s = read_open r s")
    case True
    then have "read_open r' s' = read_open r s'" for s' using eff(3) side_cases [of s' s] by auto
    then have "read_open r' = read_open r" by blast
    then show ?thesis by (simp add: duplex_of_def)
  next
    case False
    then have "read_open r' = (read_open r)(s := False)"
      using eff(3,4) side_cases [of _ s] by (auto simp: fun_eq_iff)
    then show ?thesis using duplex_step.input_ends [of bound ?D1 s] by (simp add: duplex_of_def)
  qed
  ultimately show ?thesis by (metis rtranclp_trans)
qed

lemma duplex_write:
  assumes "relay_good received sent fds bound (r, w)" and "relay_inv r'"
    and "direction_sent now k (direction_from r s) (direction_from r' s)"
    and "direction_from r' (opposite s) = direction_from r (opposite s)"
    and "0 < k \<Longrightarrow> write_open r (opposite s)" and "r_half_close_injected r \<Longrightarrow> r_half_close_injected r'"
    and "\<And>s'. fd_for r' s' = fd_for r s' \<and> read_open r' s' = read_open r s' \<and> (write_open r' s' \<longrightarrow> write_open r s')"
    and "received w' = received w" and "sent w' = (sent w)(fd_for r (opposite s) :=
       sent w (fd_for r (opposite s)) @ take k (bq_list (queue_from r s)))"
  shows "(duplex_step bound)\<^sup>*\<^sup>* (duplex_of received sent (r, w)) (duplex_of received sent (r', w'))"
proof -
  let ?D = "duplex_of received sent (r, w)"
  let ?D1 = "?D\<lparr>dx_buffer := (dx_buffer ?D)(s := drop k (dx_buffer ?D s)),
      dx_handed := (dx_handed ?D)(opposite s := dx_handed ?D (opposite s) @ take k (dx_buffer ?D s))\<rparr>"
  have ne: "fd_for r s \<noteq> fd_for r (opposite s)" using assms(1) by (cases s) (auto simp: relay_good_def stream_inv_def)
  have "duplex_step bound ?D ?D1" if "0 < k"
    using duplex_step.hand_on [of ?D s bound k] assms(5) that by (simp add: duplex_of_def)
  then have "(duplex_step bound)\<^sup>*\<^sup>* ?D ?D1" by (cases "k = 0") auto
  moreover
  have buf: "bq_list (queue_from r' s') = dx_buffer ?D1 s'" for s'
    using assms(3,4) side_cases [of s' s] by (auto simp: duplex_of_def direction_sent_def)
  have handed: "sent w' (fd_for r' s') = dx_handed ?D1 s'" for s'
    using assms(7,9) ne side_cases [of s' s] by (auto simp: duplex_of_def)
  have inputs: "dx_input ?D1 = read_open r'" "dx_taken ?D1 = (\<lambda>s. received w' (fd_for r' s))"
    using assms(7,8) by (simp_all add: duplex_of_def fun_eq_iff)
  have "duplex_of received sent (r', w') = ?D1\<lparr>dx_injected := r_half_close_injected r', dx_output := write_open r'\<rparr>"
    using buf handed inputs by (simp add: duplex_of_def fun_eq_iff)
  moreover have "(duplex_step bound)\<^sup>*\<^sup>* ?D1
      (?D1\<lparr>dx_injected := r_half_close_injected r', dx_output := write_open r'\<rparr>)"
  proof (rule duplex_shut_outputs [OF assms(2)])
    show "dx_output ?D1 s'" if "write_open r' s'" for s' using that assms(7) by (simp add: duplex_of_def)
    show "r_half_close_injected r'" if "dx_injected ?D1" using that assms(6) by (simp add: duplex_of_def)
  qed (simp_all add: buf inputs)
  ultimately show ?thesis by (metis rtranclp_trans)
qed

lemma duplex_refreshed:
  assumes "relay_good received sent fds bound (r, w)"
  shows "duplex_of received sent (refreshed r s limit now, w) = duplex_of received sent (r, w)"
proof -
  have eff: "write_effect s now 0 r (refreshed r s limit now)"
    using assms refreshed_write_effect by (simp add: relay_good_def)
  then have life: "same_lifecycle r (refreshed r s limit now)" by (simp add: write_effect_def)
  have "bq_list (queue_from (refreshed r s limit now) s') = bq_list (queue_from r s')" for s'
    using eff side_cases [of s' s] by (auto simp: write_effect_def direction_sent_def)
  with same_lifecycleD [OF life] show ?thesis by (simp add: duplex_of_def fun_eq_iff)
qed

section \<open>The refinement\<close>

context socket_contract
begin

lemma relay_step_duplex:
  assumes "relay_step strerror io env st st'" and "relay_good received sent fds bound st"
    and env: "\<And>w w'. env w w' \<Longrightarrow> received w' = received w \<and> sent w' = sent w"
  shows "(duplex_step bound)\<^sup>*\<^sup>* (duplex_of received sent st) (duplex_of received sent st')"
  using assms(1)
proof (cases rule: relay_step.cases)
  case (environment w w' r)
  with env [of w w'] show ?thesis by (simp add: duplex_of_def)
next
  case (connected r w)
  have "duplex_of received sent st' = duplex_of received sent st"
    using connected by (simp add: duplex_of_def fun_eq_iff mark_upstream_connected_def)
      (simp add: refresh_state_def)
  then show ?thesis by simp
next
  case (readable s hup now r w pr r' w')
  then have good: "relay_good received sent fds bound (r, w)" and "relay_inv r"
    using assms(2) by (simp_all add: relay_good_def)
  with handle_readable_ok [of r strerror s hup now w] readable
  obtain xs where "read_effect s xs r r'" "sent w' = sent w"
      "received w' = (received w)(fd_for r s := received w (fd_for r s) @ xs)"
    by (auto simp: read_post_def)
  with readable duplex_read [OF good] show ?thesis by simp
next
  case (flushed s now r w pr r' w')
  then have good: "relay_good received sent fds bound (r, w)" and "relay_inv r"
    using assms(2) by (simp_all add: relay_good_def)
  with flush_ok [of r strerror "opposite s" now w] flushed
  have "flush_post (opposite s) now r w (Inr (pr, r', w'))" by auto
  then show ?thesis
    unfolding flush_post_def flushed(1,2) by (auto intro!: duplex_write [OF good, where s = "opposite s" and now = now])
next
  case (half_closes r w r' w')
  with assms(2) propagate_half_closes_ok [of r w r' w'] duplex_quiet [of r r' received w' w sent bound]
  show ?thesis by (simp add: relay_good_def)
next
  case (woken r s now t r' w)
  with assms(2) next_wake_relay [of r "opposite s" now t r'] duplex_refreshed show ?thesis by fastforce
next
  case (interest r s now i r' w)
  with assms(2) desired_interest_relay [of r "opposite s" now i r'] duplex_refreshed show ?thesis by fastforce
qed

lemma relay_steps_duplex:
  assumes "(relay_step strerror io env)\<^sup>*\<^sup>* st st'" and "relay_good received sent fds bound st"
    and env: "\<And>w w'. env w w' \<Longrightarrow> received w' = received w \<and> sent w' = sent w"
  shows "(duplex_step bound)\<^sup>*\<^sup>* (duplex_of received sent st) (duplex_of received sent st')"
  using assms(1)
proof (induction rule: rtranclp_induct)
  case (step y z)
  have "relay_good received sent fds bound y"
    using relay_steps_good [OF step.hyps(1) assms(2)] env by blast
  from relay_step_duplex [OF step.hyps(2) this] env step.IH show ?case by (meson rtranclp_trans)
qed simp

end

lemma relay_new_duplex:
  assumes "relay_config_ok config" and "fresh_sockets received sent w cfd ufd"
    and "relay_new config plan cid cfd ufd connecting t0 = Inr r"
  shows "duplex_of received sent (r, w) = duplex_init"
proof -
  have "\<not> r_half_close_injected r"
    using assms(3) by (auto simp: relay_new_def Let_def split: sum.splits if_splits)
  moreover have "received w (fd_for r s) = [] \<and> sent w (fd_for r s) = [] \<and> bq_list (queue_from r s) = [] \<and>
      read_open r s \<and> write_open r s" for s
    using relay_new_ok [OF assms(1), of plan cid cfd ufd connecting t0] assms(2,3)
    by (cases s) (auto simp: fresh_sockets_def)
  ultimately show ?thesis by (simp add: duplex_of_def duplex_init_def fun_eq_iff)
qed

text \<open>
  C3. The relay refines a pair of bounded channels. Whatever the event loop calls and in whatever
  order, whatever the kernel accepts, delivers or refuses, and whatever faults are planned, every
  state the relay and its sockets reach is, seen through the abstraction, a state that the
  specification reaches from its initial one: bytes are taken in only while there is room below
  the high-water mark, are handed on in order to an open side, and a side is shut only when its
  source has ended and drained or by the recorded injected half-close.
\<close>

theorem relay_refines_duplex:
  assumes "posix_kernel K received sent interruptions" and "relay_config_ok config"
    and "silent received sent env" and "fresh_sockets received sent w0 cfd ufd"
    and "relay_reachable strerror (system_socket_io K) env config cfd ufd w0 r w"
  shows "(duplex_step (rc_high_water_bytes config))\<^sup>*\<^sup>* duplex_init (duplex_of received sent (r, w))"
proof -
  note contract = posix_kernel.system_contract [OF assms(1)]
  obtain plan cid connecting t0 r0 where r0: "relay_new config plan cid cfd ufd connecting t0 = Inr r0"
    and steps: "(relay_step strerror (system_socket_io K) env)\<^sup>*\<^sup>* (r0, w0) (r, w)"
    using assms(5) by (auto simp: relay_reachable_def)
  have "relay_reachable strerror (system_socket_io K) env config cfd ufd w0 r0 w0"
    unfolding relay_reachable_def using r0 by blast
  note good = relay_reachable_good [OF contract assms(2-4) this]
  from socket_contract.relay_steps_duplex [OF contract steps good] assms(3) relay_new_duplex [OF assms(2,4) r0]
  show ?thesis by (simp add: silent_def)
qed

theorem relay_refines_duplex_witness:
  "(duplex_step 2)\<^sup>*\<^sup>* duplex_init (duplex_of sw_received sw_sent (drained_relay, drain_sent [])) \<and>
   dx_handed (duplex_of sw_received sw_sent (drained_relay, drain_sent [])) Upstream = [7]"
proof -
  have "rc_high_water_bytes config_example = 2" by (simp add: config_example_def)
  then have "(duplex_step 2)\<^sup>*\<^sup>* duplex_init (duplex_of sw_received sw_sent (drained_relay, drain_sent []))"
    using relay_refines_duplex [OF scripted_posix config_example_ok no_change_silent drain_start_fresh drain_reachable(1)]
    by simp
  moreover have "fd_for drained_relay Upstream = 5"
    by (simp add: drained_relay_def drain_eval)
  ultimately show ?thesis by (simp add: duplex_of_def drain_sent_def)
qed

end
