(* ===== verification/Timer_Queue.thy ===== *)
theory Timer_Queue
  imports Netfault_Prelude "HOL-Library.Multiset" "HOL-Library.Product_Lexorder"
begin

text \<open>
  \<^verbatim>\<open>include/netfault/timer_queue.hpp\<close>: deadlines keyed by (deadline, sequence). The
  \<^verbatim>\<open>std::priority_queue\<close> is the list of its elements in the order in which it pops them; sequence
  numbers are fresh, so that order is determined by the comparator. The interface of a timer
  store is a locale, and the queue is shown to keep its promises.
\<close>

section \<open>State and operations\<close>

datatype timer_kind = Pump | IdleTimeout | ConnectTimeout

record timer_event =
  te_deadline :: time
  te_sequence :: nat
  te_connection_id :: nat
  te_kind :: timer_kind

text \<open>The comparator \<^verbatim>\<open>Later\<close> of the priority queue, and the key it compares.\<close>

definition te_later :: "timer_event \<Rightarrow> timer_event \<Rightarrow> bool" where
  "te_later left right =
     (if te_deadline left \<noteq> te_deadline right then te_deadline left > te_deadline right
      else te_sequence left > te_sequence right)"

definition te_key :: "timer_event \<Rightarrow> time \<times> nat" where
  "te_key e = (te_deadline e, te_sequence e)"

text \<open>Pushing moves behind everything the new element is later than.\<close>

fun heap_push :: "timer_event \<Rightarrow> timer_event list \<Rightarrow> timer_event list" where
  "heap_push e [] = [e]"
| "heap_push e (x # xs) = (if te_later e x then x # heap_push e xs else e # x # xs)"

record timer_queue =
  tq_heap :: "timer_event list"
  tq_next_sequence :: nat

definition tq_new :: timer_queue where
  "tq_new = \<lparr>tq_heap = [], tq_next_sequence = 1\<rparr>"

definition tq_schedule :: "timer_queue \<Rightarrow> time \<Rightarrow> nat \<Rightarrow> timer_kind \<Rightarrow> timer_queue" where
  "tq_schedule q deadline connection_id kind =
     q\<lparr>tq_heap := heap_push \<lparr>te_deadline = deadline, te_sequence = tq_next_sequence q,
                             te_connection_id = connection_id, te_kind = kind\<rparr> (tq_heap q),
       tq_next_sequence := tq_next_sequence q + 1\<rparr>"

definition tq_pop_due :: "timer_queue \<Rightarrow> time \<Rightarrow> timer_event option \<times> timer_queue" where
  "tq_pop_due q now =
     (case tq_heap q of
        [] \<Rightarrow> (None, q)
      | e # rest \<Rightarrow> if te_deadline e > now then (None, q) else (Some e, q\<lparr>tq_heap := rest\<rparr>))"

definition tq_next_deadline :: "timer_queue \<Rightarrow> time option" where
  "tq_next_deadline q = (case tq_heap q of [] \<Rightarrow> None | e # _ \<Rightarrow> Some (te_deadline e))"

definition tq_size :: "timer_queue \<Rightarrow> nat" where
  "tq_size q = length (tq_heap q)"

definition tq_inv :: "timer_queue \<Rightarrow> bool" where
  "tq_inv q \<longleftrightarrow> sorted (map te_key (tq_heap q)) \<and> distinct (map te_sequence (tq_heap q)) \<and>
     (\<forall>e \<in> set (tq_heap q). te_sequence e < tq_next_sequence q)"

text \<open>Popping everything that is due, as the caller's loop does when nothing is added meanwhile.\<close>

fun pop_all_due :: "nat \<Rightarrow> timer_queue \<Rightarrow> time \<Rightarrow> timer_event list \<times> timer_queue" where
  "pop_all_due 0 q now = ([], q)"
| "pop_all_due (Suc fuel) q now =
     (case tq_pop_due q now of
        (None, q') \<Rightarrow> ([], q')
      | (Some e, q') \<Rightarrow> (let (es, q'') = pop_all_due fuel q' now in (e # es, q'')))"

section \<open>The interface of a timer store\<close>

text \<open>
  What the event loop relies on: scheduling adds exactly one entry, a pop removes a due entry with
  the least key and fails only when none is due, and the deadline reported is the least one.
\<close>

locale timer_store =
  fixes invar :: "'q \<Rightarrow> bool"
    and entries :: "'q \<Rightarrow> timer_event multiset"
    and schedule :: "'q \<Rightarrow> time \<Rightarrow> nat \<Rightarrow> timer_kind \<Rightarrow> 'q"
    and pop_due :: "'q \<Rightarrow> time \<Rightarrow> timer_event option \<times> 'q"
    and next_deadline :: "'q \<Rightarrow> time option"
  assumes schedule_entry: "invar q \<Longrightarrow> \<exists>e. te_deadline e = t \<and> te_connection_id e = c \<and> te_kind e = k \<and>
      invar (schedule q t c k) \<and> entries (schedule q t c k) = add_mset e (entries q)"
    and pop_none: "invar q \<Longrightarrow> pop_due q now = (None, q') \<Longrightarrow>
      q' = q \<and> (\<forall>e \<in># entries q. now < te_deadline e)"
    and pop_some: "invar q \<Longrightarrow> pop_due q now = (Some e, q') \<Longrightarrow>
      invar q' \<and> e \<in># entries q \<and> te_deadline e \<le> now \<and> entries q' = entries q - {#e#} \<and>
      (\<forall>x \<in># entries q. te_key e \<le> te_key x)"
    and next_none: "invar q \<Longrightarrow> next_deadline q = None \<longleftrightarrow> entries q = {#}"
    and next_some: "invar q \<Longrightarrow> next_deadline q = Some t \<Longrightarrow>
      (\<exists>e \<in># entries q. te_deadline e = t) \<and> (\<forall>e \<in># entries q. t \<le> te_deadline e)"
begin

lemma pop_shrinks:
  assumes "invar q" and "pop_due q now = (Some e, q')"
  shows "size (entries q') < size (entries q)"
  using pop_some [OF assms] by (simp add: size_Diff1_less)

text \<open>Nothing due is reported exactly when the next deadline lies in the future.\<close>

lemma pop_none_iff:
  assumes "invar q"
  shows "fst (pop_due q now) = None \<longleftrightarrow> (\<forall>t. next_deadline q = Some t \<longrightarrow> now < t)"
proof
  assume "fst (pop_due q now) = None"
  then have "\<forall>e \<in># entries q. now < te_deadline e"
    using pop_none [OF assms] by (metis prod.collapse)
  then show "\<forall>t. next_deadline q = Some t \<longrightarrow> now < t"
    using next_some [OF assms] by auto
next
  assume later: "\<forall>t. next_deadline q = Some t \<longrightarrow> now < t"
  show "fst (pop_due q now) = None"
  proof (rule ccontr)
    assume "fst (pop_due q now) \<noteq> None"
    then obtain e q' where pop: "pop_due q now = (Some e, q')" by (cases "pop_due q now") auto
    from pop_some [OF assms pop] have e: "e \<in># entries q" "te_deadline e \<le> now" by auto
    then obtain t where "next_deadline q = Some t" using next_none [OF assms] by (cases "next_deadline q") auto
    with later e next_some [OF assms this] show False by fastforce
  qed
qed

end

section \<open>Lemmas\<close>

lemma te_later_key: "te_later a b \<longleftrightarrow> te_key b < te_key a"
  by (auto simp: te_later_def te_key_def less_prod_def)

lemma heap_push_mset [simp]: "mset (heap_push e xs) = add_mset e (mset xs)"
  by (induction xs) simp_all

lemma heap_push_set [simp]: "set (heap_push e xs) = insert e (set xs)"
  by (induction xs) auto

lemma heap_push_sorted: "sorted (map te_key xs) \<Longrightarrow> sorted (map te_key (heap_push e xs))"
  by (induction xs) (auto simp: te_later_key not_less intro: order.trans less_imp_le)

lemma heap_push_distinct:
  "distinct (map te_sequence (heap_push e xs)) \<longleftrightarrow> distinct (map te_sequence (e # xs))"
  by (induction xs) auto

lemma tq_schedule_inv [inv_intros]: "tq_inv q \<Longrightarrow> tq_inv (tq_schedule q t c k)"
  by (auto simp: tq_inv_def tq_schedule_def heap_push_sorted heap_push_distinct less_Suc_eq)

lemma tq_pop_due_inv [inv_intros]: "tq_inv q \<Longrightarrow> tq_inv (snd (tq_pop_due q now))"
  by (auto simp: tq_inv_def tq_pop_due_def split: list.splits)

lemma tq_new_inv [inv_intros]: "tq_inv tq_new"
  by (simp add: tq_new_def tq_inv_def)

lemma te_key_le_deadline: "te_key a \<le> te_key b \<Longrightarrow> te_deadline a \<le> te_deadline b"
  by (auto simp: te_key_def less_eq_prod_def)

interpretation tq: timer_store tq_inv "\<lambda>q. mset (tq_heap q)" tq_schedule tq_pop_due tq_next_deadline
proof unfold_locales
  fix q t c k
  assume inv: "tq_inv q"
  show "\<exists>e. te_deadline e = t \<and> te_connection_id e = c \<and> te_kind e = k \<and> tq_inv (tq_schedule q t c k) \<and>
      mset (tq_heap (tq_schedule q t c k)) = add_mset e (mset (tq_heap q))"
    by (rule exI [of _ "\<lparr>te_deadline = t, te_sequence = tq_next_sequence q, te_connection_id = c, te_kind = k\<rparr>"])
       (use tq_schedule_inv [OF inv, of t c k] in \<open>simp add: tq_schedule_def\<close>)
next
  fix q now q'
  assume "tq_inv q" and "tq_pop_due q now = (None, q')"
  then show "q' = q \<and> (\<forall>e \<in># mset (tq_heap q). now < te_deadline e)"
    by (cases "tq_heap q")
       (auto simp: tq_inv_def tq_pop_due_def split: if_splits dest!: te_key_le_deadline)
next
  fix q now e q'
  assume "tq_inv q" and "tq_pop_due q now = (Some e, q')"
  then show "tq_inv q' \<and> e \<in># mset (tq_heap q) \<and> te_deadline e \<le> now \<and>
      mset (tq_heap q') = mset (tq_heap q) - {#e#} \<and> (\<forall>x \<in># mset (tq_heap q). te_key e \<le> te_key x)"
    by (auto simp: tq_inv_def tq_pop_due_def split: list.splits if_splits)
next
  fix q
  assume "tq_inv q"
  then show "tq_next_deadline q = None \<longleftrightarrow> mset (tq_heap q) = {#}"
    by (simp add: tq_next_deadline_def split: list.splits)
next
  fix q t
  assume "tq_inv q" and "tq_next_deadline q = Some t"
  then show "(\<exists>e \<in># mset (tq_heap q). te_deadline e = t) \<and> (\<forall>e \<in># mset (tq_heap q). t \<le> te_deadline e)"
    by (cases "tq_heap q") (auto simp: tq_inv_def tq_next_deadline_def dest!: te_key_le_deadline)
qed

text \<open>The due entries are a prefix of the queue.\<close>

lemma pop_all_due_split:
  assumes "tq_inv q" and "length (tq_heap q) \<le> fuel"
  shows "pop_all_due fuel q now =
    (takeWhile (\<lambda>e. te_deadline e \<le> now) (tq_heap q),
     q\<lparr>tq_heap := dropWhile (\<lambda>e. te_deadline e \<le> now) (tq_heap q)\<rparr>)"
  using assms
proof (induction fuel arbitrary: q)
  case 0
  then show ?case by simp
next
  case (Suc fuel)
  show ?case
  proof (cases "tq_heap q")
    case Nil
    then show ?thesis by (simp add: tq_pop_due_def)
  next
    case (Cons e es)
    with Suc.prems have "tq_inv (q\<lparr>tq_heap := es\<rparr>)" by (simp add: tq_inv_def)
    with Suc.IH [of "q\<lparr>tq_heap := es\<rparr>"] Suc.prems(2) Cons show ?thesis
      by (simp add: tq_pop_due_def)
  qed
qed

lemma sorted_deadlines_dropWhile:
  assumes "sorted (map te_key es)" and "x \<in> set (dropWhile (\<lambda>e. te_deadline e \<le> now) es)"
  shows "now < te_deadline x"
  using assms
proof (induction es)
  case (Cons e es)
  then show ?case by (cases "te_deadline e \<le> now") (auto dest!: te_key_le_deadline)
qed simp

section \<open>Properties\<close>

text \<open>
  C18. Timers fire in order, all of them, and none early. Popping until nothing is due returns
  exactly the entries whose deadline has passed, ordered by deadline and, for equal deadlines, by
  the order in which they were scheduled; what stays in the queue is exactly the rest, and as
  many pops as there are entries suffice.
\<close>

theorem pop_all_due_exact:
  assumes "tq_inv q"
  shows "let (es, q') = pop_all_due (tq_size q) q now in
    mset es = filter_mset (\<lambda>e. te_deadline e \<le> now) (mset (tq_heap q)) \<and>
    sorted (map te_key es) \<and> tq_inv q' \<and>
    mset (tq_heap q') = filter_mset (\<lambda>e. now < te_deadline e) (mset (tq_heap q))"
proof -
  let ?due = "\<lambda>e. te_deadline e \<le> now"
  define front where "front = takeWhile ?due (tq_heap q)"
  define later where "later = dropWhile ?due (tq_heap q)"
  have split: "tq_heap q = front @ later" by (simp add: front_def later_def)
  have "\<forall>e \<in> set front. te_deadline e \<le> now"
    unfolding front_def by (auto dest: set_takeWhileD)
  moreover have "\<forall>e \<in> set later. now < te_deadline e"
    using sorted_deadlines_dropWhile assms unfolding later_def tq_inv_def by blast
  ultimately have "filter ?due (tq_heap q) = front" "filter (\<lambda>e. now < te_deadline e) (tq_heap q) = later"
    unfolding split filter_append by (auto simp: filter_id_conv filter_empty_conv not_le)
  moreover have "tq_inv (q\<lparr>tq_heap := later\<rparr>)" "sorted (map te_key front)"
    using assms by (auto simp: tq_inv_def split sorted_append)
  ultimately show ?thesis
    using pop_all_due_split [OF assms, of "tq_size q" now]
    by (simp add: tq_size_def front_def [symmetric] later_def [symmetric] mset_filter [symmetric])
qed

definition timer_queue_example :: timer_queue where
  "timer_queue_example =
     tq_schedule (tq_schedule (tq_schedule tq_new 50 1 Pump) 20 2 IdleTimeout) 20 3 Pump"

theorem pop_all_due_exact_witness:
  "tq_inv timer_queue_example \<and>
   map te_connection_id (fst (pop_all_due (tq_size timer_queue_example) timer_queue_example 30)) = [2, 3] \<and>
   sorted (map te_key (fst (pop_all_due (tq_size timer_queue_example) timer_queue_example 30)))"
proof -
  have inv: "tq_inv timer_queue_example"
    by (simp add: timer_queue_example_def tq_schedule_inv tq_new_inv)
  have "map te_connection_id (fst (pop_all_due (tq_size timer_queue_example) timer_queue_example 30)) = [2, 3]"
    by (simp add: pop_all_due_split [OF inv] tq_size_def)
       (simp add: timer_queue_example_def tq_schedule_def tq_new_def te_later_def)
  with inv pop_all_due_exact [OF inv, of 30] show ?thesis
    by (auto simp: case_prod_unfold Let_def)
qed

end
