(* ===== verification/Endpoint.thy ===== *)
theory Endpoint
  imports Charconv
begin

text \<open>
  \<^verbatim>\<open>include/netfault/endpoint.hpp\<close> and \<^verbatim>\<open>src/common/endpoint.cpp\<close>: numeric IPv4 endpoints. The C
  library's \<^verbatim>\<open>inet_pton\<close> is a parameter that maps a text to the address in host byte order, or to
  nothing when the text is not a numeric IPv4 address.
\<close>

unbundle bit_operations_syntax

type_synonym inet_pton = "string \<Rightarrow> 32 word option"

record endpoint =
  ep_host :: string
  ep_port :: "16 word"

text \<open>\<^verbatim>\<open>std::string_view::rfind\<close> of a character, and \<^verbatim>\<open>std::string::c_str\<close> read as a C string.\<close>

fun rfind :: "char \<Rightarrow> string \<Rightarrow> nat option" where
  "rfind c [] = None"
| "rfind c (x # xs) =
     (case rfind c xs of
        Some i \<Rightarrow> Some (Suc i)
      | None \<Rightarrow> if x = c then Some 0 else None)"

definition c_str :: "string \<Rightarrow> string" where
  "c_str s = takeWhile (\<lambda>c. c \<noteq> CHR 0x00) s"

definition ep_parse :: "inet_pton \<Rightarrow> string \<Rightarrow> exn + endpoint" where
  "ep_parse pton text =
     (case rfind (CHR '':'') text of
        None \<Rightarrow> Inl (InvalidArgument ''endpoint must use numeric IPv4 HOST:PORT syntax'')
      | Some separator \<Rightarrow>
          if separator = 0 \<or> separator + 1 \<ge> length text
          then Inl (InvalidArgument ''endpoint must use numeric IPv4 HOST:PORT syntax'')
          else
            let host = take separator text; port_text = drop (separator + 1) text
            in case from_chars 4294967295 port_text of
                 Inl _ \<Rightarrow> Inl (InvalidArgument ''endpoint port must be an integer from 1 to 65535'')
               | Inr (parsed_port, rest) \<Rightarrow>
                   if rest \<noteq> [] \<or> parsed_port = 0 \<or> parsed_port > 65535
                   then Inl (InvalidArgument ''endpoint port must be an integer from 1 to 65535'')
                   else if pton (c_str host) = None
                   then Inl (InvalidArgument ''endpoint host must be a numeric IPv4 address'')
                   else Inr \<lparr>ep_host = host, ep_port = of_nat parsed_port\<rparr>)"

text \<open>\<^verbatim>\<open>to_sockaddr\<close>: the address and the port, both in host byte order.\<close>

definition ep_to_sockaddr :: "inet_pton \<Rightarrow> endpoint \<Rightarrow> exn + (32 word \<times> 16 word)" where
  "ep_to_sockaddr pton e =
     (case pton (c_str (ep_host e)) of
        None \<Rightarrow> Inl (InvalidArgument ''invalid numeric IPv4 address'')
      | Some address \<Rightarrow> Inr (address, ep_port e))"

definition ep_is_loopback :: "inet_pton \<Rightarrow> endpoint \<Rightarrow> exn + bool" where
  "ep_is_loopback pton e =
     (case ep_to_sockaddr pton e of
        Inl x \<Rightarrow> Inl x
      | Inr (host_order, _) \<Rightarrow> Inr ((host_order AND 0xFF000000) = 0x7F000000))"

definition ep_to_string :: "endpoint \<Rightarrow> string" where
  "ep_to_string e = ep_host e @ '':'' @ nat_to_string (unat (ep_port e))"

section \<open>Lemmas\<close>

lemma rfind_None: "rfind c xs = None \<longleftrightarrow> c \<notin> set xs"
  by (induction xs) (auto split: option.splits)

lemma rfind_append: "c \<notin> set ys \<Longrightarrow> rfind c (xs @ c # ys) = Some (length xs)"
  by (induction xs) (auto simp: rfind_None split: option.splits)

lemma rfind_Some:
  "rfind c xs = Some i \<Longrightarrow> i < length xs \<and> xs ! i = c \<and> c \<notin> set (drop (Suc i) xs)"
proof (induction xs arbitrary: i)
  case (Cons x xs)
  then show ?case
    by (cases "rfind c xs") (auto simp: rfind_None split: if_splits)
qed simp

lemma colon_not_digit: "CHR '':'' \<notin> set (nat_to_string n)"
proof
  assume "CHR '':'' \<in> set (nat_to_string n)"
  then have "is_digit_char (CHR '':'')" by (rule nat_to_string_digits)
  then show False by (simp add: is_digit_char_def)
qed

lemma ep_parse_ok:
  assumes "ep_parse pton text = Inr e"
  shows "ep_port e \<noteq> 0" and "\<exists>address. pton (c_str (ep_host e)) = Some address" and "ep_host e \<noteq> []"
proof -
  obtain i p where i: "rfind (CHR '':'') text = Some i" "i \<noteq> 0"
    and p: "from_chars 4294967295 (drop (i + 1) text) = Inr (p, [])" "p \<noteq> 0" "p \<le> 65535"
    and e: "pton (c_str (take i text)) \<noteq> None" "e = \<lparr>ep_host = take i text, ep_port = of_nat p\<rparr>"
    using assms by (auto simp: ep_parse_def Let_def split: option.splits if_splits sum.splits)
  have "unat (of_nat p :: 16 word) = p" using p(3) by (simp add: unat_of_nat)
  with p(2) e have "unat (ep_port e) \<noteq> 0" by simp
  then show "ep_port e \<noteq> 0" by auto
  show "\<exists>address. pton (c_str (ep_host e)) = Some address" using e by auto
  show "ep_host e \<noteq> []" using i e rfind_Some [OF i(1)] by auto
qed

section \<open>Properties\<close>

text \<open>
  C37. Endpoint round trip. Printing an endpoint with a non-zero port and a host the address
  parser accepts, and parsing the text, gives the endpoint back; conversely every parsed endpoint
  has these properties, so its address can always be formed and it survives the round trip.
\<close>

theorem endpoint_round_trip:
  assumes "ep_port e \<noteq> 0" and "pton (c_str (ep_host e)) \<noteq> None" and "ep_host e \<noteq> []"
  shows "ep_parse pton (ep_to_string e) = Inr e \<and>
    (\<forall>text e'. ep_parse pton text = Inr e' \<longrightarrow> ep_parse pton (ep_to_string e') = Inr e')"
proof -
  have trip: "ep_parse pton (ep_to_string e) = Inr e"
    if "ep_port e \<noteq> 0" and "pton (c_str (ep_host e)) \<noteq> None" and "ep_host e \<noteq> []" for e
  proof -
    have "unat (ep_port e) \<le> 65535" "unat (ep_port e) \<noteq> 0"
      using unsigned_less [of "ep_port e", where ?'a = nat] that(1) by (simp_all add: unat_eq_0)
    then show ?thesis
      using that by (simp add: ep_parse_def ep_to_string_def rfind_append colon_not_digit Let_def)
  qed
  from trip [OF assms] trip ep_parse_ok show ?thesis by (metis option.distinct(1))
qed

theorem endpoint_round_trip_witness:
  "ep_parse (\<lambda>host. if host = ''127.0.0.1'' then Some 0x7F000001 else None)
     (ep_to_string \<lparr>ep_host = ''127.0.0.1'', ep_port = 8080\<rparr>) = Inr \<lparr>ep_host = ''127.0.0.1'', ep_port = 8080\<rparr>"
proof -
  let ?e = "\<lparr>ep_host = ''127.0.0.1'', ep_port = 8080\<rparr>"
  let ?pton = "\<lambda>host. if host = ''127.0.0.1'' then Some (0x7F000001 :: 32 word) else None"
  have "ep_port ?e \<noteq> 0" and "?pton (c_str (ep_host ?e)) \<noteq> None" and "ep_host ?e \<noteq> []"
    by (simp_all add: c_str_def)
  from endpoint_round_trip [OF this(1), of ?pton, OF this(2,3)] show ?thesis by blast
qed

end
