(* ===== verification/Logger.thy ===== *)
theory Logger
  imports Charconv Socket_Io
begin

text \<open>
  \<^verbatim>\<open>include/netfault/logger.hpp\<close> and \<^verbatim>\<open>src/common/logger.cpp\<close>: JSON Lines events on a non-blocking
  standard output. The wall clock and the system call \<^verbatim>\<open>write\<close> are parameters; an event that
  cannot be written whole is counted as dropped.
\<close>

unbundle bit_operations_syntax

record logger =
  lg_dropped_events :: u64

text \<open>
  The constructor makes the standard output non-blocking; \<^verbatim>\<open>fcntl\<close> returns the file status flags or a
  negative number, and the result of setting them is ignored.
\<close>

definition O_NONBLOCK :: int where "O_NONBLOCK = 2048"

definition logger_new :: "('w \<Rightarrow> int \<times> 'w) \<Rightarrow> (int \<Rightarrow> 'w \<Rightarrow> 'w) \<Rightarrow> 'w \<Rightarrow> logger \<times> 'w" where
  "logger_new get_flags set_flags w =
     (let (flags, w) = get_flags w; lg = \<lparr>lg_dropped_events = 0\<rparr> in
      if flags \<ge> 0 then (lg, set_flags (flags OR O_NONBLOCK) w) else (lg, w))"

definition escape_char :: "char \<Rightarrow> string" where
  "escape_char c =
     (if c = CHR 0x5C then [CHR 0x5C, CHR 0x5C]
      else if c = CHR 0x22 then [CHR 0x5C, CHR 0x22]
      else if c = CHR 0x0A then [CHR 0x5C, CHR ''n'']
      else if c = CHR 0x0D then [CHR 0x5C, CHR ''r'']
      else if c = CHR 0x09 then [CHR 0x5C, CHR ''t'']
      else if (of_char c :: nat) \<ge> 0x20 then [c]
      else [])"

definition escape_json :: "string \<Rightarrow> string" where
  "escape_json s = concat (map escape_char s)"

definition event_line :: "int \<Rightarrow> string \<Rightarrow> u64 \<Rightarrow> string \<Rightarrow> string \<Rightarrow> string" where
  "event_line timestamp_ms event_name connection_id state detail =
     (let q = [CHR 0x22] in
      ''{'' @ q @ ''timestamp_ms'' @ q @ '':'' @ int_to_string timestamp_ms @ '','' @ q @ ''event'' @ q @ '':'' @ q @
      escape_json event_name @ q @ '','' @ q @ ''connection_id'' @ q @ '':'' @ u64_to_string connection_id @
      '','' @ q @ ''state'' @ q @ '':'' @ q @ escape_json state @ q @
      (if detail \<noteq> [] then '','' @ q @ ''detail'' @ q @ '':'' @ q @ escape_json detail @ q else []) @
      ''}'' @ [CHR 0x0A])"

text \<open>The loop that retries an interrupted \<^verbatim>\<open>write\<close>, then the whole of \<^verbatim>\<open>Logger::event\<close>.\<close>

definition write_step ::
  "(string \<Rightarrow> 'w \<Rightarrow> (int \<times> int) \<times> 'w) \<Rightarrow> string \<Rightarrow> 'w \<Rightarrow> ('w, int \<times> 'w) loop_outcome option" where
  "write_step k_write line w =
     (let ((result, errno), w) = k_write line w in
      if result < 0 \<and> errno = EINTR then Some (Again w) else Some (Halt (result, w)))"

definition logger_event ::
  "(string \<Rightarrow> 'w \<Rightarrow> (int \<times> int) \<times> 'w) \<Rightarrow> int \<Rightarrow> logger \<Rightarrow> string \<Rightarrow> u64 \<Rightarrow> string \<Rightarrow> string \<Rightarrow> 'w \<Rightarrow>
   (logger \<times> 'w) option" where
  "logger_event k_write timestamp_ms lg event_name connection_id state detail w =
     (let line = event_line timestamp_ms event_name connection_id state detail in
      case run_loop (write_step k_write line) w of
        None \<Rightarrow> None
      | Some (result, w) \<Rightarrow>
          if result < 0 \<or> nat result \<noteq> length line
          then Some (lg\<lparr>lg_dropped_events := lg_dropped_events lg + 1\<rparr>, w)
          else Some (lg, w))"

section \<open>Escaping\<close>

text \<open>
  The reader's side: a JSON string body up to the closing quote. A raw control character or an
  escape other than the ones written here is not accepted.
\<close>

fun json_string :: "string \<Rightarrow> (string \<times> string) option" where
  "json_string [] = None"
| "json_string (c # cs) =
     (if c = CHR 0x22 then Some ([], cs)
      else if c = CHR 0x5C then
        (case cs of
           [] \<Rightarrow> None
         | e # cs' \<Rightarrow>
             (case json_string cs' of
                None \<Rightarrow> None
              | Some (s, rest) \<Rightarrow>
                  if e = CHR 0x5C \<or> e = CHR 0x22 then Some (e # s, rest)
                  else if e = CHR ''n'' then Some (CHR 0x0A # s, rest)
                  else if e = CHR ''r'' then Some (CHR 0x0D # s, rest)
                  else if e = CHR ''t'' then Some (CHR 0x09 # s, rest)
                  else None))
      else if (of_char c :: nat) < 0x20 then None
      else (case json_string cs of None \<Rightarrow> None | Some (s, rest) \<Rightarrow> Some (c # s, rest)))"

definition printable :: "char \<Rightarrow> bool" where
  "printable c \<longleftrightarrow> (of_char c :: nat) \<ge> 0x20 \<or> c \<in> {CHR 0x0A, CHR 0x0D, CHR 0x09}"

lemma escape_json_simps [simp]:
  "escape_json [] = []" "escape_json (c # s) = escape_char c @ escape_json s"
  by (simp_all add: escape_json_def)

lemma json_string_escape_char:
  "json_string (escape_char c @ cs) =
     (case json_string cs of
        None \<Rightarrow> None
      | Some (s, rest) \<Rightarrow> Some (if printable c then c # s else s, rest))"
proof (cases "c \<in> {CHR 0x5C, CHR 0x22, CHR 0x0A, CHR 0x0D, CHR 0x09}")
  case True
  then show ?thesis
    by (auto simp: escape_char_def printable_def split: option.splits)
next
  case False
  then show ?thesis
    by (cases "(of_char c :: nat) \<ge> 0x20") (auto simp: escape_char_def printable_def split: option.splits)
qed

lemma json_string_escape:
  "json_string (escape_json s @ [CHR 0x22] @ rest) = Some (filter printable s, rest)"
  by (induction s) (simp_all add: json_string_escape_char)

lemma escape_json_one_line: "CHR 0x0A \<notin> set (escape_json s)"
  by (induction s) (auto simp: escape_char_def)

lemma digits_one_line: "CHR 0x0A \<notin> set (nat_to_string n)"
proof
  assume "CHR 0x0A \<in> set (nat_to_string n)"
  then have "is_digit_char (CHR 0x0A)" by (rule nat_to_string_digits)
  then show False by (simp add: is_digit_char_def)
qed

text \<open>The constructor sets the one flag and leaves the others alone.\<close>

lemma logger_new_flags:
  assumes "\<And>w. get_flags w = (flags w, w)" and "\<And>f w. flags (set_flags f w) = f" and "0 \<le> flags w"
    and "logger_new get_flags set_flags w = (lg, w')"
  shows "lg_dropped_events lg = 0" and "bit (flags w') n \<longleftrightarrow> n = 11 \<or> bit (flags w) n"
proof -
  have flag: "bit O_NONBLOCK n \<longleftrightarrow> n = 11" for n
    using bit_push_bit_iff [of 11 "1 :: int" n] by (auto simp: O_NONBLOCK_def bit_1_iff push_bit_eq_mult)
  show "lg_dropped_events lg = 0" "bit (flags w') n \<longleftrightarrow> n = 11 \<or> bit (flags w) n"
    using assms by (auto simp: logger_new_def flag bit_or_iff)
qed

section \<open>Properties\<close>

text \<open>
  C35. Log lines cannot be forged. Whatever text an event carries, a JSON reader finds the end of
  its string exactly where the logger put it and reads the text back, less the control characters
  the logger leaves out; and a line holds one newline, its last character, so no event can spill
  into a second line.
\<close>

theorem log_line_unforgeable:
  "json_string (escape_json s @ [CHR 0x22] @ rest) = Some (filter printable s, rest) \<and>
   (\<exists>body. event_line t name cid state detail = body @ [CHR 0x0A] \<and> CHR 0x0A \<notin> set body)"
proof -
  let ?line = "event_line t name cid state detail"
  have "?line = butlast ?line @ [CHR 0x0A]" by (simp add: event_line_def Let_def butlast_append)
  moreover have "CHR 0x0A \<notin> set (butlast ?line)"
    using escape_json_one_line digits_one_line
    by (auto simp: event_line_def Let_def butlast_append int_to_string_def u64_to_string_def)
  ultimately show ?thesis using json_string_escape by blast
qed

text \<open>
  C36. Dropped events are counted. If the system call is interrupted only finitely often, logging
  an event returns, and the dropped-event counter grows by one exactly when the final write failed
  or wrote less than the whole line.
\<close>

theorem logger_event_counts:
  fixes pending :: "'w \<Rightarrow> nat"
  assumes "\<And>w w' result. k_write line w = ((result, EINTR), w') \<Longrightarrow> result < 0 \<Longrightarrow> pending w' < pending w"
    and "line = event_line t name cid state detail"
  shows "\<exists>w0 result errno w'. k_write line w0 = ((result, errno), w') \<and> \<not> (result < 0 \<and> errno = EINTR) \<and>
    logger_event k_write t lg name cid state detail w =
      Some (if result = int (length line) then lg else lg\<lparr>lg_dropped_events := lg_dropped_events lg + 1\<rparr>, w')"
proof -
  let ?Q = "\<lambda>(result, w'). \<exists>w0 errno. k_write line w0 = ((result, errno), w') \<and> \<not> (result < 0 \<and> errno = EINTR)"
  have "\<exists>r. run_loop (write_step k_write line) w = Some r \<and> ?Q r"
  proof (rule run_loop_total [where I = "\<lambda>_. True" and m = pending])
    fix v
    obtain result errno v' where "k_write line v = ((result, errno), v')" by (metis prod.collapse)
    then show "loop_ok (\<lambda>_. True) pending ?Q v (write_step k_write line v)"
      using assms(1) [of v result v'] by (auto simp: write_step_def)
  qed simp
  then obtain result w' w0 errno where r: "run_loop (write_step k_write line) w = Some (result, w')"
    "k_write line w0 = ((result, errno), w')" "\<not> (result < 0 \<and> errno = EINTR)" by auto
  then have "logger_event k_write t lg name cid state detail w =
      Some (if result = int (length line) then lg else lg\<lparr>lg_dropped_events := lg_dropped_events lg + 1\<rparr>, w')"
    unfolding logger_event_def assms(2) [symmetric] Let_def by auto
  with r(2,3) show ?thesis by blast
qed

theorem logger_event_counts_witness:
  "\<exists>w'. logger_event (\<lambda>line w. ((-1, EAGAIN), w + 1)) 0 \<lparr>lg_dropped_events = 0\<rparr> ''e'' 1 ''s'' '''' (0 :: nat) =
     Some (\<lparr>lg_dropped_events = 1\<rparr>, w')"
proof -
  have "\<exists>w0 result errno w'. (\<lambda>line w. ((-1, EAGAIN), w + 1)) (event_line 0 ''e'' 1 ''s'' '''') w0 =
        ((result, errno), w') \<and> \<not> (result < 0 \<and> errno = EINTR) \<and>
      logger_event (\<lambda>line w. ((-1, EAGAIN), w + 1)) 0 \<lparr>lg_dropped_events = 0\<rparr> ''e'' 1 ''s'' '''' (0 :: nat) =
        Some (if result = int (length (event_line 0 ''e'' 1 ''s'' '''')) then \<lparr>lg_dropped_events = 0\<rparr>
              else \<lparr>lg_dropped_events = 0\<rparr>\<lparr>lg_dropped_events := lg_dropped_events \<lparr>lg_dropped_events = 0\<rparr> + 1\<rparr>, w')"
    by (rule logger_event_counts [where pending = "\<lambda>w. w"]) (auto simp: errno_defs)
  then show ?thesis by auto
qed

end
