(* ===== verification/Proxy_Config.thy ===== *)
theory Proxy_Config
  imports Endpoint Relay_Properties
begin

text \<open>
  \<^verbatim>\<open>include/netfault/proxy.hpp\<close>, the constructor of \<^verbatim>\<open>Proxy\<close> in \<^verbatim>\<open>src/proxy/proxy.cpp\<close> and the command
  line of \<^verbatim>\<open>src/proxy/main.cpp\<close>. \<^verbatim>\<open>inet_pton\<close> and the floating-point overload of \<^verbatim>\<open>std::from_chars\<close>
  are parameters, the latter a function from a text to the number and the unread rest.
\<close>

section \<open>Configuration\<close>

record proxy_config =
  pc_listen :: endpoint
  pc_upstream :: endpoint
  pc_max_connections :: nat
  pc_buffer_bytes_per_direction :: nat
  pc_low_water_bytes :: nat
  pc_high_water_bytes :: nat
  pc_socket_buffer_bytes :: nat
  pc_connect_timeout :: int \<comment> \<open>milliseconds\<close>
  pc_idle_timeout :: int \<comment> \<open>milliseconds\<close>
  pc_metrics_file :: string
  pc_faults :: fault_plan
  pc_allow_non_loopback_listen :: bool
  pc_allow_non_loopback_upstream :: bool

definition proxy_config_default :: proxy_config where
  "proxy_config_default =
     \<lparr>pc_listen = \<lparr>ep_host = ''127.0.0.1'', ep_port = 8080\<rparr>,
      pc_upstream = \<lparr>ep_host = ''127.0.0.1'', ep_port = 9000\<rparr>,
      pc_max_connections = 256, pc_buffer_bytes_per_direction = 65536, pc_low_water_bytes = 32768,
      pc_high_water_bytes = 65536, pc_socket_buffer_bytes = 0, pc_connect_timeout = 0, pc_idle_timeout = 0,
      pc_metrics_file = [], pc_faults = fault_plan_default, pc_allow_non_loopback_listen = False,
      pc_allow_non_loopback_upstream = False\<rparr>"

definition proxy_new :: "inet_pton \<Rightarrow> proxy_config \<Rightarrow> exn + proxy_config" where
  "proxy_new pton config =
     (if pc_max_connections config = 0 then Inl (InvalidArgument ''max_connections must be positive'')
      else if pc_buffer_bytes_per_direction config < 1024 \<or>
              pc_buffer_bytes_per_direction config > 16 * 1024 * 1024
      then Inl (InvalidArgument ''buffer_bytes_per_direction must be between 1024 and 16777216'')
      else if pc_low_water_bytes config \<ge> pc_high_water_bytes config \<or>
              pc_high_water_bytes config > pc_buffer_bytes_per_direction config
      then Inl (InvalidArgument ''watermarks must satisfy 0 <= low_water_bytes < high_water_bytes <= buffer_bytes'')
      else if pc_socket_buffer_bytes config \<noteq> 0 \<and>
              (pc_socket_buffer_bytes config < 1024 \<or> pc_socket_buffer_bytes config > 1024 * 1024)
      then Inl (InvalidArgument ''socket_buffer_bytes must be 0 (kernel default) or between 1024 and 1048576'')
      else if pc_connect_timeout config < 0 \<or> pc_idle_timeout config < 0 \<or>
              pc_connect_timeout config > 10 * 60000 \<or> pc_idle_timeout config > 10 * 60000
      then Inl (InvalidArgument ''timeouts must be between 0 (disabled) and 600000 ms'')
      else case fp_validate (pc_faults config) of
        Inl e \<Rightarrow> Inl e
      | Inr _ \<Rightarrow>
          (case ep_is_loopback pton (pc_listen config) of
             Inl e \<Rightarrow> Inl e
           | Inr listen_loopback \<Rightarrow>
               if \<not> listen_loopback \<and> \<not> pc_allow_non_loopback_listen config
               then Inl (InvalidArgument ''non-loopback listen requires --unsafe-allow-non-loopback-listen'')
               else
                 case ep_is_loopback pton (pc_upstream config) of
                   Inl e \<Rightarrow> Inl e
                 | Inr upstream_loopback \<Rightarrow>
                     if \<not> upstream_loopback \<and> \<not> pc_allow_non_loopback_upstream config
                     then Inl (InvalidArgument ''non-loopback upstream requires --unsafe-allow-non-loopback-upstream'')
                     else Inr config))"

text \<open>The relay configuration \<^verbatim>\<open>accept_ready\<close> builds from it.\<close>

definition relay_config_of :: "proxy_config \<Rightarrow> relay_config" where
  "relay_config_of config =
     \<lparr>rc_buffer_bytes_per_direction = pc_buffer_bytes_per_direction config,
      rc_low_water_bytes = pc_low_water_bytes config, rc_high_water_bytes = pc_high_water_bytes config\<rparr>"

section \<open>Command line\<close>

definition parse_size :: "string \<Rightarrow> string \<Rightarrow> exn + nat" where
  "parse_size text name =
     (case from_chars 18446744073709551615 text of
        Inl _ \<Rightarrow> Inl (InvalidArgument (name @ '' must be a non-negative integer''))
      | Inr (parsed, rest) \<Rightarrow>
          if rest \<noteq> [] then Inl (InvalidArgument (name @ '' must be a non-negative integer''))
          else Inr parsed)"

definition parse_probability :: "(string \<Rightarrow> (double \<times> string) option) \<Rightarrow> string \<Rightarrow> exn + double" where
  "parse_probability from_chars_double text =
     (case from_chars_double text of
        None \<Rightarrow> Inl (InvalidArgument ''fault_probability must be a number between 0 and 1'')
      | Some (parsed, rest) \<Rightarrow>
          if rest \<noteq> [] \<or> double_less parsed (Finite 0) \<or> double_less (Finite 1) parsed
          then Inl (InvalidArgument ''fault_probability must be a number between 0 and 1'')
          else Inr parsed)"

definition parse_directions :: "string \<Rightarrow> exn + fault_directions" where
  "parse_directions text =
     (if text = ''both'' then Inr Both
      else if text = ''c2u'' then Inr ClientToUpstream
      else if text = ''u2c'' then Inr UpstreamToClient
      else Inl (InvalidArgument ''fault_direction must be both, c2u, or u2c''))"

record cli_state =
  cli_config :: proxy_config
  cli_buffer_was_set :: bool
  cli_low_water_was_set :: bool
  cli_high_water_was_set :: bool

definition cli_start :: cli_state where
  "cli_start = \<lparr>cli_config = proxy_config_default, cli_buffer_was_set = False,
     cli_low_water_was_set = False, cli_high_water_was_set = False\<rparr>"

text \<open>Outcome of the options: help was asked for, or the settings they left.\<close>

datatype cli_outcome = ShowHelp | Configured cli_state

definition update_config :: "(proxy_config \<Rightarrow> proxy_config) \<Rightarrow> cli_state \<Rightarrow> exn + cli_state" where
  "update_config f c = Inr (c\<lparr>cli_config := f (cli_config c)\<rparr>)"

definition update_faults :: "(fault_plan \<Rightarrow> fault_plan) \<Rightarrow> cli_state \<Rightarrow> exn + cli_state" where
  "update_faults f c = update_config (\<lambda>g. g\<lparr>pc_faults := f (pc_faults g)\<rparr>) c"

text \<open>The options that take a value.\<close>

definition set_option ::
  "inet_pton \<Rightarrow> (string \<Rightarrow> (double \<times> string) option) \<Rightarrow> string \<Rightarrow> string \<Rightarrow> cli_state \<Rightarrow> (exn + cli_state) option" where
  "set_option pton from_chars_double argument v c =
     (if argument = ''--listen'' then Some (bind_sum (ep_parse pton v) (\<lambda>e. update_config (\<lambda>g. g\<lparr>pc_listen := e\<rparr>) c))
      else if argument = ''--upstream'' then Some (bind_sum (ep_parse pton v) (\<lambda>e. update_config (\<lambda>g. g\<lparr>pc_upstream := e\<rparr>) c))
      else if argument = ''--max-connections''
      then Some (bind_sum (parse_size v ''max_connections'') (\<lambda>n. update_config (\<lambda>g. g\<lparr>pc_max_connections := n\<rparr>) c))
      else if argument = ''--buffer-bytes''
      then Some (bind_sum (parse_size v ''buffer_bytes'')
             (\<lambda>n. update_config (\<lambda>g. g\<lparr>pc_buffer_bytes_per_direction := n\<rparr>) (c\<lparr>cli_buffer_was_set := True\<rparr>)))
      else if argument = ''--low-water-bytes''
      then Some (bind_sum (parse_size v ''low_water_bytes'')
             (\<lambda>n. update_config (\<lambda>g. g\<lparr>pc_low_water_bytes := n\<rparr>) (c\<lparr>cli_low_water_was_set := True\<rparr>)))
      else if argument = ''--high-water-bytes''
      then Some (bind_sum (parse_size v ''high_water_bytes'')
             (\<lambda>n. update_config (\<lambda>g. g\<lparr>pc_high_water_bytes := n\<rparr>) (c\<lparr>cli_high_water_was_set := True\<rparr>)))
      else if argument = ''--socket-buffer-bytes''
      then Some (bind_sum (parse_size v ''socket_buffer_bytes'') (\<lambda>n. update_config (\<lambda>g. g\<lparr>pc_socket_buffer_bytes := n\<rparr>) c))
      else if argument = ''--connect-timeout-ms''
      then Some (bind_sum (parse_size v ''connect_timeout_ms'')
             (\<lambda>n. update_config (\<lambda>g. g\<lparr>pc_connect_timeout := s64_of_size n\<rparr>) c))
      else if argument = ''--idle-timeout-ms''
      then Some (bind_sum (parse_size v ''idle_timeout_ms'')
             (\<lambda>n. update_config (\<lambda>g. g\<lparr>pc_idle_timeout := s64_of_size n\<rparr>) c))
      else if argument = ''--metrics-file'' then Some (update_config (\<lambda>g. g\<lparr>pc_metrics_file := v\<rparr>) c)
      else if argument = ''--fault-seed''
      then Some (bind_sum (parse_size v ''fault_seed'') (\<lambda>n. update_faults (\<lambda>p. p\<lparr>fp_master_seed := of_nat n\<rparr>) c))
      else if argument = ''--fault-probability''
      then Some (bind_sum (parse_probability from_chars_double v) (\<lambda>x. update_faults (\<lambda>p. p\<lparr>fp_apply_probability := x\<rparr>) c))
      else if argument = ''--fault-direction''
      then Some (bind_sum (parse_directions v) (\<lambda>x. update_faults (\<lambda>p. p\<lparr>fp_directions := x\<rparr>) c))
      else if argument = ''--fault-latency-ms''
      then Some (bind_sum (parse_size v ''fault_latency_ms'') (\<lambda>n. update_faults (\<lambda>p. p\<lparr>fp_latency := s64_of_size n\<rparr>) c))
      else if argument = ''--fault-jitter-ms''
      then Some (bind_sum (parse_size v ''fault_jitter_ms'') (\<lambda>n. update_faults (\<lambda>p. p\<lparr>fp_jitter := s64_of_size n\<rparr>) c))
      else if argument = ''--fault-rate-bytes-per-sec''
      then Some (bind_sum (parse_size v ''fault_rate_bytes_per_sec'')
             (\<lambda>n. update_faults (\<lambda>p. p\<lparr>fp_rate_bytes_per_second := n\<rparr>) c))
      else if argument = ''--fault-burst-bytes''
      then Some (bind_sum (parse_size v ''fault_burst_bytes'') (\<lambda>n. update_faults (\<lambda>p. p\<lparr>fp_burst_bytes := n\<rparr>) c))
      else if argument = ''--fault-reset-after-bytes''
      then Some (bind_sum (parse_size v ''fault_reset_after_bytes'')
             (\<lambda>n. update_faults (\<lambda>p. p\<lparr>fp_reset_after_bytes := of_nat n\<rparr>) c))
      else if argument = ''--fault-half-close-after-bytes''
      then Some (bind_sum (parse_size v ''fault_half_close_after_bytes'')
             (\<lambda>n. update_faults (\<lambda>p. p\<lparr>fp_half_close_after_bytes := of_nat n\<rparr>) c))
      else None)"

definition takes_value :: "string \<Rightarrow> bool" where
  "takes_value argument \<longleftrightarrow> set_option (\<lambda>_. None) (\<lambda>_. None) argument [] cli_start \<noteq> None"

fun parse_args ::
  "inet_pton \<Rightarrow> (string \<Rightarrow> (double \<times> string) option) \<Rightarrow> string list \<Rightarrow> cli_state \<Rightarrow> exn + cli_outcome" where
  "parse_args pton fcd [] c = Inr (Configured c)"
| "parse_args pton fcd (argument # rest) c =
     (if argument = ''--help'' then Inr ShowHelp
      else if takes_value argument
      then (case rest of
              [] \<Rightarrow> Inl (InvalidArgument (argument @ '' requires a value''))
            | v # rest' \<Rightarrow>
                (case set_option pton fcd argument v c of
                   Some (Inr c') \<Rightarrow> parse_args pton fcd rest' c'
                 | Some (Inl e) \<Rightarrow> Inl e
                 | None \<Rightarrow> Inl (InvalidArgument (''unknown argument: '' @ argument))))
      else if argument = ''--unsafe-allow-non-loopback-listen''
      then parse_args pton fcd rest (c\<lparr>cli_config := (cli_config c)\<lparr>pc_allow_non_loopback_listen := True\<rparr>\<rparr>)
      else if argument = ''--unsafe-allow-non-loopback-upstream''
      then parse_args pton fcd rest (c\<lparr>cli_config := (cli_config c)\<lparr>pc_allow_non_loopback_upstream := True\<rparr>\<rparr>)
      else Inl (InvalidArgument (''unknown argument: '' @ argument)))"

definition apply_watermark_defaults :: "cli_state \<Rightarrow> proxy_config" where
  "apply_watermark_defaults c =
     (let g = cli_config c;
          g = (if cli_buffer_was_set c \<and> \<not> cli_high_water_was_set c
               then g\<lparr>pc_high_water_bytes := pc_buffer_bytes_per_direction g\<rparr> else g)
      in if (cli_buffer_was_set c \<or> cli_high_water_was_set c) \<and> \<not> cli_low_water_was_set c
         then g\<lparr>pc_low_water_bytes := pc_high_water_bytes g div 2\<rparr> else g)"

text \<open>
  \<^verbatim>\<open>main\<close> up to the start of the event loop: what was printed on the standard error, then \<open>None\<close>
  after \<open>--help\<close>, an exception, or the configuration the proxy runs with. The loopback checks of
  the warnings may throw as well, and a warning is printed even if the proxy is refused afterwards.
\<close>

definition warn_unless :: "bool \<Rightarrow> string \<Rightarrow> string" where
  "warn_unless loopback warning = (if loopback then [] else warning @ [CHR 0x0A])"

definition listen_warning :: string where
  "listen_warning = ''WARNING: non-loopback listener requested; this can expose the proxy to other hosts.''"

definition upstream_warning :: string where
  "upstream_warning = ''WARNING: non-loopback upstream requested; use only an explicitly authorized destination.''"

definition proxy_main ::
  "inet_pton \<Rightarrow> (string \<Rightarrow> (double \<times> string) option) \<Rightarrow> string list \<Rightarrow> string \<times> (exn + proxy_config option)" where
  "proxy_main pton fcd arguments =
     (case parse_args pton fcd arguments cli_start of
        Inl e \<Rightarrow> ([], Inl e)
      | Inr ShowHelp \<Rightarrow> ([], Inr None)
      | Inr (Configured c) \<Rightarrow>
          let config = apply_watermark_defaults c
          in (case ep_is_loopback pton (pc_listen config) of
                Inl e \<Rightarrow> ([], Inl e)
              | Inr listen_loopback \<Rightarrow>
                  let printed = warn_unless listen_loopback listen_warning
                  in (case ep_is_loopback pton (pc_upstream config) of
                        Inl e \<Rightarrow> (printed, Inl e)
                      | Inr upstream_loopback \<Rightarrow>
                          (printed @ warn_unless upstream_loopback upstream_warning,
                           bind_sum (proxy_new pton config) (\<lambda>config. Inr (Some config))))))"

section \<open>Lemmas\<close>

lemma set_option_flags:
  assumes "set_option pton fcd argument v c = Some (Inr c')"
  shows "pc_allow_non_loopback_listen (cli_config c') = pc_allow_non_loopback_listen (cli_config c)"
    and "pc_allow_non_loopback_upstream (cli_config c') = pc_allow_non_loopback_upstream (cli_config c)"
  using assms unfolding set_option_def
  by (auto simp: bind_sum_Inr update_config_def update_faults_def split: if_splits)

lemma parse_args_flags:
  assumes "parse_args pton fcd arguments c = Inr (Configured c')"
  shows "(''--unsafe-allow-non-loopback-listen'' \<notin> set arguments \<longrightarrow>
      pc_allow_non_loopback_listen (cli_config c') = pc_allow_non_loopback_listen (cli_config c)) \<and>
    (''--unsafe-allow-non-loopback-upstream'' \<notin> set arguments \<longrightarrow>
      pc_allow_non_loopback_upstream (cli_config c') = pc_allow_non_loopback_upstream (cli_config c))"
  using assms
proof (induction pton fcd arguments c rule: parse_args.induct)
  case (2 pton fcd argument rest c)
  then show ?case
    by (auto simp: set_option_flags split: if_splits list.splits option.splits sum.splits)
qed simp

lemma proxy_new_ok:
  assumes "proxy_new pton config = Inr config'"
  shows "config' = config" and "relay_config_ok (relay_config_of config)"
    and "fp_validate (pc_faults config) = Inr ()" and "0 < pc_max_connections config"
    and "0 \<le> pc_connect_timeout config \<and> pc_connect_timeout config \<le> 600000"
    and "0 \<le> pc_idle_timeout config \<and> pc_idle_timeout config \<le> 600000"
    and "ep_is_loopback pton (pc_listen config) = Inr True \<or> pc_allow_non_loopback_listen config"
    and "ep_is_loopback pton (pc_upstream config) = Inr True \<or> pc_allow_non_loopback_upstream config"
  using assms
  by (auto simp: proxy_new_def relay_config_ok_def relay_config_of_def split: if_splits sum.splits)

definition pton_example :: inet_pton where
  "pton_example host = (if host = ''127.0.0.1'' then Some 0x7F000001
     else if host = ''10.0.0.1'' then Some 0x0A000001 else None)"

section \<open>Properties\<close>

text \<open>
  C33. A configuration that passes construction is safe to run. Every relay the proxy builds from
  it, for any connection and with its faults or without, is constructed without an exception and
  satisfies the relay's invariant; timeouts are within ten minutes; and both endpoints are
  loopback addresses unless the operator allowed otherwise.
\<close>

theorem proxy_new_safe:
  assumes "proxy_new pton config = Inr config'"
  shows "config' = config \<and>
    (\<forall>plan cid cfd ufd connecting now. \<exists>r.
       relay_new (relay_config_of config) plan cid cfd ufd connecting now = Inr r \<and> relay_inv r) \<and>
    fp_validate (pc_faults config) = Inr () \<and> 0 < pc_max_connections config \<and>
    pc_connect_timeout config \<in> {0..600000} \<and> pc_idle_timeout config \<in> {0..600000} \<and>
    (ep_is_loopback pton (pc_listen config) = Inr True \<or> pc_allow_non_loopback_listen config) \<and>
    (ep_is_loopback pton (pc_upstream config) = Inr True \<or> pc_allow_non_loopback_upstream config)"
proof -
  have "\<exists>r. relay_new (relay_config_of config) plan cid cfd ufd connecting now = Inr r \<and> relay_inv r"
    for plan cid cfd ufd connecting now
    using relay_new_ok [OF proxy_new_ok(2) [OF assms]] by blast
  with proxy_new_ok [OF assms] show ?thesis by auto
qed

lemma proxy_new_default: "proxy_new pton_example proxy_config_default = Inr proxy_config_default"
  by (simp add: proxy_new_def proxy_config_default_def fp_validate_def fault_plan_default_def s64_add_def
      ep_is_loopback_def ep_to_sockaddr_def pton_example_def c_str_def)

theorem proxy_new_safe_witness:
  "\<exists>r. relay_new (relay_config_of proxy_config_default) fault_plan_default 1 4 5 True 0 = Inr r \<and> relay_inv r"
  using proxy_new_safe [OF proxy_new_default] by blast

text \<open>
  What the proxy runs with and what was printed before: a configuration is accepted only if each
  endpoint is a loopback address or its unsafe option was given, and then a warning was printed.
\<close>

lemma proxy_main_accepts:
  assumes "proxy_main pton fcd arguments = (printed, Inr (Some config))"
  shows "\<exists>listen_loopback upstream_loopback. proxy_new pton config = Inr config \<and>
    ep_is_loopback pton (pc_listen config) = Inr listen_loopback \<and>
    ep_is_loopback pton (pc_upstream config) = Inr upstream_loopback \<and>
    printed = warn_unless listen_loopback listen_warning @ warn_unless upstream_loopback upstream_warning \<and>
    (listen_loopback \<or> ''--unsafe-allow-non-loopback-listen'' \<in> set arguments) \<and>
    (upstream_loopback \<or> ''--unsafe-allow-non-loopback-upstream'' \<in> set arguments)"
proof -
  obtain c where c: "parse_args pton fcd arguments cli_start = Inr (Configured c)"
    and new: "proxy_new pton (apply_watermark_defaults c) = Inr config"
    and warned: "\<exists>l u. ep_is_loopback pton (pc_listen (apply_watermark_defaults c)) = Inr l \<and>
      ep_is_loopback pton (pc_upstream (apply_watermark_defaults c)) = Inr u \<and>
      printed = warn_unless l listen_warning @ warn_unless u upstream_warning"
    using assms unfolding proxy_main_def Let_def
    by (cases "parse_args pton fcd arguments cli_start")
      (auto simp: bind_sum_Inr split: cli_outcome.splits sum.splits)
  have same: "pc_allow_non_loopback_listen (apply_watermark_defaults c) = pc_allow_non_loopback_listen (cli_config c)"
    "pc_allow_non_loopback_upstream (apply_watermark_defaults c) = pc_allow_non_loopback_upstream (cli_config c)"
    by (simp_all add: apply_watermark_defaults_def Let_def)
  have "\<not> pc_allow_non_loopback_listen (cli_config cli_start)" "\<not> pc_allow_non_loopback_upstream (cli_config cli_start)"
    by (simp_all add: cli_start_def proxy_config_default_def)
  with parse_args_flags [OF c] proxy_new_ok(1,7,8) [OF new] same new warned show ?thesis by force
qed

lemma from_chars_3: "from_chars m ''3'' = (if 3 \<le> m then Inr (3, []) else Inl ResultOutOfRange)"
  by (simp add: from_chars_def is_digit_char_def digits_value_def)

lemma proxy_main_example:
  "proxy_main pton_example (\<lambda>_. None) [''--max-connections'', ''3''] =
     ([], Inr (Some (proxy_config_default\<lparr>pc_max_connections := 3\<rparr>)))"
proof -
  have parsed: "parse_args pton_example (\<lambda>_. None) [''--max-connections'', ''3''] cli_start =
      Inr (Configured (cli_start\<lparr>cli_config := proxy_config_default\<lparr>pc_max_connections := 3\<rparr>\<rparr>))"
    by (simp add: takes_value_def set_option_def parse_size_def from_chars_3 bind_sum_def update_config_def)
      (simp add: cli_start_def)
  show ?thesis unfolding proxy_main_def parsed sum.case cli_outcome.case
    by (simp add: bind_sum_def apply_watermark_defaults_def cli_start_def Let_def)
      (simp add: proxy_new_def proxy_config_default_def fp_validate_def fault_plan_default_def s64_add_def
        ep_is_loopback_def ep_to_sockaddr_def pton_example_def c_str_def warn_unless_def bind_sum_def)
qed

text \<open>
  Watermark defaults. Setting the buffer size alone, or the buffer and the high-water mark
  within it, always yields watermarks the proxy accepts.
\<close>

theorem watermark_defaults_accepted:
  assumes "cli_buffer_was_set c" and "\<not> cli_low_water_was_set c"
    and "1 \<le> pc_buffer_bytes_per_direction (cli_config c)"
    and "cli_high_water_was_set c \<Longrightarrow> 1 \<le> pc_high_water_bytes (cli_config c) \<and>
      pc_high_water_bytes (cli_config c) \<le> pc_buffer_bytes_per_direction (cli_config c)"
  shows "pc_low_water_bytes (apply_watermark_defaults c) < pc_high_water_bytes (apply_watermark_defaults c) \<and>
    pc_high_water_bytes (apply_watermark_defaults c) \<le> pc_buffer_bytes_per_direction (apply_watermark_defaults c)"
  using assms by (auto simp: apply_watermark_defaults_def Let_def)

theorem watermark_defaults_accepted_witness:
  "pc_low_water_bytes (apply_watermark_defaults (cli_start\<lparr>cli_buffer_was_set := True\<rparr>)) <
   pc_high_water_bytes (apply_watermark_defaults (cli_start\<lparr>cli_buffer_was_set := True\<rparr>))"
  using watermark_defaults_accepted [of "cli_start\<lparr>cli_buffer_was_set := True\<rparr>"]
  by (simp add: cli_start_def proxy_config_default_def)

end
