(* ===== verification/Proxy_Runtime.thy ===== *)
theory Proxy_Runtime
  imports Proxy_Config Timer_Queue Relay_Theorems
begin

text \<open>
  The event loop of \<^verbatim>\<open>src/proxy/proxy.cpp\<close>: the table of connections, the bindings of epoll tokens
  to them, the timers, and the handlers of accept, socket and timer events. The operating system
  is the record \<open>os\<close> of the calls the loop makes, over a world the handlers thread; an
  \<^verbatim>\<open>unordered_map\<close> is a list of key-value pairs in its iteration order. Connection identifiers and
  tokens, 64-bit counters that grow by one and two per accepted connection, are natural numbers.
  The logger is the list of its events; the events a relay reports are kept in the relay. Writing
  the events out (theory \<open>Logger\<close>) belongs to the world, and so does the counter of dropped ones.
\<close>

unbundle bit_operations_syntax

section \<open>Operating system\<close>

definition EINPROGRESS :: int where "EINPROGRESS = 115"
definition ENOENT :: int where "ENOENT = 2"

definition EPOLLIN :: "32 word" where "EPOLLIN = 0x001"
definition EPOLLOUT :: "32 word" where "EPOLLOUT = 0x004"
definition EPOLLERR :: "32 word" where "EPOLLERR = 0x008"
definition EPOLLHUP :: "32 word" where "EPOLLHUP = 0x010"
definition EPOLLRDHUP :: "32 word" where "EPOLLRDHUP = 0x2000"

text \<open>Calls that can fail return their result and the value of \<^verbatim>\<open>errno\<close>.\<close>

record 'w os =
  os_io :: "'w socket_io"
  os_strerror :: "int \<Rightarrow> string"
  os_now :: "'w \<Rightarrow> time \<times> 'w" \<comment> \<open>\<^verbatim>\<open>steady_clock::now\<close>\<close>
  os_accept :: "'w \<Rightarrow> (int \<times> int) \<times> 'w"
  os_socket :: "'w \<Rightarrow> (int \<times> int) \<times> 'w"
  os_set_sndbuf :: "int \<Rightarrow> int \<Rightarrow> 'w \<Rightarrow> (int \<times> int) \<times> 'w" \<comment> \<open>\<^verbatim>\<open>setsockopt\<close> with \<^verbatim>\<open>SO_SNDBUF\<close>\<close>
  os_set_rcvbuf :: "int \<Rightarrow> int \<Rightarrow> 'w \<Rightarrow> (int \<times> int) \<times> 'w" \<comment> \<open>\<^verbatim>\<open>setsockopt\<close> with \<^verbatim>\<open>SO_RCVBUF\<close>\<close>
  os_connect :: "int \<Rightarrow> 32 word \<times> 16 word \<Rightarrow> 'w \<Rightarrow> (int \<times> int) \<times> 'w"
  os_socket_error :: "int \<Rightarrow> 'w \<Rightarrow> (int \<times> int \<times> int) \<times> 'w" \<comment> \<open>result, \<^verbatim>\<open>SO_ERROR\<close> value, \<^verbatim>\<open>errno\<close>\<close>
  os_epoll_add :: "int \<Rightarrow> 32 word \<Rightarrow> nat \<Rightarrow> 'w \<Rightarrow> (int \<times> int) \<times> 'w"
  os_epoll_mod :: "int \<Rightarrow> 32 word \<Rightarrow> nat \<Rightarrow> 'w \<Rightarrow> (int \<times> int) \<times> 'w"
  os_epoll_del :: "int \<Rightarrow> 'w \<Rightarrow> 'w"
  os_close :: "int \<Rightarrow> 'w \<Rightarrow> 'w"
  os_timer_set :: "int \<times> int \<Rightarrow> 'w \<Rightarrow> (int \<times> int) \<times> 'w" \<comment> \<open>seconds and nanoseconds of \<^verbatim>\<open>it_value\<close>\<close>
  os_epoll_wait :: "'w \<Rightarrow> (int \<times> int \<times> (nat \<times> 32 word) list) \<times> 'w" \<comment> \<open>count, \<^verbatim>\<open>errno\<close>, the array of events\<close>
  os_read_signal :: "'w \<Rightarrow> (int \<times> int \<times> nat) \<times> 'w" \<comment> \<open>bytes read, \<^verbatim>\<open>errno\<close>, \<^verbatim>\<open>ssi_signo\<close>\<close>
  os_read_timer :: "'w \<Rightarrow> (int \<times> int) \<times> 'w"
  os_wall_clock :: "'w \<Rightarrow> int \<times> 'w" \<comment> \<open>\<^verbatim>\<open>system_clock::now\<close>, in milliseconds since the epoch\<close>
  os_open :: "string \<Rightarrow> 'w \<Rightarrow> (int \<times> int) \<times> 'w"
  os_write :: "int \<Rightarrow> string \<Rightarrow> 'w \<Rightarrow> (int \<times> int) \<times> 'w"
  os_rename :: "string \<Rightarrow> string \<Rightarrow> 'w \<Rightarrow> (int \<times> int) \<times> 'w"
  os_dropped_events :: "'w \<Rightarrow> u64" \<comment> \<open>the logger's counter\<close>

section \<open>State\<close>

record connection =
  cn_id :: nat
  cn_client_fd :: int
  cn_upstream_fd :: int
  cn_client_token :: nat
  cn_upstream_token :: nat
  cn_client_mask :: "32 word"
  cn_upstream_mask :: "32 word"
  cn_scheduled_wake :: "time option"
  cn_relay :: relay

record log_entry =
  le_event :: string
  le_connection_id :: nat
  le_state :: string
  le_detail :: string

record runtime =
  rt_config :: proxy_config
  rt_log :: "log_entry list"
  rt_timers :: timer_queue
  rt_last_armed_deadline :: "time option"
  rt_next_connection_id :: nat
  rt_next_token :: nat
  rt_closes_fully_closed :: u64
  rt_closes_reset :: u64
  rt_closes_failed :: u64
  rt_closes_timed_out :: u64
  rt_connections :: "(nat \<times> connection) list"
  rt_bindings :: "(nat \<times> nat \<times> side) list"

definition runtime_new :: "proxy_config \<Rightarrow> runtime" where
  "runtime_new config =
     \<lparr>rt_config = config, rt_log = [], rt_timers = tq_new, rt_last_armed_deadline = None,
      rt_next_connection_id = 1, rt_next_token = 4, rt_closes_fully_closed = 0, rt_closes_reset = 0,
      rt_closes_failed = 0, rt_closes_timed_out = 0, rt_connections = [], rt_bindings = []\<rparr>"

definition find_connection :: "runtime \<Rightarrow> nat \<Rightarrow> connection option" where
  "find_connection rt cid = map_of (rt_connections rt) cid"

definition put_connection :: "runtime \<Rightarrow> nat \<Rightarrow> connection \<Rightarrow> runtime" where
  "put_connection rt cid c =
     rt\<lparr>rt_connections := map (\<lambda>(k, v). (k, if k = cid then c else v)) (rt_connections rt)\<rparr>"

definition log_event :: "runtime \<Rightarrow> string \<Rightarrow> nat \<Rightarrow> string \<Rightarrow> string \<Rightarrow> runtime" where
  "log_event rt event cid state detail =
     rt\<lparr>rt_log := rt_log rt @
        [\<lparr>le_event = event, le_connection_id = cid, le_state = state, le_detail = detail\<rparr>]\<rparr>"

section \<open>Epoll\<close>

definition to_epoll_mask :: "interest_set \<Rightarrow> 32 word" where
  "to_epoll_mask interest =
     (let events = EPOLLERR OR EPOLLHUP;
          events = (if is_read interest then events OR (EPOLLIN OR EPOLLRDHUP) else events)
      in if is_write interest then events OR EPOLLOUT else events)"

definition add_epoll :: "'w os \<Rightarrow> int \<Rightarrow> 32 word \<Rightarrow> nat \<Rightarrow> 'w \<Rightarrow> exn + 'w" where
  "add_epoll os fd events token w =
     (let ((result, errno), w) = os_epoll_add os fd events token w in
      if result < 0 then Inl (RuntimeError (''epoll_ctl(ADD): '' @ os_strerror os errno)) else Inr w)"

definition modify_epoll :: "'w os \<Rightarrow> int \<Rightarrow> 32 word \<Rightarrow> nat \<Rightarrow> 'w \<Rightarrow> exn + 'w" where
  "modify_epoll os fd events token w =
     (let ((result, errno), w) = os_epoll_mod os fd events token w in
      if result < 0 \<and> errno \<noteq> ENOENT
      then Inl (RuntimeError (''epoll_ctl(MOD): '' @ os_strerror os errno)) else Inr w)"

section \<open>Closing\<close>

definition count_close :: "runtime \<Rightarrow> connection_state \<Rightarrow> runtime" where
  "count_close rt final_state =
     (if final_state = Reset then rt\<lparr>rt_closes_reset := rt_closes_reset rt + 1\<rparr>
      else if final_state = Failed then rt\<lparr>rt_closes_failed := rt_closes_failed rt + 1\<rparr>
      else if final_state = TimedOut then rt\<lparr>rt_closes_timed_out := rt_closes_timed_out rt + 1\<rparr>
      else rt\<lparr>rt_closes_fully_closed := rt_closes_fully_closed rt + 1\<rparr>)"

text \<open>Erasing the connection destroys its two descriptors, the upstream's first.\<close>

definition close_connection ::
  "'w os \<Rightarrow> nat \<Rightarrow> connection_state \<Rightarrow> string \<Rightarrow> time \<Rightarrow> runtime \<Rightarrow> 'w \<Rightarrow> runtime \<times> 'w" where
  "close_connection os cid final_state detail now rt w =
     (case find_connection rt cid of
        None \<Rightarrow> (rt, w)
      | Some c \<Rightarrow>
          let w = os_epoll_del os (cn_client_fd c) w;
              w = os_epoll_del os (cn_upstream_fd c) w;
              rt = rt\<lparr>rt_bindings := filter (\<lambda>(t, _). t \<noteq> cn_client_token c) (rt_bindings rt)\<rparr>;
              rt = rt\<lparr>rt_bindings := filter (\<lambda>(t, _). t \<noteq> cn_upstream_token c) (rt_bindings rt)\<rparr>;
              rt = log_event rt ''connection_closed'' (cn_id c) (state_name final_state)
                     (detail @ close_detail (cn_relay c) now);
              rt = count_close rt final_state;
              rt = rt\<lparr>rt_connections := filter (\<lambda>(k, _). k \<noteq> cid) (rt_connections rt)\<rparr>;
              w = os_close os (cn_upstream_fd c) w;
              w = os_close os (cn_client_fd c) w
          in (rt, w))"

section \<open>Interest and wake-ups\<close>

definition apply_interest :: "'w os \<Rightarrow> nat \<Rightarrow> side \<Rightarrow> time \<Rightarrow> runtime \<Rightarrow> 'w \<Rightarrow> exn + runtime \<times> 'w" where
  "apply_interest os cid side now rt w =
     (case find_connection rt cid of
        None \<Rightarrow> Inr (rt, w)
      | Some c \<Rightarrow>
          let (interest, r) = desired_interest (cn_relay c) side now;
              mask = to_epoll_mask interest;
              c = c\<lparr>cn_relay := r\<rparr>;
              cached = (if side = Client then cn_client_mask c else cn_upstream_mask c)
          in if mask = cached then Inr (put_connection rt cid c, w)
             else
               let c = (if side = Client then c\<lparr>cn_client_mask := mask\<rparr> else c\<lparr>cn_upstream_mask := mask\<rparr>)
               in case modify_epoll os (if side = Client then cn_client_fd c else cn_upstream_fd c) mask
                    (if side = Client then cn_client_token c else cn_upstream_token c) w of
                    Inl e \<Rightarrow> Inl e
                  | Inr w \<Rightarrow> Inr (put_connection rt cid c, w))"

definition refresh_or_close :: "'w os \<Rightarrow> nat \<Rightarrow> time \<Rightarrow> runtime \<Rightarrow> 'w \<Rightarrow> exn + runtime \<times> 'w" where
  "refresh_or_close os cid now rt w =
     (case find_connection rt cid of
        None \<Rightarrow> Inr (rt, w)
      | Some c \<Rightarrow>
          if fully_drained (cn_relay c)
          then Inr (close_connection os cid FullyClosed ''orderly_shutdown'' now rt w)
          else bind_sum (apply_interest os cid Client now rt w) (\<lambda>(rt, w).
               apply_interest os cid Upstream now rt w))"

definition schedule_relay_wake :: "nat \<Rightarrow> time \<Rightarrow> runtime \<Rightarrow> runtime" where
  "schedule_relay_wake cid now rt =
     (case find_connection rt cid of
        None \<Rightarrow> rt
      | Some c \<Rightarrow>
          let (up, r) = next_wake (cn_relay c) Upstream now;
              (down, r) = next_wake r Client now;
              wake = up;
              wake = (case down of
                        None \<Rightarrow> wake
                      | Some candidate \<Rightarrow>
                          (case wake of
                             None \<Rightarrow> Some candidate
                           | Some best \<Rightarrow> if candidate < best then Some candidate else wake));
              c = c\<lparr>cn_relay := r\<rparr>
          in case wake of
               None \<Rightarrow> put_connection rt cid c
             | Some t \<Rightarrow>
                 if cn_scheduled_wake c = None \<or> t < the (cn_scheduled_wake c)
                 then (put_connection rt cid (c\<lparr>cn_scheduled_wake := Some t\<rparr>))
                        \<lparr>rt_timers := tq_schedule (rt_timers rt) t (cn_id c) Pump\<rparr>
                 else put_connection rt cid c)"

section \<open>Pumping\<close>

text \<open>The loop over the destinations; the flag says that the connection was closed.\<close>

fun flush_destinations ::
  "'w os \<Rightarrow> nat \<Rightarrow> time \<Rightarrow> side list \<Rightarrow> runtime \<Rightarrow> 'w \<Rightarrow> (exn + bool \<times> runtime \<times> 'w) option" where
  "flush_destinations os cid now [] rt w = Some (Inr (False, rt, w))"
| "flush_destinations os cid now (destination # rest) rt w =
     (case find_connection rt cid of
        None \<Rightarrow> Some (Inr (True, rt, w))
      | Some c \<Rightarrow>
          (case flush (os_strerror os) (os_io os) destination now (cn_relay c) w of
             None \<Rightarrow> None
           | Some (Inl e) \<Rightarrow> Some (Inl e)
           | Some (Inr (result, r, w)) \<Rightarrow>
               let rt = put_connection rt cid (c\<lparr>cn_relay := r\<rparr>)
               in if pr_status result = CloseConnection
                  then let (rt, w) = close_connection os cid (pr_final_state result) (pr_reason result) now rt w
                       in Some (Inr (True, rt, w))
                  else flush_destinations os cid now rest rt w))"

definition pump_connection :: "'w os \<Rightarrow> nat \<Rightarrow> time \<Rightarrow> runtime \<Rightarrow> 'w \<Rightarrow> (exn + runtime \<times> 'w) option" where
  "pump_connection os cid now rt w =
     (case find_connection rt cid of
        None \<Rightarrow> Some (Inr (rt, w))
      | Some c \<Rightarrow>
          (case (if r_upstream_connecting (cn_relay c) then Some (Inr (False, rt, w))
                 else flush_destinations os cid now [Upstream, Client] rt w) of
             None \<Rightarrow> None
           | Some (Inl e) \<Rightarrow> Some (Inl e)
           | Some (Inr (gone, rt, w)) \<Rightarrow>
               if gone then Some (Inr (rt, w))
               else
                 (case find_connection rt cid of
                    None \<Rightarrow> Some (Inr (rt, w))
                  | Some c \<Rightarrow>
                      let (r, w) = propagate_half_closes (os_io os) (cn_relay c) w;
                          rt = put_connection rt cid (c\<lparr>cn_relay := r\<rparr>)
                      in Some (bind_sum (refresh_or_close os cid now rt w) (\<lambda>(rt, w).
                           Inr (schedule_relay_wake cid now rt, w))))))"

section \<open>Socket events\<close>

text \<open>
  The end of a pending upstream connect, and a pending socket error. \<open>True\<close> says that the
  connection was closed and the handler returns.
\<close>

definition finish_connect ::
  "'w os \<Rightarrow> connection \<Rightarrow> side \<Rightarrow> 32 word \<Rightarrow> time \<Rightarrow> runtime \<Rightarrow> 'w \<Rightarrow> bool \<times> runtime \<times> 'w" where
  "finish_connect os c side events now rt w =
     (if side = Upstream \<and> r_upstream_connecting (cn_relay c) \<and> (events AND EPOLLOUT) \<noteq> 0
      then
        let ((result, socket_error, errno), w) = os_socket_error os (cn_upstream_fd c) w
        in if result < 0 \<or> socket_error \<noteq> 0
           then let error = (if socket_error \<noteq> 0 then socket_error else errno);
                    (rt, w) = close_connection os (cn_id c) Failed
                                (''upstream_connect='' @ os_strerror os error) now rt w
                in (True, rt, w)
           else
             let rt = put_connection rt (cn_id c) (c\<lparr>cn_relay := mark_upstream_connected (cn_relay c)\<rparr>);
                 rt = log_event rt ''upstream_connected'' (cn_id c) ''active'' []
             in (False, rt, w)
      else (False, rt, w))"

definition check_socket_error ::
  "'w os \<Rightarrow> connection \<Rightarrow> side \<Rightarrow> 32 word \<Rightarrow> time \<Rightarrow> runtime \<Rightarrow> 'w \<Rightarrow> bool \<times> runtime \<times> 'w" where
  "check_socket_error os c side events now rt w =
     (if (events AND EPOLLERR) \<noteq> 0 \<and> \<not> r_upstream_connecting (cn_relay c)
      then
        let ((result, socket_error, errno), w) =
              os_socket_error os (if side = Client then cn_client_fd c else cn_upstream_fd c) w
        in if result = 0 \<and> socket_error \<noteq> 0
           then let (rt, w) = close_connection os (cn_id c) (if socket_error = ECONNRESET then Reset else Failed)
                                (os_strerror os socket_error) now rt w
                in (True, rt, w)
           else (False, rt, w)
      else (False, rt, w))"

definition read_ready ::
  "'w os \<Rightarrow> connection \<Rightarrow> side \<Rightarrow> 32 word \<Rightarrow> time \<Rightarrow> runtime \<Rightarrow> 'w \<Rightarrow> (exn + bool \<times> runtime \<times> 'w) option" where
  "read_ready os c side events now rt w =
     (let readable_event = ((events AND (EPOLLIN OR EPOLLRDHUP OR EPOLLHUP)) \<noteq> 0);
          hangup_hint = ((events AND (EPOLLRDHUP OR EPOLLHUP)) \<noteq> 0)
      in if readable_event \<and> \<not> (side = Upstream \<and> r_upstream_connecting (cn_relay c))
         then
           (case handle_readable (os_strerror os) (os_io os) side hangup_hint now (cn_relay c) w of
              None \<Rightarrow> None
            | Some (Inl e) \<Rightarrow> Some (Inl e)
            | Some (Inr (result, r, w)) \<Rightarrow>
                let rt = put_connection rt (cn_id c) (c\<lparr>cn_relay := r\<rparr>)
                in if pr_status result = CloseConnection
                   then let (rt, w) = close_connection os (cn_id c) (pr_final_state result) (pr_reason result) now rt w
                        in Some (Inr (True, rt, w))
                   else Some (Inr (False, rt, w)))
         else Some (Inr (False, rt, w)))"

definition socket_ready :: "'w os \<Rightarrow> nat \<Rightarrow> 32 word \<Rightarrow> runtime \<Rightarrow> 'w \<Rightarrow> (exn + runtime \<times> 'w) option" where
  "socket_ready os token events rt w =
     (case map_of (rt_bindings rt) token of
        None \<Rightarrow> Some (Inr (rt, w))
      | Some (cid, side) \<Rightarrow>
          (case find_connection rt cid of
             None \<Rightarrow> Some (Inr (rt, w))
           | Some c \<Rightarrow>
               let (now, w) = os_now os w;
                   (gone, rt, w) = finish_connect os c side events now rt w
               in if gone then Some (Inr (rt, w))
                  else
                    (case find_connection rt cid of
                       None \<Rightarrow> Some (Inr (rt, w))
                     | Some c \<Rightarrow>
                         let (gone, rt, w) = check_socket_error os c side events now rt w
                         in if gone then Some (Inr (rt, w))
                            else
                              (case read_ready os c side events now rt w of
                                 None \<Rightarrow> None
                               | Some (Inl e) \<Rightarrow> Some (Inl e)
                               | Some (Inr (gone, rt, w)) \<Rightarrow>
                                   if gone then Some (Inr (rt, w)) else pump_connection os cid now rt w))))"

section \<open>Timers\<close>

definition handle_timer :: "'w os \<Rightarrow> timer_event \<Rightarrow> time \<Rightarrow> runtime \<Rightarrow> 'w \<Rightarrow> (exn + runtime \<times> 'w) option" where
  "handle_timer os e now rt w =
     (let cid = te_connection_id e in
      case find_connection rt cid of
        None \<Rightarrow> Some (Inr (rt, w))
      | Some c \<Rightarrow>
          (case te_kind e of
             Pump \<Rightarrow>
               let rt = (case cn_scheduled_wake c of
                           None \<Rightarrow> rt
                         | Some t \<Rightarrow> if t \<le> now then put_connection rt cid (c\<lparr>cn_scheduled_wake := None\<rparr>) else rt)
               in pump_connection os (cn_id c) now rt w
           | ConnectTimeout \<Rightarrow>
               if r_upstream_connecting (cn_relay c)
               then Some (Inr (close_connection os (cn_id c) TimedOut ''connect_timeout'' now rt w))
               else Some (Inr (rt, w))
           | IdleTimeout \<Rightarrow>
               let idle_deadline = r_last_activity (cn_relay c) + pc_idle_timeout (rt_config rt) * 1000000
               in if now \<ge> idle_deadline
                  then Some (Inr (close_connection os (cn_id c) TimedOut ''idle_timeout'' now rt w))
                  else Some (Inr (rt\<lparr>rt_timers := tq_schedule (rt_timers rt) idle_deadline (cn_id c) IdleTimeout\<rparr>, w))))"

definition timer_step ::
  "'w os \<Rightarrow> time \<Rightarrow> nat \<times> runtime \<times> 'w \<Rightarrow>
   (nat \<times> runtime \<times> 'w, exn + nat \<times> runtime \<times> 'w) loop_outcome option" where
  "timer_step os now = (\<lambda>(processed, rt, w).
     (case tq_pop_due (rt_timers rt) now of
        (None, q) \<Rightarrow> Some (Halt (Inr (processed, rt\<lparr>rt_timers := q\<rparr>, w)))
      | (Some e, q) \<Rightarrow>
          (case handle_timer os e now (rt\<lparr>rt_timers := q\<rparr>) w of
             None \<Rightarrow> None
           | Some (Inl ex) \<Rightarrow> Some (Halt (Inl ex))
           | Some (Inr (rt, w)) \<Rightarrow> Some (Again (processed + 1, rt, w)))))"

definition process_due_timers ::
  "'w os \<Rightarrow> time \<Rightarrow> runtime \<Rightarrow> 'w \<Rightarrow> (exn + nat \<times> runtime \<times> 'w) option" where
  "process_due_timers os now rt w =
     run_loop (timer_step os now) (0, rt\<lparr>rt_last_armed_deadline := None\<rparr>, w)"

text \<open>The kernel timer is armed at the next deadline, in seconds and nanoseconds; zero would disarm it.\<close>

definition timer_spec :: "time option \<Rightarrow> int \<times> int" where
  "timer_spec deadline =
     (case deadline of
        None \<Rightarrow> (0, 0)
      | Some t \<Rightarrow>
          let since_epoch = (if t \<le> 0 then 1 else t);
              sec = duration_cast 1000000000 since_epoch;
              nsec = since_epoch - sec * 1000000000
          in if sec = 0 \<and> nsec = 0 then (0, 1) else (sec, nsec))"

definition arm_timer_fd :: "'w os \<Rightarrow> runtime \<Rightarrow> 'w \<Rightarrow> runtime \<times> 'w" where
  "arm_timer_fd os rt w =
     (let deadline = tq_next_deadline (rt_timers rt) in
      if deadline = rt_last_armed_deadline rt then (rt, w)
      else
        let ((result, errno), w) = os_timer_set os (timer_spec deadline) w
        in if result < 0 then (log_event rt ''timer_arm_failed'' 0 ''failed'' (os_strerror os errno), w)
           else
             let rt = rt\<lparr>rt_last_armed_deadline := deadline\<rparr>
             in case deadline of
                  None \<Rightarrow> (rt, w)
                | Some t \<Rightarrow>
                    let (now, w) = os_now os w
                    in (log_event rt ''timer_armed'' 0 ''listening''
                          (''delta_ms='' @ int_to_string (duration_cast 1000000 (t - now)) @
                           '',pending='' @ nat_to_string (tq_size (rt_timers rt))), w))"

section \<open>Accepting\<close>

definition faults_apply :: "proxy_config \<Rightarrow> nat \<Rightarrow> bool" where
  "faults_apply config cid =
     (let p = pc_faults config in
      if \<not> fp_any_enabled p then False
      else if double_ge (fp_apply_probability p) (Finite 1) then True
      else
        let (bits, _) = splitmix64_next \<lparr>sm_state = derive_connection_seed (fp_master_seed p) (of_nat cid)\<rparr>
        in double_less (Finite (sample_unit_interval bits)) (fp_apply_probability p))"

definition apply_socket_buffer_size :: "'w os \<Rightarrow> int \<Rightarrow> runtime \<Rightarrow> 'w \<Rightarrow> runtime \<times> 'w" where
  "apply_socket_buffer_size os fd rt w =
     (if pc_socket_buffer_bytes (rt_config rt) = 0 then (rt, w)
      else
        let size = sint (of_nat (pc_socket_buffer_bytes (rt_config rt)) :: 32 word);
            ((result, errno), w) = os_set_sndbuf os fd size w;
            ((result, errno), w) = (if result < 0 then ((result, errno), w) else os_set_rcvbuf os fd size w)
        in if result < 0 then (log_event rt ''socket_buffer_resize_failed'' 0 ''failed'' (os_strerror os errno), w)
           else (rt, w))"

text \<open>
  What \<^verbatim>\<open>accept_ready\<close> does with a connected pair of sockets: it enters them in the table, then
  logs the connection and starts its timers.
\<close>

definition announce_connection :: "nat \<Rightarrow> bool \<Rightarrow> bool \<Rightarrow> time \<Rightarrow> relay \<Rightarrow> runtime \<Rightarrow> runtime" where
  "announce_connection cid apply_faults connecting now r rt =
     (let config = rt_config rt;
          rt = log_event rt ''connection_accepted'' cid (state_name (r_state r)) [];
          rt = (if fp_any_enabled (pc_faults config)
                then log_event rt ''fault_config'' cid (state_name (r_state r))
                       (''applied='' @ nat_to_string (if apply_faults then 1 else 0) @ '',seed='' @
                        u64_to_string (derive_connection_seed (fp_master_seed (pc_faults config)) (of_nat cid)))
                else rt);
          rt = (if \<not> connecting then log_event rt ''upstream_connected'' cid ''active'' []
                else if pc_connect_timeout config > 0
                then rt\<lparr>rt_timers := tq_schedule (rt_timers rt) (now + pc_connect_timeout config * 1000000) cid ConnectTimeout\<rparr>
                else rt)
      in if pc_idle_timeout config > 0
         then rt\<lparr>rt_timers := tq_schedule (rt_timers rt) (now + pc_idle_timeout config * 1000000) cid IdleTimeout\<rparr>
         else rt)"

definition install_connection ::
  "'w os \<Rightarrow> int \<Rightarrow> int \<Rightarrow> bool \<Rightarrow> time \<Rightarrow> runtime \<Rightarrow> 'w \<Rightarrow> exn + runtime \<times> 'w" where
  "install_connection os client_fd upstream_fd connecting now rt w =
     (let config = rt_config rt;
          cid = rt_next_connection_id rt;
          apply_faults = faults_apply config cid;
          effective_faults = (if apply_faults then pc_faults config else fault_plan_default)
      in bind_sum (relay_new (relay_config_of config) effective_faults (of_nat cid) client_fd upstream_fd connecting now)
         (\<lambda>r.
           let client_token = rt_next_token rt; upstream_token = rt_next_token rt + 1;
               (client_interest, r) = desired_interest r Client now;
               (upstream_interest, r) = desired_interest r Upstream now;
               c = \<lparr>cn_id = cid, cn_client_fd = client_fd, cn_upstream_fd = upstream_fd,
                    cn_client_token = client_token, cn_upstream_token = upstream_token,
                    cn_client_mask = to_epoll_mask client_interest,
                    cn_upstream_mask = to_epoll_mask upstream_interest,
                    cn_scheduled_wake = None, cn_relay = r\<rparr>;
               rt = rt\<lparr>rt_next_connection_id := cid + 1, rt_next_token := rt_next_token rt + 2,
                       rt_bindings := rt_bindings rt @ [(client_token, cid, Client), (upstream_token, cid, Upstream)],
                       rt_connections := rt_connections rt @ [(cid, c)]\<rparr>
           in bind_sum (add_epoll os client_fd (cn_client_mask c) client_token w) (\<lambda>w.
              bind_sum (add_epoll os upstream_fd (cn_upstream_mask c) upstream_token w) (\<lambda>w.
                Inr (announce_connection cid apply_faults connecting now r rt, w)))))"

text \<open>
  One round of the accept loop. A socket that is not installed is closed when its owner goes out
  of scope.
\<close>

definition accept_step ::
  "'w os \<Rightarrow> inet_pton \<Rightarrow> runtime \<times> 'w \<Rightarrow> (runtime \<times> 'w, exn + runtime \<times> 'w) loop_outcome option" where
  "accept_step os pton = (\<lambda>(rt, w).
     (let ((client, errno), w) = os_accept os w in
      if client < 0
      then
        (if errno = EAGAIN \<or> errno = EWOULDBLOCK then Some (Halt (Inr (rt, w)))
         else if errno = EINTR then Some (Again (rt, w))
         else Some (Halt (Inr (log_event rt ''accept_failed'' 0 ''failed'' (os_strerror os errno), w))))
      else if length (rt_connections rt) \<ge> pc_max_connections (rt_config rt)
      then Some (Again (log_event rt ''connection_rejected'' 0 ''failed'' ''max_connections_reached'', os_close os client w))
      else
        let ((upstream, errno), w) = os_socket os w
        in if upstream < 0
           then Some (Again (log_event rt ''upstream_socket_failed'' 0 ''failed'' (os_strerror os errno), os_close os client w))
           else
             let (rt, w) = apply_socket_buffer_size os upstream rt w
             in case ep_to_sockaddr pton (pc_upstream (rt_config rt)) of
                  Inl e \<Rightarrow> Some (Halt (Inl e))
                | Inr address \<Rightarrow>
                    let ((result, errno), w) = os_connect os upstream address w;
                        connecting = (result < 0 \<and> errno = EINPROGRESS)
                    in if result < 0 \<and> \<not> connecting
                       then Some (Again (log_event rt ''upstream_connect_failed'' 0 ''failed'' (os_strerror os errno),
                                         os_close os client (os_close os upstream w)))
                       else
                         let (now, w) = os_now os w
                         in (case install_connection os client upstream connecting now rt w of
                               Inl e \<Rightarrow> Some (Halt (Inl e))
                             | Inr (rt, w) \<Rightarrow> Some (Again (rt, w)))))"

definition accept_ready :: "'w os \<Rightarrow> inet_pton \<Rightarrow> runtime \<Rightarrow> 'w \<Rightarrow> (exn + runtime \<times> 'w) option" where
  "accept_ready os pton rt w = run_loop (accept_step os pton) (rt, w)"

section \<open>Reports\<close>

definition emit_metrics_snapshot :: "'w os \<Rightarrow> runtime \<Rightarrow> 'w \<Rightarrow> runtime \<times> 'w" where
  "emit_metrics_snapshot os rt w =
     (let (now, w) = os_now os w;
          rt = log_event rt ''metrics_snapshot'' 0 ''listening''
            (''active_connections='' @ nat_to_string (length (rt_connections rt)) @
             '',total_accepted='' @ nat_to_string (rt_next_connection_id rt - 1) @
             '',pending_timers='' @ nat_to_string (tq_size (rt_timers rt)) @
             '',dropped_log_events='' @ u64_to_string (os_dropped_events os w))
      in (foldl (\<lambda>rt (cid, c). log_event rt ''connection_snapshot'' cid (state_name (r_state (cn_relay c)))
              (''snapshot=1'' @ close_detail (cn_relay c) now)) rt (rt_connections rt), w))"

text \<open>The document of the metrics file; a field is a quoted name, a colon and a number.\<close>

definition connection_json :: "time \<Rightarrow> nat \<times> connection \<Rightarrow> string" where
  "connection_json now = (\<lambda>(cid, c).
     ''{'' @ [CHR 0x22] @ ''id'' @ [CHR 0x22] @ '':'' @ nat_to_string cid @ '','' @ drop 1 (metrics_json (cn_relay c) now))"

fun comma_separated :: "string list \<Rightarrow> string" where
  "comma_separated [] = []"
| "comma_separated [x] = x"
| "comma_separated (x # y # xs) = x @ '','' @ comma_separated (y # xs)"

definition build_metrics_json :: "'w os \<Rightarrow> runtime \<Rightarrow> 'w \<Rightarrow> string \<times> 'w" where
  "build_metrics_json os rt w =
     (let (now, w) = os_now os w; (wall_ms, w) = os_wall_clock os w;
          quoted = (\<lambda>s. [CHR 0x22] @ s @ [CHR 0x22]);
          config = rt_config rt
      in (''{'' @ quoted ''timestamp_ms'' @ '':'' @ int_to_string wall_ms @
          '','' @ quoted ''listen'' @ '':'' @ quoted (ep_to_string (pc_listen config)) @
          '','' @ quoted ''upstream'' @ '':'' @ quoted (ep_to_string (pc_upstream config)) @
          '','' @ quoted ''active_connections'' @ '':'' @ nat_to_string (length (rt_connections rt)) @
          '','' @ quoted ''total_accepted'' @ '':'' @ nat_to_string (rt_next_connection_id rt - 1) @
          '','' @ quoted ''pending_timers'' @ '':'' @ nat_to_string (tq_size (rt_timers rt)) @
          '','' @ quoted ''dropped_log_events'' @ '':'' @ u64_to_string (os_dropped_events os w) @
          '','' @ quoted ''closes'' @ '':{'' @
          quoted ''fully_closed'' @ '':'' @ u64_to_string (rt_closes_fully_closed rt) @
          '','' @ quoted ''reset'' @ '':'' @ u64_to_string (rt_closes_reset rt) @
          '','' @ quoted ''failed'' @ '':'' @ u64_to_string (rt_closes_failed rt) @
          '','' @ quoted ''timed_out'' @ '':'' @ u64_to_string (rt_closes_timed_out rt) @
          ''},'' @ quoted ''connections'' @ '':['' @
          comma_separated (map (connection_json now) (rt_connections rt)) @ '']}'', w))"

definition metrics_write_step ::
  "'w os \<Rightarrow> int \<Rightarrow> string \<Rightarrow> nat \<times> 'w \<Rightarrow> (nat \<times> 'w, int option \<times> 'w) loop_outcome option" where
  "metrics_write_step os fd json = (\<lambda>(offset, w).
     (if offset < length json
      then
        let ((written, errno), w) = os_write os fd (drop offset json) w
        in if written < 0
           then (if errno = EINTR then Some (Again (offset, w)) else Some (Halt (Some errno, w)))
           else Some (Again (offset + nat written, w))
      else Some (Halt (None, w))))"

definition write_metrics_file :: "'w os \<Rightarrow> runtime \<Rightarrow> 'w \<Rightarrow> (runtime \<times> 'w) option" where
  "write_metrics_file os rt w =
     (let path = pc_metrics_file (rt_config rt);
          failed = (\<lambda>rt detail. log_event rt ''metrics_file_failed'' 0 ''failed'' detail)
      in if path = [] then Some (rt, w)
         else
           let temporary_path = path @ ''.tmp'';
               (document, w) = build_metrics_json os rt w;
               json = document @ [CHR 0x0A];
               ((fd, errno), w) = os_open os temporary_path w
           in if fd < 0 then Some (failed rt (''open='' @ os_strerror os errno), w)
              else
                (case run_loop (metrics_write_step os fd json) (0, w) of
                   None \<Rightarrow> None
                 | Some (Some errno, w) \<Rightarrow> Some (failed rt (''write='' @ os_strerror os errno), os_close os fd w)
                 | Some (None, w) \<Rightarrow>
                     let w = os_close os fd w;
                         ((result, errno), w) = os_rename os temporary_path path w
                     in if result \<noteq> 0 then Some (failed rt (''rename='' @ os_strerror os errno), w)
                        else Some (log_event rt ''metrics_file_written'' 0 ''listening''
                                     (''bytes='' @ nat_to_string (length json)), w)))"

section \<open>The loop\<close>

definition kListenerToken :: nat where "kListenerToken = 1"
definition kSignalToken :: nat where "kSignalToken = 2"
definition kTimerToken :: nat where "kTimerToken = 3"
definition SIGUSR1 :: nat where "SIGUSR1 = 10"
definition sizeof_signalfd_siginfo :: int where "sizeof_signalfd_siginfo = 128"

definition signal_read_step :: "'w os \<Rightarrow> 'w \<Rightarrow> ('w, (int \<times> int \<times> nat) \<times> 'w) loop_outcome option" where
  "signal_read_step os w =
     (let ((bytes, errno, signo), w) = os_read_signal os w
      in if bytes < 0 \<and> errno = EINTR then Some (Again w) else Some (Halt ((bytes, errno, signo), w)))"

definition signal_ready :: "'w os \<Rightarrow> runtime \<Rightarrow> 'w \<Rightarrow> (bool \<times> runtime \<times> 'w) option" where
  "signal_ready os rt w =
     (case run_loop (signal_read_step os) w of
        None \<Rightarrow> None
      | Some ((bytes, errno, signo), w) \<Rightarrow>
          if bytes \<noteq> sizeof_signalfd_siginfo
          then Some (True, log_event rt ''signal_read_incomplete'' 0 ''failed'' (os_strerror os errno), w)
          else if signo = SIGUSR1
          then let (rt, w) = emit_metrics_snapshot os rt w
               in map_option (\<lambda>(rt, w). (False, rt, w)) (write_metrics_file os rt w)
          else Some (True, rt, w))"

definition drain_step :: "'w os \<Rightarrow> 'w \<Rightarrow> ('w, 'w) loop_outcome option" where
  "drain_step os w =
     (let ((bytes, errno), w) = os_read_timer os w
      in if bytes < 0 \<and> errno = EINTR then Some (Again w) else Some (Halt w))"

definition drain_timer_fd :: "'w os \<Rightarrow> 'w \<Rightarrow> 'w option" where
  "drain_timer_fd os w = run_loop (drain_step os) w"

definition timer_ready :: "'w os \<Rightarrow> runtime \<Rightarrow> 'w \<Rightarrow> (exn + runtime \<times> 'w) option" where
  "timer_ready os rt w =
     (case drain_timer_fd os w of
        None \<Rightarrow> None
      | Some w \<Rightarrow>
          let (now, w) = os_now os w
          in (case process_due_timers os now rt w of
                None \<Rightarrow> None
              | Some (Inl e) \<Rightarrow> Some (Inl e)
              | Some (Inr (processed, rt, w)) \<Rightarrow>
                  Some (Inr (log_event rt ''timer_fired'' 0 ''listening''
                    (''processed='' @ nat_to_string processed @ '',pending='' @ nat_to_string (tq_size (rt_timers rt))), w))))"

text \<open>One event; the flag says that the loop is to stop.\<close>

definition dispatch_event ::
  "'w os \<Rightarrow> inet_pton \<Rightarrow> nat \<times> 32 word \<Rightarrow> runtime \<Rightarrow> 'w \<Rightarrow> (exn + bool \<times> runtime \<times> 'w) option" where
  "dispatch_event os pton event rt w =
     (let (token, event_mask) = event;
          continue = map_option (map_sum (\<lambda>e. e) (\<lambda>(rt, w). (False, rt, w)))
      in if token = kListenerToken then continue (accept_ready os pton rt w)
         else if token = kSignalToken then map_option Inr (signal_ready os rt w)
         else if token = kTimerToken then continue (timer_ready os rt w)
         else continue (socket_ready os token event_mask rt w))"

fun dispatch_events ::
  "'w os \<Rightarrow> inet_pton \<Rightarrow> (nat \<times> 32 word) list \<Rightarrow> runtime \<Rightarrow> 'w \<Rightarrow> (exn + bool \<times> runtime \<times> 'w) option" where
  "dispatch_events os pton [] rt w = Some (Inr (False, rt, w))"
| "dispatch_events os pton (event # events) rt w =
     (case dispatch_event os pton event rt w of
        None \<Rightarrow> None
      | Some (Inl e) \<Rightarrow> Some (Inl e)
      | Some (Inr (stopping, rt, w)) \<Rightarrow>
          if stopping then Some (Inr (True, rt, w)) else dispatch_events os pton events rt w)"

definition round_step ::
  "'w os \<Rightarrow> inet_pton \<Rightarrow> runtime \<times> 'w \<Rightarrow> (runtime \<times> 'w, exn + runtime \<times> 'w) loop_outcome option" where
  "round_step os pton = (\<lambda>(rt, w).
     (let ((count, errno, events), w) = os_epoll_wait os w
      in if count < 0
         then (if errno = EINTR then Some (Again (rt, w))
               else Some (Halt (Inl (RuntimeError (''epoll_wait: '' @ os_strerror os errno)))))
         else
           (case dispatch_events os pton (take (nat count) events) rt w of
              None \<Rightarrow> None
            | Some (Inl e) \<Rightarrow> Some (Halt (Inl e))
            | Some (Inr (stopping, rt, w)) \<Rightarrow>
                let (rt, w) = arm_timer_fd os rt w
                in if stopping then Some (Halt (Inr (rt, w))) else Some (Again (rt, w)))))"

definition shutdown_step :: "'w os \<Rightarrow> time \<Rightarrow> runtime \<times> 'w \<Rightarrow> (runtime \<times> 'w, runtime \<times> 'w) loop_outcome option" where
  "shutdown_step os now = (\<lambda>(rt, w).
     (case rt_connections rt of
        [] \<Rightarrow> Some (Halt (rt, w))
      | (cid, _) # _ \<Rightarrow> Some (Again (close_connection os cid FullyClosed ''proxy_shutdown'' now rt w))))"

definition shutdown_all :: "'w os \<Rightarrow> time \<Rightarrow> runtime \<Rightarrow> 'w \<Rightarrow> (runtime \<times> 'w) option" where
  "shutdown_all os now rt w = run_loop (shutdown_step os now) (rt, w)"

definition stop_runtime :: "'w os \<Rightarrow> runtime \<Rightarrow> 'w \<Rightarrow> (int \<times> runtime \<times> 'w) option" where
  "stop_runtime os rt w =
     (let (now, w) = os_now os w
      in (case shutdown_all os now rt w of
            None \<Rightarrow> None
          | Some (rt, w) \<Rightarrow>
              (case write_metrics_file os rt w of
                 None \<Rightarrow> None
               | Some (rt, w) \<Rightarrow>
                   Some (0, log_event rt ''proxy_stopped'' 0 ''fully_closed''
                     (''dropped_log_events='' @ u64_to_string (os_dropped_events os w)), w))))"

definition proxy_started :: "runtime \<Rightarrow> runtime" where
  "proxy_started rt = log_event rt ''proxy_started'' 0 ''listening''
     (''listen='' @ ep_to_string (pc_listen (rt_config rt)) @ '',upstream='' @ ep_to_string (pc_upstream (rt_config rt)))"

definition proxy_run :: "'w os \<Rightarrow> inet_pton \<Rightarrow> runtime \<Rightarrow> 'w \<Rightarrow> (exn + int \<times> runtime \<times> 'w) option" where
  "proxy_run os pton rt w =
     (let rt = proxy_started rt
      in (case run_loop (round_step os pton) (rt, w) of
            None \<Rightarrow> None
          | Some (Inl e) \<Rightarrow> Some (Inl e)
          | Some (Inr (rt, w)) \<Rightarrow> map_option Inr (stop_runtime os rt w)))"

end
