(* ===== verification/Proxy_Invariants.thy ===== *)
theory Proxy_Invariants
  imports Proxy_Runtime
begin

text \<open>
  The invariant of the event loop's state and its preservation by every handler: the connection
  table and the token bindings agree, the connection limit holds, every accepted connection is
  either open or counted in exactly one close counter, every relay satisfies its invariant, and a
  connection that has recorded a wake-up has a timer for it in the queue.
\<close>

section \<open>Invariant\<close>

definition token_pairs :: "(nat \<times> connection) list \<Rightarrow> (nat \<times> nat \<times> side) set" where
  "token_pairs cs = (\<Union>(k, c) \<in> set cs. {(cn_client_token c, k, Client), (cn_upstream_token c, k, Upstream)})"

definition connection_ok :: "nat \<Rightarrow> nat \<times> connection \<Rightarrow> bool" where
  "connection_ok next_id = (\<lambda>(k, c). cn_id c = k \<and> k < next_id \<and> relay_inv (cn_relay c) \<and>
     fd_for (cn_relay c) Client = cn_client_fd c \<and> fd_for (cn_relay c) Upstream = cn_upstream_fd c)"

definition closes :: "runtime \<Rightarrow> u64" where
  "closes rt = rt_closes_fully_closed rt + rt_closes_reset rt + rt_closes_failed rt + rt_closes_timed_out rt"

definition table_inv :: "proxy_config \<Rightarrow> runtime \<Rightarrow> bool" where
  "table_inv config rt \<longleftrightarrow> rt_config rt = config \<and> relay_config_ok (relay_config_of config) \<and>
     distinct (map fst (rt_connections rt)) \<and>
     (\<forall>x \<in> set (rt_connections rt). connection_ok (rt_next_connection_id rt) x) \<and>
     distinct (map fst (rt_bindings rt)) \<and> set (rt_bindings rt) = token_pairs (rt_connections rt) \<and>
     (\<forall>(t, _) \<in> set (rt_bindings rt). 4 \<le> t \<and> t < rt_next_token rt) \<and> 4 \<le> rt_next_token rt \<and>
     length (rt_connections rt) \<le> pc_max_connections config \<and>
     1 \<le> rt_next_connection_id rt \<and>
     of_nat (rt_next_connection_id rt - 1) = of_nat (length (rt_connections rt)) + closes rt \<and>
     tq_inv (rt_timers rt)"

text \<open>
  What may be known of every relay in addition: any predicate \<open>P\<close> that the relay's operations at
  the current time keep. A recorded wake-up has a pump timer at exactly its time.
\<close>

definition wake_pending :: "timer_event list \<Rightarrow> nat \<times> connection \<Rightarrow> bool" where
  "wake_pending timers = (\<lambda>(k, c). pred_option (\<lambda>t. \<exists>e \<in> set timers. te_deadline e = t \<and>
     te_connection_id e = k \<and> te_kind e = Pump) (cn_scheduled_wake c))"

definition runtime_inv :: "proxy_config \<Rightarrow> (relay \<Rightarrow> bool) \<Rightarrow> runtime \<Rightarrow> bool" where
  "runtime_inv config P rt \<longleftrightarrow> table_inv config rt \<and>
     (\<forall>x \<in> set (rt_connections rt). wake_pending (tq_heap (rt_timers rt)) x \<and> P (cn_relay (snd x)))"

section \<open>The table\<close>

lemma find_connection_iff:
  "distinct (map fst (rt_connections rt)) \<Longrightarrow>
     find_connection rt cid = Some c \<longleftrightarrow> (cid, c) \<in> set (rt_connections rt)"
  by (simp add: find_connection_def)

lemma table_invD:
  assumes "table_inv config rt" and "find_connection rt cid = Some c"
  shows "(cid, c) \<in> set (rt_connections rt)" and "cn_id c = cid" and "relay_inv (cn_relay c)"
    and "connection_ok (rt_next_connection_id rt) (cid, c)"
proof -
  show m: "(cid, c) \<in> set (rt_connections rt)"
    using assms by (simp add: table_inv_def find_connection_iff)
  show ok: "connection_ok (rt_next_connection_id rt) (cid, c)"
    using m assms(1) by (auto simp: table_inv_def)
  then show "cn_id c = cid" and "relay_inv (cn_relay c)" by (simp_all add: connection_ok_def)
qed

lemma log_event_inv [simp]:
  "table_inv config (log_event rt a b d e) = table_inv config rt"
  "runtime_inv config P (log_event rt a b d e) = runtime_inv config P rt"
  by (simp_all add: runtime_inv_def table_inv_def log_event_def closes_def)

lemma log_event_view [simp]:
  "rt_connections (log_event rt a b d e) = rt_connections rt"
  "rt_bindings (log_event rt a b d e) = rt_bindings rt"
  "rt_timers (log_event rt a b d e) = rt_timers rt"
  "rt_config (log_event rt a b d e) = rt_config rt"
  "find_connection (log_event rt a b d e) cid = find_connection rt cid"
  by (simp_all add: log_event_def find_connection_def)

lemma put_connection_view [simp]:
  "rt_bindings (put_connection rt cid c) = rt_bindings rt"
  "rt_timers (put_connection rt cid c) = rt_timers rt"
  "rt_config (put_connection rt cid c) = rt_config rt"
  "rt_next_connection_id (put_connection rt cid c) = rt_next_connection_id rt"
  "rt_next_token (put_connection rt cid c) = rt_next_token rt"
  "closes (put_connection rt cid c) = closes rt"
  "map fst (rt_connections (put_connection rt cid c)) = map fst (rt_connections rt)"
  "length (rt_connections (put_connection rt cid c)) = length (rt_connections rt)"
  by (simp_all add: put_connection_def closes_def comp_def case_prod_unfold)

lemma put_connection_set:
  assumes "distinct (map fst (rt_connections rt))" and "find_connection rt cid = Some c"
  shows "set (rt_connections (put_connection rt cid c')) = insert (cid, c') (set (rt_connections rt) - {(cid, c)})"
proof -
  have m: "(cid, c) \<in> set (rt_connections rt)" using assms by (simp add: find_connection_iff)
  have unique: "v = c" if "(cid, v) \<in> set (rt_connections rt)" for v
    using that m assms(1) by (metis map_of_eq_Some_iff option.inject)
  have "(k, v) \<in> set (rt_connections (put_connection rt cid c')) \<longleftrightarrow>
      (k, v) \<in> insert (cid, c') (set (rt_connections rt) - {(cid, c)})" for k v
  proof (cases "k = cid")
    case True
    then have "(k, v) \<in> set (rt_connections (put_connection rt cid c')) \<longleftrightarrow> v = c'"
      using m unfolding put_connection_def by force
    with True unique show ?thesis by auto
  next
    case False
    then show ?thesis unfolding put_connection_def by force
  qed
  then show ?thesis by auto
qed

lemma put_connection_find:
  assumes "find_connection rt cid = Some c"
  shows "find_connection (put_connection rt cid c') k = (if k = cid then Some c' else find_connection rt k)"
proof -
  have "map_of (map (\<lambda>(k, v). (k, if k = cid then c' else v)) xs) k =
      (if k = cid then map_option (\<lambda>_. c') (map_of xs cid) else map_of xs k)" for xs :: "(nat \<times> connection) list"
    by (induction xs) auto
  with assms show ?thesis by (simp add: find_connection_def put_connection_def)
qed

text \<open>Replacing a connection by one that is wired the same way.\<close>

definition same_wiring :: "connection \<Rightarrow> connection \<Rightarrow> bool" where
  "same_wiring c c' \<longleftrightarrow> cn_id c' = cn_id c \<and> cn_client_fd c' = cn_client_fd c \<and>
     cn_upstream_fd c' = cn_upstream_fd c \<and> cn_client_token c' = cn_client_token c \<and>
     cn_upstream_token c' = cn_upstream_token c \<and>
     (\<forall>s. fd_for (cn_relay c') s = fd_for (cn_relay c) s)"

lemma put_connection_inv:
  assumes inv: "table_inv config rt" and find: "find_connection rt cid = Some c"
    and wired: "same_wiring c c'" and relay: "relay_inv (cn_relay c')"
  shows "table_inv config (put_connection rt cid c')"
proof -
  have d: "distinct (map fst (rt_connections rt))" using inv by (simp add: table_inv_def)
  note set_eq = put_connection_set [OF d find, of c'] and D = table_invD [OF inv find]
  have "connection_ok (rt_next_connection_id rt) (cid, c')"
    using D(4) wired relay by (simp add: connection_ok_def same_wiring_def)
  then have ok: "\<forall>x \<in> set (rt_connections (put_connection rt cid c')). connection_ok (rt_next_connection_id rt) x"
    using inv unfolding set_eq by (auto simp: table_inv_def)
  have "token_pairs (rt_connections (put_connection rt cid c')) = token_pairs (rt_connections rt)"
    using wired D(1) unfolding token_pairs_def set_eq by (auto simp: same_wiring_def)
  with inv ok show ?thesis by (simp add: table_inv_def)
qed

lemma put_connection_restores:
  assumes t: "table_inv config rt" and find: "find_connection rt cid = Some c"
    and wired: "same_wiring c c'" and relay: "relay_inv (cn_relay c')"
    and others: "\<And>k v. (k, v) \<in> set (rt_connections rt) \<Longrightarrow> k \<noteq> cid \<Longrightarrow>
      wake_pending (tq_heap (rt_timers rt)) (k, v) \<and> P (cn_relay v)"
    and new: "wake_pending (tq_heap (rt_timers rt)) (cid, c')" "P (cn_relay c')"
  shows "runtime_inv config P (put_connection rt cid c')"
proof -
  have d: "distinct (map fst (rt_connections rt))" using t by (simp add: table_inv_def)
  have "v = c" if "(cid, v) \<in> set (rt_connections rt)" for v
    using that find d by (simp add: find_connection_iff [OF d, symmetric])
  with put_connection_inv [OF t find wired relay] put_connection_set [OF d find, of c'] new others
  show ?thesis by (auto simp: runtime_inv_def) metis
qed

lemma put_connection_runtime_inv:
  assumes inv: "runtime_inv config P rt" and find: "find_connection rt cid = Some c"
    and wired: "same_wiring c c'" and relay: "relay_inv (cn_relay c')"
    and wake: "cn_scheduled_wake c' = cn_scheduled_wake c" and P: "P (cn_relay c')"
  shows "runtime_inv config P (put_connection rt cid c')"
proof (rule put_connection_restores [OF _ find wired relay])
  show t: "table_inv config rt" using inv by (simp add: runtime_inv_def)
  have "wake_pending (tq_heap (rt_timers rt)) (cid, c)"
    using inv table_invD(1) [OF t find] by (auto simp: runtime_inv_def)
  then show "wake_pending (tq_heap (rt_timers rt)) (cid, c')" using wake by (simp add: wake_pending_def)
qed (use inv P in \<open>auto simp: runtime_inv_def\<close>)

lemma schedule_inv:
  assumes "runtime_inv config P rt"
  shows "runtime_inv config P (rt\<lparr>rt_timers := tq_schedule (rt_timers rt) t cid kind\<rparr>)"
proof -
  have "wake_pending (tq_heap (tq_schedule (rt_timers rt) t cid kind)) x"
    if "wake_pending (tq_heap (rt_timers rt)) x" for x
    using that by (cases x) (auto simp: wake_pending_def tq_schedule_def pred_option_iff)
  with assms show ?thesis
    by (simp add: runtime_inv_def table_inv_def closes_def tq_schedule_inv)
qed

section \<open>Closing\<close>

lemma token_pairs_erase:
  assumes "table_inv config rt" and "find_connection rt cid = Some c"
  shows "set (filter (\<lambda>(t, _). t \<noteq> cn_upstream_token c) (filter (\<lambda>(t, _). t \<noteq> cn_client_token c) (rt_bindings rt))) =
    token_pairs (filter (\<lambda>(k, _). k \<noteq> cid) (rt_connections rt))"
proof -
  have d: "distinct (map fst (rt_connections rt))" "distinct (map fst (rt_bindings rt))"
    and b: "set (rt_bindings rt) = token_pairs (rt_connections rt)"
    using assms(1) by (simp_all add: table_inv_def)
  have m: "(cid, c) \<in> set (rt_connections rt)" using table_invD(1) [OF assms] .
  have own: "k = cid" if "(t, k, s) \<in> set (rt_bindings rt)" "t = cn_client_token c \<or> t = cn_upstream_token c" for t k s
  proof -
    have "(t, cid, Client) \<in> set (rt_bindings rt) \<or> (t, cid, Upstream) \<in> set (rt_bindings rt)"
      using that(2) m unfolding b token_pairs_def by force
    with that(1) d(2) show ?thesis by (metis map_of_eq_Some_iff option.inject prod.inject)
  qed
  have same: "v = c" if "(cid, v) \<in> set (rt_connections rt)" for v
    using that m d(1) by (metis map_of_eq_Some_iff option.inject)
  show ?thesis
  proof (intro set_eqI iffI; clarsimp)
    fix t k s
    assume "(t, k, s) \<in> set (rt_bindings rt)" "t \<noteq> cn_client_token c" "t \<noteq> cn_upstream_token c"
    then show "(t, k, s) \<in> token_pairs (filter (\<lambda>(k, _). k \<noteq> cid) (rt_connections rt))"
      using same unfolding b token_pairs_def by fastforce
  next
    fix t k s
    assume p: "(t, k, s) \<in> token_pairs (filter (\<lambda>(k, _). k \<noteq> cid) (rt_connections rt))"
    then have "k \<noteq> cid" "(t, k, s) \<in> set (rt_bindings rt)" unfolding b token_pairs_def by auto
    with own show "(t, k, s) \<in> set (rt_bindings rt) \<and> t \<noteq> cn_client_token c \<and> t \<noteq> cn_upstream_token c"
      by blast
  qed
qed

lemma length_erase:
  "distinct (map fst xs) \<Longrightarrow> (k, v) \<in> set xs \<Longrightarrow> length xs = Suc (length (filter (\<lambda>(k', _). k' \<noteq> k) xs))"
proof (induction xs)
  case (Cons x xs)
  show ?case
  proof (cases "fst x = k")
    case True
    with Cons.prems(1) have "filter (\<lambda>(k', _). k' \<noteq> k) xs = xs"
      by (intro filter_True) (auto simp: image_iff)
    with True show ?thesis by (auto simp: case_prod_unfold)
  next
    case False
    with Cons show ?thesis by (auto simp: case_prod_unfold)
  qed
qed simp

lemma distinct_keys_filter: "distinct (map fst xs) \<Longrightarrow> distinct (map fst (filter P xs))"
  by (induction xs) auto

lemma count_close_view [simp]:
  "rt_connections (count_close rt st) = rt_connections rt" "rt_bindings (count_close rt st) = rt_bindings rt"
  "rt_timers (count_close rt st) = rt_timers rt" "rt_config (count_close rt st) = rt_config rt"
  "rt_next_connection_id (count_close rt st) = rt_next_connection_id rt"
  "rt_next_token (count_close rt st) = rt_next_token rt" "closes (count_close rt st) = closes rt + 1"
  by (simp_all add: count_close_def closes_def)

lemma log_event_counts [simp]:
  "rt_next_connection_id (log_event rt a b d e) = rt_next_connection_id rt"
  "rt_next_token (log_event rt a b d e) = rt_next_token rt" "closes (log_event rt a b d e) = closes rt"
  by (simp_all add: log_event_def closes_def)

lemma closes_frame [simp]:
  "closes (rt\<lparr>rt_bindings := bs\<rparr>) = closes rt" "closes (rt\<lparr>rt_connections := cs\<rparr>) = closes rt"
  "closes (rt\<lparr>rt_timers := q\<rparr>) = closes rt"
  by (simp_all add: closes_def)

text \<open>What closing a connection leaves of the state.\<close>

definition closed_from :: "nat \<Rightarrow> runtime \<Rightarrow> runtime \<Rightarrow> bool" where
  "closed_from cid rt rt' \<longleftrightarrow> rt_connections rt' = filter (\<lambda>(k, _). k \<noteq> cid) (rt_connections rt) \<and>
     closes rt' = closes rt + 1 \<and> rt_timers rt' = rt_timers rt \<and>
     rt_next_connection_id rt' = rt_next_connection_id rt"

lemma close_connection_ok:
  assumes inv: "table_inv config rt" and find: "find_connection rt cid = Some c"
    and close: "close_connection os cid st detail now rt w = (rt', w')"
  shows "table_inv config rt'" and "closed_from cid rt rt'"
proof -
  let ?cs = "filter (\<lambda>(k, _). k \<noteq> cid) (rt_connections rt)"
  let ?bs = "filter (\<lambda>(t, _). t \<noteq> cn_upstream_token c) (filter (\<lambda>(t, _). t \<noteq> cn_client_token c) (rt_bindings rt))"
  have view: "rt_connections rt' = ?cs" "rt_bindings rt' = ?bs" "rt_timers rt' = rt_timers rt"
    "rt_config rt' = rt_config rt" "rt_next_connection_id rt' = rt_next_connection_id rt"
    "rt_next_token rt' = rt_next_token rt" "closes rt' = closes rt + 1"
    using close find by (auto simp: close_connection_def Let_def simp del: filter_filter)
  then show "closed_from cid rt rt'" by (simp add: closed_from_def)
  have len: "length (rt_connections rt) = Suc (length ?cs)"
    using inv table_invD(1) [OF inv find] by (intro length_erase) (auto simp: table_inv_def)
  have counted: "of_nat (rt_next_connection_id rt - 1) = of_nat (length (rt_connections rt)) + closes rt"
    using inv by (simp add: table_inv_def)
  then have "of_nat (rt_next_connection_id rt - 1) = of_nat (length ?cs) + (closes rt + 1)"
    unfolding len by simp
  moreover have "distinct (map fst ?cs)" and "distinct (map fst ?bs)"
    using inv by (auto simp: table_inv_def intro!: distinct_keys_filter)
  ultimately show "table_inv config rt'"
    using inv len token_pairs_erase [OF inv find]
    unfolding table_inv_def view set_filter [of "\<lambda>(k, _). k \<noteq> cid" "rt_connections rt"]
    by (simp del: set_filter) (simp; blast)
qed

lemma close_connection_runtime_inv:
  assumes inv: "runtime_inv config P rt"
    and close: "close_connection os cid st detail now rt w = (rt', w')"
  shows "runtime_inv config P rt'" and "find_connection rt' cid = None"
proof -
  have "runtime_inv config P rt' \<and> find_connection rt' cid = None"
  proof (cases "find_connection rt cid")
    case None
    with inv close show ?thesis by (simp add: close_connection_def)
  next
    case (Some c)
    have t: "table_inv config rt" using inv by (simp add: runtime_inv_def)
    note ok = close_connection_ok [OF t Some close]
    moreover have "find_connection rt' cid = None"
      using ok(2) by (auto simp: closed_from_def find_connection_def map_of_eq_None_iff)
    ultimately show ?thesis using inv by (auto simp: runtime_inv_def closed_from_def)
  qed
  then show "runtime_inv config P rt'" and "find_connection rt' cid = None" by simp_all
qed

section \<open>Interest and wake-ups\<close>

text \<open>
  The relay's operations at time \<open>now\<close> keep its invariant and descriptors, and the clocks of its
  token buckets do not run ahead of any time from \<open>now\<close> on.
\<close>

definition relay_timely :: "time \<Rightarrow> relay \<Rightarrow> bool" where
  "relay_timely now r \<longleftrightarrow> (\<forall>s. pred_option (channel_timely now) (d_fault (direction_from r s)))"

definition relay_keeps :: "time \<Rightarrow> relay \<Rightarrow> relay \<Rightarrow> bool" where
  "relay_keeps now r r' \<longleftrightarrow> relay_inv r' \<and> (\<forall>s. fd_for r' s = fd_for r s) \<and>
     (\<forall>T \<ge> now. relay_timely T r \<longrightarrow> relay_timely T r')"

definition kept :: "time \<Rightarrow> (relay \<Rightarrow> bool) \<Rightarrow> bool" where
  "kept now P \<longleftrightarrow> (\<forall>r r'. P r \<longrightarrow> relay_keeps now r r' \<longrightarrow> P r')"

lemma kept_examples [simp]: "kept now (\<lambda>_. True)" "now \<le> T \<Longrightarrow> kept now (relay_timely T)"
  by (simp_all add: kept_def relay_keeps_def)

lemma relay_keeps_refl: "relay_inv r \<Longrightarrow> relay_keeps now r r"
  by (simp add: relay_keeps_def)

lemma direction_sent_timely:
  assumes "direction_sent now k d d'" and "now \<le> T" and "pred_option (channel_timely T) (d_fault d)"
  shows "pred_option (channel_timely T) (d_fault d')"
proof (cases "d_fault d")
  case (Some c)
  with assms obtain c' where c': "d_fault d' = Some c'" "channel_sent now k c c'" "channel_timely T c"
    by (auto simp: direction_sent_def option_rel_Some1)
  then have "channel_timely T c'"
    using assms(2)
    by (cases "fc_bucket c") (auto simp: channel_sent_def channel_timely_def option_rel_Some1 tb_exact_def)
  with c' show ?thesis by simp
qed (use assms in \<open>simp add: direction_sent_def\<close>)

lemma timelyI:
  assumes "pred_option (channel_timely T) (d_fault (direction_from r' s))"
    and "direction_from r' (opposite s) = direction_from r (opposite s)" and "relay_timely T r"
  shows "relay_timely T r'"
  unfolding relay_timely_def
proof
  fix s'
  show "pred_option (channel_timely T) (d_fault (direction_from r' s'))"
    using side_cases [of s' s] assms by (auto simp: relay_timely_def)
qed

lemma write_effect_keeps: "write_effect s now k r r' \<Longrightarrow> relay_keeps now r r'"
  using same_lifecycleD(1) direction_sent_timely timelyI [of _ r' s r]
  by (auto simp: write_effect_def relay_keeps_def relay_timely_def)

lemma refreshed_keeps: "relay_inv r \<Longrightarrow> relay_keeps now r (refreshed r s limit now)"
  by (rule write_effect_keeps [OF refreshed_write_effect])

lemma read_effect_keeps:
  assumes "read_effect s xs r r'"
  shows "relay_keeps now r r'"
proof -
  have b: "bucket_of (direction_from r' s) = bucket_of (direction_from r s)"
    using assms by (simp add: read_effect_def)
  then have "pred_option (channel_timely T) (d_fault (direction_from r' s))" if "relay_timely T r" for T
    using that unfolding relay_timely_def
    by (cases "d_fault (direction_from r s)"; cases "d_fault (direction_from r' s)")
      (auto simp: channel_timely_def dest!: spec [of _ s])
  with assms timelyI [of _ r' s r] show ?thesis by (auto simp: read_effect_def relay_keeps_def)
qed

lemma quiet_effect_keeps: "quiet_effect r r' \<Longrightarrow> relay_keeps now r r'"
  by (simp add: quiet_effect_def relay_keeps_def relay_timely_def)

lemma mark_upstream_connected_keeps: "relay_inv r \<Longrightarrow> relay_keeps now r (mark_upstream_connected r)"
  using mark_upstream_connected_inv [of r]
  by (simp add: relay_keeps_def relay_timely_def mark_upstream_connected_def)

lemma desired_interest_keeps:
  assumes "relay_inv r" and "desired_interest r s now = (i, r')"
  shows "relay_keeps now r r'"
  using desired_interest_relay [of r "opposite s" now i r'] refreshed_keeps relay_keeps_refl assms
  by auto

lemma next_wake_keeps:
  assumes "relay_inv r" and "next_wake r s now = (t, r')"
  shows "relay_keeps now r r'"
  using next_wake_relay [of r "opposite s" now t r'] refreshed_keeps relay_keeps_refl assms
  by auto

lemma relay_keeps_trans: "relay_keeps now a b \<Longrightarrow> relay_keeps now b c \<Longrightarrow> relay_keeps now a c"
  by (simp add: relay_keeps_def)

lemma put_relay_inv:
  assumes inv: "runtime_inv config P rt" and find: "find_connection rt cid = Some c"
    and keeps: "relay_keeps now (cn_relay c) r" and kept: "kept now P"
    and c': "c' = c\<lparr>cn_relay := r\<rparr> \<or> c' = c\<lparr>cn_relay := r, cn_client_mask := m\<rparr> \<or> c' = c\<lparr>cn_relay := r, cn_upstream_mask := m\<rparr>"
  shows "runtime_inv config P (put_connection rt cid c')"
proof -
  have "table_inv config rt" using inv by (simp add: runtime_inv_def)
  from table_invD(1) [OF this find] have "P (cn_relay c)" using inv by (auto simp: runtime_inv_def)
  with keeps kept have "P r" unfolding kept_def by blast
  with c' keeps show ?thesis
    by (intro put_connection_runtime_inv [OF inv find]) (auto simp: same_wiring_def relay_keeps_def)
qed

lemma runtime_inv_relay:
  assumes "runtime_inv config P rt" and "find_connection rt cid = Some c"
  shows "relay_inv (cn_relay c)" and "P (cn_relay c)" and "table_inv config rt"
proof -
  show t: "table_inv config rt" using assms(1) by (simp add: runtime_inv_def)
  show "relay_inv (cn_relay c)" by (rule table_invD(3) [OF t assms(2)])
  show "P (cn_relay c)" using table_invD(1) [OF t assms(2)] assms(1) by (auto simp: runtime_inv_def)
qed

lemma apply_interest_ok:
  assumes inv: "runtime_inv config P rt" and kept: "kept now P" and ok: "apply_interest os cid s now rt w = Inr (rt', w')"
  shows "runtime_inv config P rt'" and "find_connection rt cid \<noteq> None \<Longrightarrow> find_connection rt' cid \<noteq> None"
proof -
  have "runtime_inv config P rt' \<and> (find_connection rt cid \<noteq> None \<longrightarrow> find_connection rt' cid \<noteq> None)"
  proof (cases "find_connection rt cid")
    case None
    with inv ok show ?thesis by (simp add: apply_interest_def)
  next
    case (Some c)
    obtain i r where r: "desired_interest (cn_relay c) s now = (i, r)" by fastforce
    note put = put_relay_inv [OF inv Some desired_interest_keeps [OF runtime_inv_relay(1) [OF inv Some] r] kept]
    show ?thesis
      using ok Some r put
      by (auto simp: apply_interest_def Let_def put_connection_find split: if_splits sum.splits)
  qed
  then show "runtime_inv config P rt'" and "find_connection rt cid \<noteq> None \<Longrightarrow> find_connection rt' cid \<noteq> None"
    by simp_all
qed

text \<open>The exceptions that come from epoll: the message starts with the call that failed.\<close>

definition epoll_failure :: "exn \<Rightarrow> bool" where
  "epoll_failure e \<longleftrightarrow> (\<exists>call \<in> {''epoll_ctl(ADD): '', ''epoll_ctl(MOD): '', ''epoll_wait: ''}. \<exists>text. e = RuntimeError (call @ text))"

lemma epoll_failure_thrown [simp]:
  "epoll_failure (RuntimeError (''epoll_ctl(ADD): '' @ text))" "epoll_failure (RuntimeError (''epoll_ctl(MOD): '' @ text))"
  "epoll_failure (RuntimeError (''epoll_wait: '' @ text))"
  unfolding epoll_failure_def by blast+

lemma add_epoll_error: "add_epoll os fd events token w = Inl e \<Longrightarrow> epoll_failure e"
  unfolding add_epoll_def Let_def using epoll_failure_thrown(1) by (auto simp del: append.simps split: prod.splits if_splits)

lemma modify_epoll_error: "modify_epoll os fd events token w = Inl e \<Longrightarrow> epoll_failure e"
  unfolding modify_epoll_def Let_def using epoll_failure_thrown(2) by (auto simp del: append.simps split: prod.splits if_splits)

lemma apply_interest_error:
  assumes "apply_interest os cid s now rt w = Inl e"
  shows "epoll_failure e"
  using assms modify_epoll_error
  by (auto simp: apply_interest_def Let_def split: option.splits prod.splits if_splits sum.splits)

text \<open>Asking a second time gives the same wake-up, and asking for the other side does not change it.\<close>

lemma fault_sendable_idem:
  assumes "fault_sendable d limit now = (b, d1)"
  shows "fault_sendable d1 limit now = (b, d1)"
proof (cases "d_fault d")
  case (Some c)
  show ?thesis
  proof (cases "fc_bucket c")
    case None
    with Some assms show ?thesis by (auto simp: fault_sendable_def Let_def)
  next
    case (Some k)
    define l where "l = (case fc_delay c of None \<Rightarrow> limit | Some line \<Rightarrow> min limit (dl_releasable line now))"
    have d1: "d1 = d\<lparr>d_fault := Some (c\<lparr>fc_bucket := Some (tb_refill k now)\<rparr>)\<rparr>"
      and b: "b = (if tb_tokens (tb_refill k now) < release_quantum l (tb_burst (tb_refill k now)) then 0
                   else min l (tb_tokens (tb_refill k now)))"
      using assms \<open>d_fault d = Some c\<close> Some
      by (auto simp: fault_sendable_def tb_available_def Let_def l_def [symmetric] split: if_splits)
    show ?thesis
      unfolding d1 b fault_sendable_def by (simp add: tb_available_def Let_def l_def [symmetric])
  qed
qed (use assms in simp)

lemma next_wake_again:
  assumes "next_wake r s now = (t, r')"
  shows "fst (next_wake r' s now) = t"
proof (cases "write_open r s \<and> \<not> (s = Upstream \<and> r_upstream_connecting r) \<and>
    \<not> bq_empty (queue_from r (opposite s)) \<and> d_fault (direction_from r (opposite s)) \<noteq> None")
  case True
  obtain b d1 where grant: "fault_sendable (direction_from r (opposite s)) (bq_size (queue_from r (opposite s))) now = (b, d1)"
    by fastforce
  note view = fault_sendable_view [OF grant]
  obtain c1 where c1: "d_fault d1 = Some c1" using True fault_sendable_channel grant by fastforce
  have first: "(t, r') = (if 0 < b then None else wake_time c1 (bq_size (queue_from r (opposite s))) now,
      set_direction r (opposite s) d1)"
    using next_wake_eq [OF _ _ _ grant c1] True assms by simp
  then have r': "r' = set_direction r (opposite s) d1" by simp
  have "next_wake r' (opposite (opposite s)) now =
    (if 0 < b then None else wake_time c1 (bq_size (queue_from r' (opposite s))) now, set_direction r' (opposite s) d1)"
    using True fault_sendable_idem [OF grant] view c1 by (intro next_wake_eq) (simp_all add: r')
  with first view show ?thesis by (simp add: r')
next
  case False
  with assms have "next_wake r s now = (None, r)" by (auto simp: next_wake_def Let_def)
  with assms show ?thesis by simp
qed

lemma next_wake_other:
  assumes "next_wake r s now = (t, r')"
  shows "fst (next_wake r' (opposite s) now) = fst (next_wake r (opposite s) now)"
proof -
  have "r' = r \<or> (\<exists>d. r' = set_direction r (opposite s) d)"
    using next_wake_relay [of r "opposite s" now t r'] assms by (auto simp: refreshed_def)
  moreover have "fst (next_wake (set_direction r (opposite s) d) (opposite s) now) = fst (next_wake r (opposite s) now)" for d
  proof (cases "write_open r (opposite s) \<and> \<not> (opposite s = Upstream \<and> r_upstream_connecting r) \<and>
      \<not> bq_empty (queue_from r s) \<and> d_fault (direction_from r s) \<noteq> None")
    case True
    obtain b d1 where grant: "fault_sendable (direction_from r s) (bq_size (queue_from r s)) now = (b, d1)"
      by fastforce
    obtain c1 where c1: "d_fault d1 = Some c1" using True fault_sendable_channel grant by fastforce
    show ?thesis
      using True grant next_wake_eq [OF _ _ _ grant c1] c1
      by (subst next_wake_eq [where b = b and ?d1.0 = d1 and ?c1.0 = c1]) simp_all
  next
    case False
    then show ?thesis by (auto simp: next_wake_def Let_def)
  qed
  ultimately show ?thesis by auto
qed

text \<open>The recorded wake-up is no later than any time the relay asks to be woken at.\<close>

definition wake_covered :: "time \<Rightarrow> connection \<Rightarrow> bool" where
  "wake_covered now c \<longleftrightarrow> (\<forall>s t. fst (next_wake (cn_relay c) s now) = Some t \<longrightarrow>
     pred_option (\<lambda>planned. planned \<le> t) (cn_scheduled_wake c) \<and> cn_scheduled_wake c \<noteq> None)"

lemma put_connection_timers:
  "(put_connection rt cid c)\<lparr>rt_timers := q\<rparr> = put_connection (rt\<lparr>rt_timers := q\<rparr>) cid c"
  by (simp add: put_connection_def)

lemma find_connection_timers [simp]: "find_connection (rt\<lparr>rt_timers := q\<rparr>) cid = find_connection rt cid"
  by (simp add: find_connection_def)

text \<open>The earlier of the two wake-ups a connection may ask for, as \<^verbatim>\<open>schedule_relay_wake\<close> computes it.\<close>

lemma earliest_le:
  assumes "wake = (case down of None \<Rightarrow> up | Some candidate \<Rightarrow>
      (case up of None \<Rightarrow> Some candidate | Some best \<Rightarrow> if candidate < best then Some candidate else up))"
  shows "up = Some (t::time) \<or> down = Some t \<Longrightarrow> \<exists>u. wake = Some u \<and> u \<le> t"
    and "wake = Some u \<Longrightarrow> up = Some u \<or> down = Some u"
  using assms by (auto split: option.splits if_splits)

lemma schedule_relay_wake_eq:
  assumes inv: "runtime_inv config P rt" and find: "find_connection rt cid = Some c"
  obtains wake r where "relay_keeps now (cn_relay c) r"
    and "\<And>s t. fst (next_wake r s now) = Some t \<Longrightarrow> \<exists>u. wake = Some u \<and> u \<le> t"
    and "\<And>u. wake = Some u \<Longrightarrow> \<exists>s. fst (next_wake r s now) = Some u"
    and "schedule_relay_wake cid now rt =
      (case wake of
         None \<Rightarrow> put_connection rt cid (c\<lparr>cn_relay := r\<rparr>)
       | Some t \<Rightarrow>
           if cn_scheduled_wake c = None \<or> t < the (cn_scheduled_wake c)
           then put_connection (rt\<lparr>rt_timers := tq_schedule (rt_timers rt) t (cn_id c) Pump\<rparr>) cid
                  (c\<lparr>cn_relay := r, cn_scheduled_wake := Some t\<rparr>)
           else put_connection rt cid (c\<lparr>cn_relay := r\<rparr>))"
proof -
  obtain up r1 where up: "next_wake (cn_relay c) Upstream now = (up, r1)" by fastforce
  obtain down r where down: "next_wake r1 Client now = (down, r)" by fastforce
  define wake where "wake = (case down of None \<Rightarrow> up | Some candidate \<Rightarrow>
      (case up of None \<Rightarrow> Some candidate | Some best \<Rightarrow> if candidate < best then Some candidate else up))"
  note keeps1 = next_wake_keeps [OF runtime_inv_relay(1) [OF inv find] up]
  have keeps: "relay_keeps now (cn_relay c) r"
    using keeps1 down by (intro relay_keeps_trans [OF keeps1] next_wake_keeps) (auto simp: relay_keeps_def)
  have again: "fst (next_wake r Client now) = down" "fst (next_wake r Upstream now) = up"
    using next_wake_again [OF down] next_wake_again [OF up] next_wake_other [OF down] by (auto simp: opposite_def)
  show ?thesis
  proof (rule that [OF keeps, of wake])
    show "\<exists>u. wake = Some u \<and> u \<le> t" if "fst (next_wake r s now) = Some t" for s t
      using that again earliest_le(1) [OF wake_def] by (cases s) auto
    show "\<exists>s. fst (next_wake r s now) = Some u" if "wake = Some u" for u
      using again earliest_le(2) [OF wake_def that] by metis
    show "schedule_relay_wake cid now rt =
      (case wake of
         None \<Rightarrow> put_connection rt cid (c\<lparr>cn_relay := r\<rparr>)
       | Some t \<Rightarrow>
           if cn_scheduled_wake c = None \<or> t < the (cn_scheduled_wake c)
           then put_connection (rt\<lparr>rt_timers := tq_schedule (rt_timers rt) t (cn_id c) Pump\<rparr>) cid
                  (c\<lparr>cn_relay := r, cn_scheduled_wake := Some t\<rparr>)
           else put_connection rt cid (c\<lparr>cn_relay := r\<rparr>))"
      unfolding schedule_relay_wake_def find
      by (cases wake) (simp_all add: up down Let_def wake_def [symmetric] put_connection_timers)
  qed
qed

lemma plan_wake_inv:
  assumes inv: "runtime_inv config P rt" and find: "find_connection rt cid = Some c" and kept: "kept now P"
    and keeps: "relay_keeps now (cn_relay c) r"
  shows "runtime_inv config P (put_connection (rt\<lparr>rt_timers := tq_schedule (rt_timers rt) t (cn_id c) Pump\<rparr>) cid
    (c\<lparr>cn_relay := r, cn_scheduled_wake := Some t\<rparr>))"
proof (rule put_connection_restores [where c = c])
  let ?rt = "rt\<lparr>rt_timers := tq_schedule (rt_timers rt) t (cn_id c) Pump\<rparr>"
  let ?c = "c\<lparr>cn_relay := r, cn_scheduled_wake := Some t\<rparr>"
  note R = runtime_inv_relay [OF inv find]
  have inv1: "runtime_inv config P ?rt" by (rule schedule_inv [OF inv])
  then show "table_inv config ?rt" by (simp add: runtime_inv_def)
  show "wake_pending (tq_heap (rt_timers ?rt)) (cid, ?c)"
    using table_invD(2) [OF R(3) find] by (simp add: wake_pending_def tq_schedule_def)
  show "P (cn_relay ?c)" using kept R(2) keeps by (auto simp: kept_def)
  show "wake_pending (tq_heap (rt_timers ?rt)) (k, v) \<and> P (cn_relay v)"
    if "(k, v) \<in> set (rt_connections ?rt)" for k v using that inv1 by (auto simp: runtime_inv_def)
qed (use find keeps in \<open>auto simp: same_wiring_def relay_keeps_def\<close>)

text \<open>An earlier wake-up that is already planned covers the relay's next one.\<close>

lemma planned_wake_covers:
  assumes le: "\<And>s t. fst (next_wake r s now) = Some t \<Longrightarrow> \<exists>u. wake = Some u \<and> u \<le> t"
    and late: "\<nexists>t. wake = Some t \<and> (cn_scheduled_wake c = None \<or> t < the (cn_scheduled_wake c))"
  shows "wake_covered now (c\<lparr>cn_relay := r\<rparr>)"
  unfolding wake_covered_def
proof (intro allI impI)
  fix s t
  assume "fst (next_wake (cn_relay (c\<lparr>cn_relay := r\<rparr>)) s now) = Some t"
  with le obtain u where "wake = Some u" "u \<le> t" by fastforce
  with late show "pred_option (\<lambda>planned. planned \<le> t) (cn_scheduled_wake (c\<lparr>cn_relay := r\<rparr>)) \<and>
      cn_scheduled_wake (c\<lparr>cn_relay := r\<rparr>) \<noteq> None"
    by (cases "cn_scheduled_wake c") auto
qed

lemma schedule_relay_wake_ok:
  assumes inv: "runtime_inv config P rt" and kept: "kept now P"
  shows "runtime_inv config P (schedule_relay_wake cid now rt)"
    and "find_connection (schedule_relay_wake cid now rt) cid = Some c' \<Longrightarrow> wake_covered now c'"
proof -
  have "runtime_inv config P (schedule_relay_wake cid now rt) \<and>
    (\<forall>c'. find_connection (schedule_relay_wake cid now rt) cid = Some c' \<longrightarrow> wake_covered now c')"
  proof (cases "find_connection rt cid")
    case None
    with inv show ?thesis by (simp add: schedule_relay_wake_def)
  next
    case (Some c)
    obtain wake r where keeps: "relay_keeps now (cn_relay c) r"
      and le: "\<And>s t. fst (next_wake r s now) = Some t \<Longrightarrow> \<exists>u. wake = Some u \<and> u \<le> t"
      and eq: "schedule_relay_wake cid now rt =
      (case wake of
         None \<Rightarrow> put_connection rt cid (c\<lparr>cn_relay := r\<rparr>)
       | Some t \<Rightarrow>
           if cn_scheduled_wake c = None \<or> t < the (cn_scheduled_wake c)
           then put_connection (rt\<lparr>rt_timers := tq_schedule (rt_timers rt) t (cn_id c) Pump\<rparr>) cid
                  (c\<lparr>cn_relay := r, cn_scheduled_wake := Some t\<rparr>)
           else put_connection rt cid (c\<lparr>cn_relay := r\<rparr>))"
      by (rule schedule_relay_wake_eq [OF inv Some, of now]) (rule that)
    note put = put_relay_inv [OF inv Some keeps kept disjI1 [OF refl]]
    show ?thesis
    proof (cases "\<exists>t. wake = Some t \<and> (cn_scheduled_wake c = None \<or> t < the (cn_scheduled_wake c))")
      case True
      then obtain t where t: "wake = Some t" and sched: "cn_scheduled_wake c = None \<or> t < the (cn_scheduled_wake c)"
        by blast
      have "wake_covered now (c\<lparr>cn_relay := r, cn_scheduled_wake := Some t\<rparr>)"
        using le t by (fastforce simp: wake_covered_def)
      with plan_wake_inv [OF inv Some kept keeps, of t] show ?thesis
        using eq t sched Some by (simp add: put_connection_find)
    next
      case False
      then have eq': "schedule_relay_wake cid now rt = put_connection rt cid (c\<lparr>cn_relay := r\<rparr>)"
        using eq by (cases wake) auto
      have "wake_covered now (c\<lparr>cn_relay := r\<rparr>)" by (rule planned_wake_covers [OF le False])
      with eq' put Some show ?thesis by (simp add: put_connection_find)
    qed
  qed
  then show "runtime_inv config P (schedule_relay_wake cid now rt)"
    and "find_connection (schedule_relay_wake cid now rt) cid = Some c' \<Longrightarrow> wake_covered now c'" by auto
qed

end
