(* ===== verification/Proxy_Handlers.thy ===== *)
theory Proxy_Handlers
  imports Proxy_Invariants
begin

text \<open>
  The handlers of the event loop over any operating system whose socket calls keep the contract
  \<open>socket_contract\<close>: each returns, throws nothing but the error of a failed \<^verbatim>\<open>epoll_ctl\<close>, keeps
  the invariant of the loop's state, and leaves no connection without the wake-up it asked for.
\<close>

section \<open>Timers a handler may add\<close>

definition due :: "time \<Rightarrow> runtime \<Rightarrow> nat" where
  "due now rt = length (filter (\<lambda>e. te_deadline e \<le> now) (tq_heap (rt_timers rt)))"

lemma heap_push_filter:
  "length (filter Q (heap_push e xs)) = (if Q e then Suc (length (filter Q xs)) else length (filter Q xs))"
  by (induction xs) auto

lemma due_schedule:
  "now < t \<Longrightarrow> due now (rt\<lparr>rt_timers := tq_schedule (rt_timers rt) t cid kind\<rparr>) = due now rt"
  by (simp add: due_def tq_schedule_def heap_push_filter)

lemma due_put [simp]: "due now (put_connection rt cid c) = due now rt"
  by (simp add: due_def)

text \<open>A relay whose buckets are exact and up to date asks to be woken strictly later.\<close>

lemma next_wake_later:
  assumes inv: "relay_inv r" and timely: "relay_timely now r" and wake: "fst (next_wake r (opposite s) now) = Some t"
  shows "now < t"
proof (cases "write_open r (opposite s) \<and> \<not> (opposite s = Upstream \<and> r_upstream_connecting r) \<and>
    \<not> bq_empty (queue_from r s) \<and> d_fault (direction_from r s) \<noteq> None")
  case True
  let ?n = "bq_size (queue_from r s)"
  obtain b d1 where grant: "fault_sendable (direction_from r s) ?n now = (b, d1)" by fastforce
  obtain c1 where c1: "d_fault d1 = Some c1" using True fault_sendable_channel grant by fastforce
  have b: "b = 0" and t: "wake_time c1 ?n now = Some t"
    using next_wake_eq [OF _ _ _ grant c1] True wake by (auto split: if_splits)
  have "channel_inv c1 ?n"
    using dir_wfD(5) [OF dir_inv_wf [OF fault_sendable_inv [OF grant relay_invD(1) [OF inv]]] c1]
      fault_sendable_view(1) [OF grant] by simp
  moreover have "channel_timely now c1"
    using direction_sent_timely [OF fault_sendable_sent [OF grant] order_refl] timely c1 by (simp add: relay_timely_def)
  moreover have "fst (fault_sendable d1 ?n now) = 0" using fault_sendable_idem [OF grant] b by simp
  ultimately show ?thesis
    using wake_time_progress [of c1 ?n now d1] fault_sendable_again [OF grant c1] True t c1
    by (auto simp: bq_empty_def)
next
  case False
  with wake show ?thesis by (auto simp: next_wake_def Let_def)
qed

text \<open>Whether \<open>P\<close> includes that the clocks of the buckets are not ahead.\<close>

abbreviation knows_time :: "time \<Rightarrow> (relay \<Rightarrow> bool) \<Rightarrow> bool" where
  "knows_time now P \<equiv> \<forall>r. P r \<longrightarrow> relay_timely now r"

lemma schedule_relay_wake_due:
  assumes inv: "runtime_inv config P rt" and kept: "kept now P" and time: "knows_time now P"
  shows "due now (schedule_relay_wake cid now rt) = due now rt"
proof (cases "find_connection rt cid")
  case (Some c)
  obtain wake r where keeps: "relay_keeps now (cn_relay c) r"
    and asks: "\<And>u. wake = Some u \<Longrightarrow> \<exists>s. fst (next_wake r s now) = Some u"
    and eq: "schedule_relay_wake cid now rt =
      (case wake of
         None \<Rightarrow> put_connection rt cid (c\<lparr>cn_relay := r\<rparr>)
       | Some t \<Rightarrow>
           if cn_scheduled_wake c = None \<or> t < the (cn_scheduled_wake c)
           then put_connection (rt\<lparr>rt_timers := tq_schedule (rt_timers rt) t (cn_id c) Pump\<rparr>) cid
                  (c\<lparr>cn_relay := r, cn_scheduled_wake := Some t\<rparr>)
           else put_connection rt cid (c\<lparr>cn_relay := r\<rparr>))"
    by (rule schedule_relay_wake_eq [OF inv Some, of now]) (rule that)
  have "relay_timely now r" "relay_inv r"
    using keeps kept time runtime_inv_relay(2) [OF inv Some] by (auto simp: relay_keeps_def)
  then have "now < u" if "wake = Some u" for u
    using asks [OF that] next_wake_later [of r now] by (metis opposite_simps)
  then show ?thesis unfolding eq by (cases wake) (simp_all add: due_schedule)
qed (simp add: schedule_relay_wake_def)

section \<open>Results of handlers\<close>

text \<open>
  What a handler returns: an exception only from \<^verbatim>\<open>epoll_ctl\<close>, otherwise a state that satisfies
  the invariant and has as many timers due as before.
\<close>

definition handled :: "proxy_config \<Rightarrow> (relay \<Rightarrow> bool) \<Rightarrow> time \<Rightarrow> runtime \<Rightarrow> exn + runtime \<times> 'w \<Rightarrow> bool" where
  "handled config P now rt res \<longleftrightarrow>
     (case res of
        Inl e \<Rightarrow> epoll_failure e
      | Inr (rt', _) \<Rightarrow> runtime_inv config P rt' \<and> (knows_time now P \<longrightarrow> due now rt' = due now rt))"

lemma handled_Inr [simp]:
  "handled config P now rt (Inr (rt', w)) \<longleftrightarrow>
     runtime_inv config P rt' \<and> (knows_time now P \<longrightarrow> due now rt' = due now rt)"
  by (simp add: handled_def)

lemma handled_Inl [simp]: "handled config P now rt (Inl e) \<longleftrightarrow> epoll_failure e"
  by (simp add: handled_def)

lemma same_timers_due: "rt_timers rt' = rt_timers rt \<Longrightarrow> due now rt' = due now rt"
  by (simp add: due_def)

lemma apply_interest_timers:
  "apply_interest os cid s now rt w = Inr (rt', w') \<Longrightarrow> rt_timers rt' = rt_timers rt"
  by (auto simp: apply_interest_def Let_def split: option.splits if_splits sum.splits prod.splits)

lemma apply_interest_handled:
  assumes "runtime_inv config P rt" and "kept now P"
  shows "handled config P now rt (apply_interest os cid s now rt w)"
proof (cases "apply_interest os cid s now rt w")
  case (Inl e)
  with apply_interest_error [OF Inl] show ?thesis by auto
next
  case (Inr x)
  then obtain rt' w' where "apply_interest os cid s now rt w = Inr (rt', w')" by (cases x) auto
  from this apply_interest_ok(1) [OF assms this] same_timers_due [OF apply_interest_timers [OF this], of now]
  show ?thesis by simp
qed

lemma handled_bind:
  assumes "handled config P now rt a"
    and "\<And>rt1 w1. runtime_inv config P rt1 \<Longrightarrow> handled config P now rt1 (f (rt1, w1))"
  shows "handled config P now rt (bind_sum a f)"
proof (cases a)
  case (Inl e)
  with assms show ?thesis by (auto simp: handled_def bind_sum_def)
next
  case (Inr x)
  obtain rt1 w1 where x: "x = (rt1, w1)" by fastforce
  with assms(1) Inr have 1: "runtime_inv config P rt1" "knows_time now P \<longrightarrow> due now rt1 = due now rt"
    by simp_all
  from assms(2) [OF 1(1), of w1] 1(2) have "handled config P now rt (f (rt1, w1))"
    by (auto simp: handled_def split: sum.splits prod.splits)
  with Inr x show ?thesis by (simp add: bind_sum_def)
qed

lemma close_connection_timers:
  "close_connection os cid st detail now rt w = (rt', w') \<Longrightarrow> rt_timers rt' = rt_timers rt"
  by (auto simp: close_connection_def Let_def split: option.splits)

lemma close_connection_handled:
  assumes "runtime_inv config P rt"
  shows "handled config P now rt (Inr (close_connection os cid st detail t rt w))"
proof -
  obtain rt' w' where close: "close_connection os cid st detail t rt w = (rt', w')" by fastforce
  with close_connection_runtime_inv [OF assms close] same_timers_due [OF close_connection_timers [OF close], of now]
  show ?thesis by simp
qed

lemma refresh_or_close_handled:
  assumes "runtime_inv config P rt" and "kept now P"
  shows "handled config P now rt (refresh_or_close os cid now rt w)"
proof (cases "find_connection rt cid")
  case (Some c)
  have "handled config P now rt (bind_sum (apply_interest os cid Client now rt w)
      (\<lambda>(rt, w). apply_interest os cid Upstream now rt w))"
    using assms by (intro handled_bind) (simp_all add: apply_interest_handled)
  with Some close_connection_handled [OF assms(1), of now os] show ?thesis
    by (simp add: refresh_or_close_def)
qed (simp add: refresh_or_close_def assms)

section \<open>The stages of an event\<close>

text \<open>After a stage the invariant holds, the timers are as before, and a closed connection is gone.\<close>

definition settled ::
  "proxy_config \<Rightarrow> (relay \<Rightarrow> bool) \<Rightarrow> nat \<Rightarrow> runtime \<Rightarrow> bool \<Rightarrow> runtime \<Rightarrow> bool" where
  "settled config P cid rt gone rt' \<longleftrightarrow> runtime_inv config P rt' \<and> rt_timers rt' = rt_timers rt \<and>
     (gone \<longrightarrow> find_connection rt' cid = None)"

lemma close_connection_settled:
  assumes "runtime_inv config P rt" and "close_connection os cid st detail now rt w = (rt', w')"
  shows "settled config P cid rt gone rt'"
  using close_connection_runtime_inv [OF assms] close_connection_timers [OF assms(2)]
  by (simp add: settled_def)

lemma settled_trans:
  "rt_timers rt1 = rt_timers rt \<Longrightarrow> settled config P cid rt1 gone rt' \<Longrightarrow> settled config P cid rt gone rt'"
  by (simp add: settled_def)

lemma put_relay_settled:
  assumes "runtime_inv config P rt" and "find_connection rt cid = Some c"
    and "relay_keeps now (cn_relay c) r" and "kept now P"
  shows "settled config P cid rt False (put_connection rt cid (c\<lparr>cn_relay := r\<rparr>))"
  using put_relay_inv [OF assms disjI1 [OF refl]] by (simp add: settled_def)

lemma settled_log [simp]:
  "settled config P cid rt gone (log_event rt' a k b d) = settled config P cid rt gone rt'"
  by (simp add: settled_def)

lemma finish_connect_settled:
  assumes inv: "runtime_inv config P rt" and kept: "kept now P" and find: "find_connection rt cid = Some c"
    and res: "finish_connect os c s events now rt w = (gone, rt', w')"
  shows "settled config P cid rt gone rt'"
proof -
  have id: "cn_id c = cid" using table_invD(2) [OF runtime_inv_relay(3) [OF inv find] find] .
  note put = put_relay_settled [OF inv find mark_upstream_connected_keeps [OF runtime_inv_relay(1) [OF inv find]] kept]
  have same: "settled config P cid rt False rt" using inv by (simp add: settled_def)
  show ?thesis
    using res put same unfolding finish_connect_def id
    by (auto simp: Let_def intro: close_connection_settled [OF inv] split: if_splits prod.splits)
qed

lemma check_socket_error_settled:
  assumes inv: "runtime_inv config P rt" and find: "find_connection rt cid = Some c"
    and res: "check_socket_error os c s events now rt w = (gone, rt', w')"
  shows "settled config P cid rt gone rt'"
proof -
  have id: "cn_id c = cid" using table_invD(2) [OF runtime_inv_relay(3) [OF inv find] find] .
  have same: "settled config P cid rt False rt" using inv by (simp add: settled_def)
  show ?thesis
    using res same unfolding check_socket_error_def id
    by (auto simp: Let_def intro: close_connection_settled [OF inv] split: if_splits prod.splits)
qed

section \<open>Handlers\<close>

text \<open>The operating system under the loop: its socket calls keep the contract of the relay.\<close>

locale proxy_os = socket_contract "os_io os" received sent
  for os :: "'w os" and received :: "'w \<Rightarrow> int \<Rightarrow> byte list" and sent :: "'w \<Rightarrow> int \<Rightarrow> byte list"
begin

lemma read_ready_settled:
  assumes inv: "runtime_inv config P rt" and kept: "kept now P" and find: "find_connection rt cid = Some c"
  shows "\<exists>gone rt' w'. read_ready os c s events now rt w = Some (Inr (gone, rt', w')) \<and>
    settled config P cid rt gone rt'"
proof -
  have id: "cn_id c = cid" using table_invD(2) [OF runtime_inv_relay(3) [OF inv find] find] .
  let ?hup = "(events AND (EPOLLRDHUP OR EPOLLHUP)) \<noteq> 0"
  obtain pr r w1 xs where call: "handle_readable (os_strerror os) (os_io os) s ?hup now (cn_relay c) w = Some (Inr (pr, r, w1))"
    and eff: "read_effect s xs (cn_relay c) r"
    using handle_readable_ok [OF runtime_inv_relay(1) [OF inv find], of "os_strerror os" s ?hup now w]
    unfolding read_post_def by blast
  note put = put_relay_settled [OF inv find read_effect_keeps [OF eff] kept]
  obtain rt2 w2 where close: "close_connection os cid (pr_final_state pr) (pr_reason pr) now
      (put_connection rt cid (c\<lparr>cn_relay := r\<rparr>)) w1 = (rt2, w2)" by fastforce
  have "settled config P cid rt True rt2"
    using put close_connection_settled [OF _ close] by (auto simp: settled_def)
  with put inv show ?thesis
    by (auto simp: read_ready_def id Let_def call close settled_def)
qed

lemma flush_destinations_settled:
  assumes "runtime_inv config P rt" and "kept now P"
  shows "\<exists>gone rt' w'. flush_destinations os cid now ds rt w = Some (Inr (gone, rt', w')) \<and>
    settled config P cid rt gone rt'"
  using assms(1)
proof (induction ds arbitrary: rt w)
  case Nil
  then show ?case by (auto simp: settled_def)
next
  case (Cons s ds)
  show ?case
  proof (cases "find_connection rt cid")
    case None
    with Cons.prems show ?thesis by (auto simp: settled_def)
  next
    case (Some c)
    obtain pr r w1 k where call: "flush (os_strerror os) (os_io os) s now (cn_relay c) w = Some (Inr (pr, r, w1))"
      and eff: "relay_inv r" "direction_sent now k (direction_from (cn_relay c) (opposite s)) (direction_from r (opposite s))"
        "direction_from r s = direction_from (cn_relay c) s" "\<And>s'. fd_for r s' = fd_for (cn_relay c) s'"
      using flush_ok [OF runtime_inv_relay(1) [OF Cons.prems Some], of "os_strerror os" "opposite s" now w]
      unfolding flush_post_def by auto
    have "relay_keeps now (cn_relay c) r"
      using eff direction_sent_timely [OF eff(2)] timelyI [of _ r "opposite s" "cn_relay c"]
      by (auto simp: relay_keeps_def relay_timely_def)
    note put = put_relay_settled [OF Cons.prems Some this assms(2)]
    let ?rt = "put_connection rt cid (c\<lparr>cn_relay := r\<rparr>)"
    obtain rt2 w2 where close: "close_connection os cid (pr_final_state pr) (pr_reason pr) now ?rt w1 = (rt2, w2)"
      by fastforce
    have "settled config P cid rt True rt2"
      using put close_connection_settled [OF _ close] by (auto simp: settled_def)
    moreover have "\<exists>gone rt' w'. flush_destinations os cid now ds ?rt w1 = Some (Inr (gone, rt', w')) \<and>
        settled config P cid rt gone rt'"
      using Cons.IH [of ?rt w1] put settled_trans [of ?rt rt config P cid] by (auto simp: settled_def)
    ultimately show ?thesis using Some call close by (auto simp: Let_def)
  qed
qed

lemma pump_connection_ok:
  assumes inv: "runtime_inv config P rt" and kept: "kept now P"
  shows "\<exists>res. pump_connection os cid now rt w = Some res \<and> handled config P now rt res \<and>
    (\<forall>rt' w' c'. res = Inr (rt', w') \<longrightarrow> find_connection rt' cid = Some c' \<longrightarrow> wake_covered now c')"
proof (cases "find_connection rt cid")
  case None
  with inv show ?thesis by (simp add: pump_connection_def)
next
  case (Some c)
  have "settled config P cid rt False rt" using inv by (simp add: settled_def)
  with flush_destinations_settled [OF inv kept, of cid "[Upstream, Client]" w]
  obtain gone rt1 w1 where flushed: "(if r_upstream_connecting (cn_relay c) then Some (Inr (False, rt, w))
      else flush_destinations os cid now [Upstream, Client] rt w) = Some (Inr (gone, rt1, w1))"
    and set1: "settled config P cid rt gone rt1" by (metis (no_types))
  have inv1: "runtime_inv config P rt1" and due1: "due now rt1 = due now rt"
    using set1 by (simp_all add: settled_def due_def)
  show ?thesis
  proof (cases "gone \<or> find_connection rt1 cid = None")
    case True
    with Some flushed set1 inv1 due1 show ?thesis by (auto simp: pump_connection_def settled_def)
  next
    case False
    then obtain c1 where c1: "find_connection rt1 cid = Some c1" and "\<not> gone" by auto
    obtain r w2 where half: "propagate_half_closes (os_io os) (cn_relay c1) w1 = (r, w2)" by fastforce
    note eff = propagate_half_closes_ok [OF runtime_inv_relay(1) [OF inv1 c1] half]
    let ?rt = "put_connection rt1 cid (c1\<lparr>cn_relay := r\<rparr>)"
    have set2: "settled config P cid rt1 False ?rt"
      using eff by (intro put_relay_settled [OF inv1 c1 quiet_effect_keeps kept]) simp
    then have inv2: "runtime_inv config P ?rt" by (simp add: settled_def)
    define res where "res = bind_sum (refresh_or_close os cid now ?rt w2) (\<lambda>(rt, w). Inr (schedule_relay_wake cid now rt, w))"
    have eq: "pump_connection os cid now rt w = Some res"
      using Some flushed c1 half \<open>\<not> gone\<close> unfolding pump_connection_def res_def
      by (simp only: option.case sum.case prod.case Let_def if_False)
    have "handled config P now ?rt res" unfolding res_def
      using schedule_relay_wake_ok(1) [OF _ kept] schedule_relay_wake_due [OF _ kept]
      by (intro handled_bind refresh_or_close_handled inv2 kept) auto
    then have "handled config P now rt res" using due1 by (auto simp: handled_def split: sum.splits prod.splits)
    moreover have "wake_covered now c'" if res: "res = Inr (rt', w')" and find: "find_connection rt' cid = Some c'" for rt' w' c'
    proof -
      obtain rt3 w3 where r3: "refresh_or_close os cid now ?rt w2 = Inr (rt3, w3)" "rt' = schedule_relay_wake cid now rt3"
        using res unfolding res_def by (auto simp: bind_sum_Inr)
      have "handled config P now ?rt (Inr (rt3, w3))"
        using refresh_or_close_handled [OF inv2 kept, of os cid w2] r3(1) by simp
      then have "runtime_inv config P rt3" by simp
      from schedule_relay_wake_ok(2) [OF this kept] find r3(2) show ?thesis by simp
    qed
    ultimately show ?thesis using eq by blast
  qed
qed

lemma socket_ready_ok:
  assumes inv: "runtime_inv config P rt" and now: "os_now os w = (now, w0)" and kept: "kept now P"
  shows "\<exists>res. socket_ready os token events rt w = Some res \<and> handled config P now rt res \<and>
    (\<forall>cid s rt' w' c'. map_of (rt_bindings rt) token = Some (cid, s) \<longrightarrow> res = Inr (rt', w') \<longrightarrow>
       find_connection rt' cid = Some c' \<longrightarrow> wake_covered now c')"
proof (cases "map_of (rt_bindings rt) token")
  case None
  with inv show ?thesis by (simp add: socket_ready_def)
next
  case (Some binding)
  obtain cid s where bound: "map_of (rt_bindings rt) token = Some (cid, s)" using Some by (cases binding) auto
  show ?thesis
  proof (cases "find_connection rt cid")
    case None
    with inv bound show ?thesis by (simp add: socket_ready_def)
  next
    case (Some c)
    obtain g1 rt1 w1 where s1: "finish_connect os c s events now rt w0 = (g1, rt1, w1)" by (metis prod.collapse)
    note set1 = finish_connect_settled [OF inv kept Some s1]
    have inv1: "runtime_inv config P rt1" and due1: "due now rt1 = due now rt"
      using set1 by (simp_all add: settled_def due_def)
    show ?thesis
    proof (cases "g1 \<or> find_connection rt1 cid = None")
      case True
      with bound Some now s1 inv1 due1 set1 show ?thesis
        by (auto simp: socket_ready_def Let_def settled_def)
    next
      case False
      then obtain c1 where c1: "find_connection rt1 cid = Some c1" and g1: "\<not> g1" by auto
      obtain g2 rt2 w2 where s2: "check_socket_error os c1 s events now rt1 w1 = (g2, rt2, w2)" by (metis prod.collapse)
      note set2 = check_socket_error_settled [OF inv1 c1 s2]
      have inv2: "runtime_inv config P rt2" and due2: "due now rt2 = due now rt"
        using set2 due1 by (simp_all add: settled_def due_def)
      have c2: "find_connection rt2 cid = Some c1" if "\<not> g2"
        using s2 that c1 by (auto simp: check_socket_error_def Let_def split: if_splits prod.splits)
      show ?thesis
      proof (cases g2)
        case True
        with bound Some now s1 g1 c1 s2 inv2 due2 set2 show ?thesis
          by (auto simp: socket_ready_def Let_def settled_def)
      next
        case False
        obtain g3 rt3 w3 where s3: "read_ready os c1 s events now rt2 w2 = Some (Inr (g3, rt3, w3))"
          and set3: "settled config P cid rt2 g3 rt3"
          using read_ready_settled [OF inv2 kept c2 [OF False]] by blast
        have inv3: "runtime_inv config P rt3" and due3: "due now rt3 = due now rt"
          using set3 due2 by (simp_all add: settled_def due_def)
        obtain res where pump: "pump_connection os cid now rt3 w3 = Some res" "handled config P now rt3 res"
          "\<forall>rt' w' c'. res = Inr (rt', w') \<longrightarrow> find_connection rt' cid = Some c' \<longrightarrow> wake_covered now c'"
          using pump_connection_ok [OF inv3 kept] by blast
        have eq: "socket_ready os token events rt w = (if g3 then Some (Inr (rt3, w3)) else Some res)"
          using bound Some now s1 g1 c1 s2 False s3 pump(1) by (simp add: socket_ready_def Let_def)
        have "handled config P now rt res"
          using pump(2) due3 by (auto simp: handled_def split: sum.splits prod.splits)
        then show ?thesis using eq pump(3) inv3 due3 bound set3 by (auto simp: settled_def)
      qed
    qed
  qed
qed

end

section \<open>Timers\<close>

text \<open>The state between taking the due event \<open>e\<close> from the queue and handling it.\<close>

definition popped :: "proxy_config \<Rightarrow> (relay \<Rightarrow> bool) \<Rightarrow> timer_event \<Rightarrow> runtime \<Rightarrow> bool" where
  "popped config P e rt \<longleftrightarrow> table_inv config rt \<and>
     (\<forall>x \<in> set (rt_connections rt). wake_pending (e # tq_heap (rt_timers rt)) x \<and> P (cn_relay (snd x)))"

lemma wake_pending_drop:
  assumes "wake_pending (e # h) (k, v)"
    and "te_connection_id e \<noteq> k \<or> te_kind e \<noteq> Pump \<or> cn_scheduled_wake v \<noteq> Some (te_deadline e)"
  shows "wake_pending h (k, v)"
  using assms by (auto simp: wake_pending_def pred_option_iff)

lemma popped_restores:
  assumes "popped config P e rt"
    and "te_kind e \<noteq> Pump \<or> (\<forall>v. (te_connection_id e, v) \<in> set (rt_connections rt) \<longrightarrow>
      cn_scheduled_wake v \<noteq> Some (te_deadline e))"
  shows "runtime_inv config P rt"
  using assms wake_pending_drop by (fastforce simp: popped_def runtime_inv_def)

lemma pop_due_popped:
  assumes "runtime_inv config P rt" and "tq_pop_due (rt_timers rt) now = (Some e, q)"
  shows "popped config P e (rt\<lparr>rt_timers := q\<rparr>)" and "te_deadline e \<le> now"
    and "due now rt = Suc (due now (rt\<lparr>rt_timers := q\<rparr>))"
proof -
  have heap: "tq_heap (rt_timers rt) = e # tq_heap q" "te_deadline e \<le> now"
    using assms(2) by (auto simp: tq_pop_due_def split: list.splits if_splits)
  have "tq_inv q" using assms tq_pop_due_inv [of "rt_timers rt" now] by (simp add: runtime_inv_def table_inv_def)
  with assms(1) heap show "popped config P e (rt\<lparr>rt_timers := q\<rparr>)"
    by (simp add: popped_def runtime_inv_def table_inv_def)
  show "te_deadline e \<le> now" "due now rt = Suc (due now (rt\<lparr>rt_timers := q\<rparr>))"
    using heap by (simp_all add: due_def)
qed

lemma pop_none_due:
  assumes "tq_inv (rt_timers rt)" and "tq_pop_due (rt_timers rt) now = (None, q)"
  shows "q = rt_timers rt" and "due now rt = 0"
proof -
  show "q = rt_timers rt" using assms(2) by (auto simp: tq_pop_due_def split: list.splits if_splits)
  show "due now rt = 0"
  proof (cases "tq_heap (rt_timers rt)")
    case (Cons e rest)
    then have "now < te_deadline e" using assms(2) by (auto simp: tq_pop_due_def split: if_splits)
    moreover have "te_deadline e \<le> te_deadline x" if "x \<in> set rest" for x
      using that assms(1) Cons te_key_le_deadline by (auto simp: tq_inv_def)
    ultimately show ?thesis using Cons by (force simp: due_def filter_empty_conv)
  qed (simp add: due_def)
qed

context proxy_os
begin

lemma cleared_wake_inv:
  assumes popped: "popped config P e rt" and due: "te_deadline e \<le> now"
    and find: "find_connection rt (te_connection_id e) = Some c"
  shows "runtime_inv config P (case cn_scheduled_wake c of None \<Rightarrow> rt
    | Some t \<Rightarrow> if t \<le> now then put_connection rt (te_connection_id e) (c\<lparr>cn_scheduled_wake := None\<rparr>) else rt)"
proof (cases "\<exists>t. cn_scheduled_wake c = Some t \<and> t \<le> now")
  case True
  have t: "table_inv config rt" using popped by (simp add: popped_def)
  have "runtime_inv config P (put_connection rt (te_connection_id e) (c\<lparr>cn_scheduled_wake := None\<rparr>))"
  proof (rule put_connection_restores [OF t find])
    fix k v assume m: "(k, v) \<in> set (rt_connections rt)" "k \<noteq> te_connection_id e"
    then show "wake_pending (tq_heap (rt_timers rt)) (k, v) \<and> P (cn_relay v)"
      using popped wake_pending_drop [of e _ k v] by (auto simp: popped_def)
  qed (use table_invD [OF t find] popped in \<open>auto simp: same_wiring_def wake_pending_def popped_def\<close>)
  with True show ?thesis by auto
next
  case False
  have "v = c" if "(te_connection_id e, v) \<in> set (rt_connections rt)" for v
    using that find find_connection_iff [of rt "te_connection_id e" v] popped by (simp add: popped_def table_inv_def)
  moreover have "cn_scheduled_wake c \<noteq> Some (te_deadline e)" using False due by auto
  ultimately have "runtime_inv config P rt" using popped_restores [OF popped] by auto
  with False show ?thesis by (auto split: option.splits)
qed

lemma handle_timer_handled:
  assumes popped: "popped config P e rt" and due: "te_deadline e \<le> now" and kept: "kept now P"
  shows "\<exists>res. handle_timer os e now rt w = Some res \<and> handled config P now rt res"
proof (cases "find_connection rt (te_connection_id e)")
  case None
  then have "runtime_inv config P rt"
    by (intro popped_restores [OF popped]) (force simp: find_connection_def map_of_eq_None_iff image_iff)
  with None show ?thesis by (simp add: handle_timer_def)
next
  case (Some c)
  let ?cid = "te_connection_id e"
  show ?thesis
  proof (cases "te_kind e = Pump")
    case pump: True
    define rt1 where "rt1 = (case cn_scheduled_wake c of None \<Rightarrow> rt
        | Some t \<Rightarrow> if t \<le> now then put_connection rt ?cid (c\<lparr>cn_scheduled_wake := None\<rparr>) else rt)"
    have "runtime_inv config P rt1" unfolding rt1_def by (rule cleared_wake_inv [OF popped due Some])
    moreover have "due now rt1 = due now rt" by (auto simp: rt1_def split: option.splits)
    moreover have "cn_id c = ?cid" using table_invD(2) [OF _ Some] popped by (auto simp: popped_def)
    ultimately show ?thesis
      using pump_connection_ok [OF _ kept, of config rt1 ?cid w] Some pump
      by (auto simp: handle_timer_def Let_def rt1_def [symmetric] handled_def split: sum.splits prod.splits)
  next
    case False
    then have inv: "runtime_inv config P rt" using popped_restores [OF popped] by simp
    have idle: "handled config P now rt (Inr (rt\<lparr>rt_timers := tq_schedule (rt_timers rt) t k IdleTimeout\<rparr>, w))"
      if "now < t" for t k
      using schedule_inv [OF inv] due_schedule [OF that, of rt] by simp
    show ?thesis
      using False Some inv idle close_connection_handled [OF inv, of now os]
      by (cases "te_kind e") (auto simp: handle_timer_def Let_def not_le)
  qed
qed

lemma process_due_timers_ok:
  assumes inv: "runtime_inv config P rt" and kept: "kept now P" and time: "knows_time now P"
  shows "\<exists>res. process_due_timers os now rt w = Some res \<and>
    (case res of Inl e \<Rightarrow> epoll_failure e
     | Inr (n, rt', _) \<Rightarrow> runtime_inv config P rt' \<and> due now rt' = 0 \<and> n = due now rt)"
  unfolding process_due_timers_def
proof (rule run_loop_total [where I = "\<lambda>(n, rt1, _). runtime_inv config P rt1 \<and> due now rt = n + due now rt1"
      and m = "\<lambda>(_, rt, _). due now rt"])
  show "case (0, rt\<lparr>rt_last_armed_deadline := None\<rparr>, w) of (n, rt1, _) \<Rightarrow>
      runtime_inv config P rt1 \<and> due now rt = n + due now rt1"
    using inv by (simp add: runtime_inv_def table_inv_def closes_def due_def)
next
  fix st :: "nat \<times> runtime \<times> 'w"
  obtain n rt1 w1 where st: "st = (n, rt1, w1)" by (metis prod.collapse)
  assume "case st of (n, rt1, _) \<Rightarrow> runtime_inv config P rt1 \<and> due now rt = n + due now rt1"
  then have inv1: "runtime_inv config P rt1" and n: "due now rt = n + due now rt1" by (simp_all add: st)
  show "loop_ok (\<lambda>(n, rt1, _). runtime_inv config P rt1 \<and> due now rt = n + due now rt1) (\<lambda>(_, rt, _). due now rt)
      (\<lambda>res. case res of Inl e \<Rightarrow> epoll_failure e
       | Inr (n, rt', _) \<Rightarrow> runtime_inv config P rt' \<and> due now rt' = 0 \<and> n = due now rt) st (timer_step os now st)"
  proof (cases "fst (tq_pop_due (rt_timers rt1) now)")
    case None
    then obtain q where q: "tq_pop_due (rt_timers rt1) now = (None, q)" by (metis prod.collapse)
    have "tq_inv (rt_timers rt1)" using inv1 by (simp add: runtime_inv_def table_inv_def)
    from pop_none_due [OF this q] q inv1 n show ?thesis
      by (simp add: st timer_step_def loop_ok_def)
  next
    case (Some e)
    then obtain q where q: "tq_pop_due (rt_timers rt1) now = (Some e, q)" by (metis prod.collapse)
    note pop = pop_due_popped [OF inv1 q]
    obtain res where res: "handle_timer os e now (rt1\<lparr>rt_timers := q\<rparr>) w1 = Some res"
      "handled config P now (rt1\<lparr>rt_timers := q\<rparr>) res"
      using handle_timer_handled [OF pop(1,2) kept] by blast
    show ?thesis
      using q res pop(3) n time
      by (cases res) (auto simp: st timer_step_def loop_ok_def handled_def)
  qed
qed

end

end
