(* ===== verification/Proxy_Accept.thy ===== *)
theory Proxy_Accept
  imports Proxy_Handlers
begin

text \<open>
  Accepting connections: a connected pair of sockets becomes an entry of the table with two fresh
  tokens and a fresh identifier, its relay satisfies the relay's invariant, and the accept loop
  ends, never exceeding the configured number of connections.
\<close>

section \<open>A fresh relay\<close>

text \<open>A configuration \<^verbatim>\<open>Proxy\<close> accepts, with a burst for which the token bucket's arithmetic is exact.\<close>

definition config_ok :: "inet_pton \<Rightarrow> proxy_config \<Rightarrow> bool" where
  "config_ok pton config \<longleftrightarrow> proxy_new pton config = Inr config \<and> fp_burst_bytes (pc_faults config) \<le> 18446744070"

lemma config_okD:
  assumes "config_ok pton config"
  shows "relay_config_ok (relay_config_of config)" and "fp_validate (pc_faults config) = Inr ()"
    and "\<exists>address. ep_to_sockaddr pton (pc_upstream config) = Inr address"
proof -
  have new: "proxy_new pton config = Inr config" using assms by (simp add: config_ok_def)
  show "relay_config_ok (relay_config_of config)" "fp_validate (pc_faults config) = Inr ()"
    using proxy_new_ok [OF new] by simp_all
  show "\<exists>address. ep_to_sockaddr pton (pc_upstream config) = Inr address"
    using new by (auto simp: proxy_new_def ep_is_loopback_def split: if_splits sum.splits)
qed

lemma make_channel_timely:
  assumes "fp_validate plan = Inr ()" and "fp_burst_bytes plan \<le> 18446744070"
    and "make_channel plan seed i now = Inr c"
  shows "channel_timely now c"
proof (cases "0 < fp_rate_bytes_per_second plan")
  case True
  with fp_validate_bucket [OF assms(1) True, of now] assms(2,3) show ?thesis
    by (auto simp: make_channel_def Let_def channel_timely_def tb_new_def split: if_splits)
next
  case False
  with assms(3) show ?thesis by (auto simp: make_channel_def Let_def channel_timely_def)
qed

lemma attach_channel_timely:
  assumes "fp_validate plan = Inr ()" and "fp_burst_bytes plan \<le> 18446744070" and "d_fault d = None"
    and "attach_channel applies plan seed i now d = Inr d'"
  shows "pred_option (channel_timely now) (d_fault d')"
  using assms make_channel_timely [OF assms(1,2)]
  by (auto simp: attach_channel_def Let_def split: if_splits sum.splits)

lemma relay_new_timely:
  assumes "fp_any_enabled plan \<Longrightarrow> fp_validate plan = Inr () \<and> fp_burst_bytes plan \<le> 18446744070"
    and "relay_new config plan cid cfd ufd connecting now = Inr r"
  shows "relay_timely now r"
proof (cases "fp_any_enabled plan")
  case True
  then have plan: "fp_validate plan = Inr ()" "fp_burst_bytes plan \<le> 18446744070" using assms(1) by auto
  show ?thesis
    unfolding relay_timely_def
  proof
    fix s
    show "pred_option (channel_timely now) (d_fault (direction_from r s))"
      using assms(2) True
      by (cases s) (auto simp: relay_new_def direction_new_def Let_def relay_view_defs
        dest!: attach_channel_timely [OF plan, rotated] split: sum.splits)
  qed
next
  case False
  with assms(2) show ?thesis
    by (auto simp: relay_new_def direction_new_def Let_def relay_timely_def relay_view_defs split: sum.splits)
qed

section \<open>Entering a connection\<close>

lemma insert_connection_inv:
  assumes inv: "runtime_inv config P rt" and room: "length (rt_connections rt) < pc_max_connections config"
    and c: "cn_id c = rt_next_connection_id rt" "cn_client_token c = rt_next_token rt"
      "cn_upstream_token c = rt_next_token rt + 1" "cn_scheduled_wake c = None"
      "fd_for (cn_relay c) Client = cn_client_fd c" "fd_for (cn_relay c) Upstream = cn_upstream_fd c"
    and relay: "relay_inv (cn_relay c)" "P (cn_relay c)"
  shows "runtime_inv config P (rt\<lparr>rt_next_connection_id := rt_next_connection_id rt + 1,
    rt_next_token := rt_next_token rt + 2,
    rt_bindings := rt_bindings rt @ [(rt_next_token rt, rt_next_connection_id rt, Client),
                                     (rt_next_token rt + 1, rt_next_connection_id rt, Upstream)],
    rt_connections := rt_connections rt @ [(rt_next_connection_id rt, c)]\<rparr>)"
    (is "runtime_inv config P ?rt")
proof -
  let ?cid = "rt_next_connection_id rt"
  have t: "table_inv config rt" using inv by (simp add: runtime_inv_def)
  have small: "k < ?cid" if "(k, v) \<in> set (rt_connections rt)" for k v
    using that t by (auto simp: table_inv_def connection_ok_def)
  have low: "k < rt_next_token rt" if "(k, v) \<in> set (rt_bindings rt)" for k v
    using that t by (auto simp: table_inv_def)
  have "?cid \<notin> fst ` set (rt_connections rt)" using small by force
  then have "distinct (map fst (rt_connections ?rt))" using t by (simp add: table_inv_def)
  moreover have "rt_next_token rt \<notin> fst ` set (rt_bindings rt)" "rt_next_token rt + 1 \<notin> fst ` set (rt_bindings rt)"
    using low by force+
  then have "distinct (map fst (rt_bindings ?rt))" using t by (simp add: table_inv_def)
  moreover have "\<forall>x \<in> set (rt_connections ?rt). connection_ok (rt_next_connection_id ?rt) x"
    using t c relay by (fastforce simp: table_inv_def connection_ok_def)
  moreover have "set (rt_bindings ?rt) = token_pairs (rt_connections ?rt)"
    using t c by (auto simp: table_inv_def token_pairs_def)
  moreover have "\<forall>(k, _) \<in> set (rt_bindings ?rt). 4 \<le> k \<and> k < rt_next_token ?rt"
    using t by (fastforce simp: table_inv_def)
  moreover have "of_nat ?cid = of_nat (length (rt_connections rt)) + 1 + closes rt"
  proof -
    have "1 \<le> ?cid" and eq: "of_nat (?cid - 1) = of_nat (length (rt_connections rt)) + closes rt"
      using t by (simp_all add: table_inv_def)
    then have "(of_nat ?cid :: u64) = of_nat (?cid - 1) + 1" by (metis Suc_diff_1 Suc_le_eq One_nat_def of_nat_Suc add.commute)
    with eq show ?thesis by (simp add: ac_simps)
  qed
  ultimately have "table_inv config ?rt"
    using t room by (auto simp: table_inv_def closes_def ac_simps)
  with inv c relay show ?thesis by (auto simp: runtime_inv_def wake_pending_def)
qed

lemma announce_connection_inv:
  assumes "runtime_inv config P rt"
  shows "runtime_inv config P (announce_connection cid applied connecting now r rt)"
proof -
  have "runtime_inv config P (if b then rt'\<lparr>rt_timers := tq_schedule (rt_timers rt') d k kind\<rparr> else rt')"
    if "runtime_inv config P rt'" for b rt' d k kind
    using that schedule_inv by simp
  with assms show ?thesis by (simp add: announce_connection_def Let_def)
qed

lemma install_connection_ok:
  assumes inv: "runtime_inv config P rt" and room: "length (rt_connections rt) < pc_max_connections config"
    and kept: "kept now P"
    and fresh: "\<And>plan cid r. plan = pc_faults config \<or> plan = fault_plan_default \<Longrightarrow>
      relay_new (relay_config_of config) plan cid client upstream connecting now = Inr r \<Longrightarrow> P r"
  shows "(\<exists>e. install_connection os client upstream connecting now rt w = Inl e \<and> epoll_failure e) \<or>
    (\<exists>rt' w'. install_connection os client upstream connecting now rt w = Inr (rt', w') \<and> runtime_inv config P rt')"
proof -
  let ?cid = "rt_next_connection_id rt"
  have t: "table_inv config rt" and cfg: "rt_config rt = config"
    using inv by (simp_all add: runtime_inv_def table_inv_def)
  define plan where "plan = (if faults_apply config ?cid then pc_faults config else fault_plan_default)"
  obtain r where r: "relay_new (relay_config_of config) plan (of_nat ?cid) client upstream connecting now = Inr r"
      "relay_inv r" "fd_for r Client = client" "fd_for r Upstream = upstream"
    using relay_new_ok [of "relay_config_of config"] t by (metis table_inv_def)
  then have "P r" using fresh [of plan "of_nat ?cid" r] by (auto simp: plan_def)
  obtain ci r1 where i1: "desired_interest r Client now = (ci, r1)" by fastforce
  obtain ui r2 where i2: "desired_interest r1 Upstream now = (ui, r2)" by fastforce
  have k1: "relay_keeps now r r1" by (rule desired_interest_keeps [OF r(2) i1])
  then have "relay_keeps now r1 r2" by (intro desired_interest_keeps [OF _ i2]) (simp add: relay_keeps_def)
  with k1 have k2: "relay_keeps now r r2" by (rule relay_keeps_trans)
  define c where "c = \<lparr>cn_id = ?cid, cn_client_fd = client, cn_upstream_fd = upstream,
      cn_client_token = rt_next_token rt, cn_upstream_token = rt_next_token rt + 1,
      cn_client_mask = to_epoll_mask ci, cn_upstream_mask = to_epoll_mask ui,
      cn_scheduled_wake = None, cn_relay = r2\<rparr>"
  define rt1 where "rt1 = rt\<lparr>rt_next_connection_id := ?cid + 1, rt_next_token := rt_next_token rt + 2,
    rt_bindings := rt_bindings rt @ [(rt_next_token rt, ?cid, Client), (rt_next_token rt + 1, ?cid, Upstream)],
    rt_connections := rt_connections rt @ [(?cid, c)]\<rparr>"
  have inv1: "runtime_inv config P rt1"
    unfolding rt1_def using k2 \<open>P r\<close> kept r
    by (intro insert_connection_inv [OF inv room]) (auto simp: c_def relay_keeps_def kept_def)
  have "install_connection os client upstream connecting now rt w =
    bind_sum (add_epoll os client (cn_client_mask c) (rt_next_token rt) w) (\<lambda>w.
    bind_sum (add_epoll os upstream (cn_upstream_mask c) (rt_next_token rt + 1) w) (\<lambda>w.
      Inr (announce_connection ?cid (faults_apply config ?cid) connecting now r2 rt1, w)))"
    unfolding install_connection_def cfg Let_def plan_def [symmetric] r(1)
    by (simp add: bind_sum_def i1 i2 c_def rt1_def)
  then show ?thesis
    using announce_connection_inv [OF inv1] add_epoll_error
    by (auto simp: bind_sum_def split: sum.splits)
qed

end
