(* ===== verification/Proxy_World.thy ===== *)
theory Proxy_World
  imports Proxy_Handlers
begin

text \<open>
  What the handlers do to the world they do only through the calls of the operating system: a
  reflexive and transitive relation between worlds that every socket call keeps is kept by the
  relay's operations, and if the other calls keep it too, by every handler. The event loop uses it
  for the steady clock, which no call turns back, and for the open descriptors.
\<close>

locale io_relation =
  fixes io :: "'w socket_io" and R :: "'w \<Rightarrow> 'w \<Rightarrow> bool"
  assumes R_refl [simp]: "R w w"
    and R_trans [trans]: "R u v \<Longrightarrow> R v w \<Longrightarrow> R u w"
    and R_receive: "io_receive io fd buffer w = Some (res, buffer', w') \<Longrightarrow> R w w'"
    and R_send: "io_send io fd data w = Some (res, w') \<Longrightarrow> R w w'"
    and R_shutdown: "io_shutdown_write io fd w = (ok, w') \<Longrightarrow> R w w'"
begin

lemma read_step_R:
  assumes "read_step strerror io s hup now (r, w) = Some out"
  shows "case out of Again (r', w') \<Rightarrow> R w w' | Halt (Inr (pr, r', w')) \<Rightarrow> R w w' | Halt (Inl e) \<Rightarrow> True"
  using assms R_receive
  by (fastforce simp: read_step_def Let_def split: if_splits option.splits prod.splits io_status.splits sum.splits)

lemma handle_readable_R:
  assumes "handle_readable strerror io s hup now r w = Some (Inr (pr, r', w'))"
  shows "R w w'"
proof -
  have step: "R w v'" if "R w v" "read_step strerror io s hup now (q, v) = Some (Again (q', v'))" for q v q' v'
    using read_step_R [OF that(2)] that(1) by (auto intro: R_trans)
  obtain q v where "R w v" "read_step strerror io s hup now (q, v) = Some (Halt (Inr (pr, r', w')))"
    using assms unfolding handle_readable_def
    by (rule run_loop_invariant [where J = "\<lambda>(_, v). R w v"]) (auto intro: step)
  then show ?thesis using read_step_R by (fastforce intro: R_trans)
qed

lemma flush_step_R:
  assumes "flush_step strerror io s now (r, w) = Some out"
  shows "case out of Again (r', w') \<Rightarrow> R w w' | Halt (Inr (pr, r', w')) \<Rightarrow> R w w' | Halt (Inl e) \<Rightarrow> True"
  using assms R_send
  by (fastforce simp: flush_step_def Let_def split: if_splits option.splits prod.splits io_status.splits sum.splits)

lemma flush_loop_R:
  assumes "run_loop (flush_step strerror io s now) (r, w) = Some (Inr (pr, r', w'))"
  shows "R w w'"
proof -
  have step: "R w v'" if "R w v" "flush_step strerror io s now (q, v) = Some (Again (q', v'))" for q v q' v'
    using flush_step_R [OF that(2)] that(1) by (auto intro: R_trans)
  obtain q v where "R w v" "flush_step strerror io s now (q, v) = Some (Halt (Inr (pr, r', w')))"
    using assms by (rule run_loop_invariant [where J = "\<lambda>(_, v). R w v"]) (auto intro: step)
  then show ?thesis using flush_step_R by (fastforce intro: R_trans)
qed

lemma check_lifecycle_faults_R:
  "check_lifecycle_faults io r w = (pr, r', w') \<Longrightarrow> R w w'"
  using R_shutdown by (auto simp: check_lifecycle_faults_def Let_def split: if_splits prod.splits)

lemma flush_R:
  assumes "flush strerror io s now r w = Some (Inr (pr, r', w'))"
  shows "R w w'"
proof -
  consider "w' = w" | p r1 w1 where "run_loop (flush_step strerror io s now) (r, w) = Some (Inr (p, r1, w1))"
      "w' = w1 \<or> check_lifecycle_faults io r1 w1 = (pr, r', w')"
    using assms unfolding flush_def by (auto split: if_splits option.splits sum.splits)
  then show ?thesis
  proof cases
    case 2
    with flush_loop_R [OF 2(1)] check_lifecycle_faults_R R_trans show ?thesis by blast
  qed simp
qed

lemma propagate_half_closes_R:
  assumes "propagate_half_closes io r w = (r', w')"
  shows "R w w'"
proof -
  define first where "first = (if \<not> r_client_read_open r \<and> bq_empty (d_queue (r_client_to_upstream r)) \<and>
            r_upstream_write_open r \<and> \<not> r_upstream_connecting r
         then let (ok, w) = io_shutdown_write io (r_upstream_fd r) w
              in if ok
                 then (on_event (r\<lparr>r_upstream_write_open := False\<rparr>) ''half_close_forwarded''
                         ''direction=upstream_write'', w)
                 else (r, w)
         else (r, w))"
  define second where "second = (\<lambda>(r, w). if \<not> r_upstream_read_open r \<and> bq_empty (d_queue (r_upstream_to_client r)) \<and> r_client_write_open r
         then let (ok, w) = io_shutdown_write io (r_client_fd r) w
              in if ok
                 then (on_event (r\<lparr>r_client_write_open := False\<rparr>) ''half_close_forwarded''
                         ''direction=client_write'', w)
                 else (r, w)
         else (r, w))"
  have "propagate_half_closes io r w = second first"
    by (simp only: propagate_half_closes_def Let_def first_def second_def)
  moreover have "R w (snd first)"
  proof (cases "io_shutdown_write io (r_upstream_fd r) w")
    case (Pair ok v)
    then have "snd first = v \<or> snd first = w" unfolding first_def Let_def by (simp split: if_split)
    with R_shutdown [OF Pair] show ?thesis by auto
  qed
  moreover have "R u (snd (second (q, u)))" for q u
  proof (cases "io_shutdown_write io (r_client_fd q) u")
    case (Pair ok v)
    then have "snd (second (q, u)) = v \<or> snd (second (q, u)) = u" unfolding second_def Let_def by (simp split: if_split)
    with R_shutdown [OF Pair] show ?thesis by auto
  qed
  ultimately show ?thesis using assms R_trans by (metis prod.collapse snd_conv)
qed

end

locale os_relation = io_relation "os_io os" R
  for os :: "'w os" and R :: "'w \<Rightarrow> 'w \<Rightarrow> bool" +
  assumes R_socket_error: "os_socket_error os fd w = (e, w') \<Longrightarrow> R w w'"
    and R_epoll_mod: "os_epoll_mod os fd events token w = (result, w') \<Longrightarrow> R w w'"
    and R_epoll_del: "R w (os_epoll_del os fd w)"
    and R_close: "R w (os_close os fd w)"
begin

lemma close_connection_R:
  assumes "close_connection os cid st detail now rt w = (rt', w')"
  shows "R w w'"
proof (cases "find_connection rt cid")
  case (Some c)
  let ?w1 = "os_epoll_del os (cn_client_fd c) w"
  let ?w2 = "os_epoll_del os (cn_upstream_fd c) ?w1"
  let ?w3 = "os_close os (cn_upstream_fd c) ?w2"
  have "R w (os_close os (cn_client_fd c) ?w3)"
    by (rule R_trans [OF R_trans [OF R_trans [OF R_epoll_del R_epoll_del] R_close] R_close])
  with Some assms show ?thesis by (simp add: close_connection_def Let_def)
qed (use assms in \<open>simp add: close_connection_def\<close>)

lemma apply_interest_R:
  "apply_interest os cid s now rt w = Inr (rt', w') \<Longrightarrow> R w w'"
  using R_epoll_mod
  by (auto simp: apply_interest_def modify_epoll_def Let_def split: option.splits prod.splits if_splits)

lemma refresh_or_close_R:
  assumes "refresh_or_close os cid now rt w = Inr (rt', w')"
  shows "R w w'"
  using assms close_connection_R apply_interest_R
  by (auto simp: refresh_or_close_def bind_sum_Inr split: option.splits if_splits) (blast intro: R_trans)

lemma flush_destinations_R:
  "flush_destinations os cid now ds rt w = Some (Inr (gone, rt', w')) \<Longrightarrow> R w w'"
proof (induction ds arbitrary: rt w)
  case (Cons s ds)
  show ?case
  proof (cases "find_connection rt cid")
    case (Some c)
    then obtain pr r w1 where call: "flush (os_strerror os) (os_io os) s now (cn_relay c) w = Some (Inr (pr, r, w1))"
      using Cons.prems by (auto split: option.splits sum.splits)
    let ?rt = "put_connection rt cid (c\<lparr>cn_relay := r\<rparr>)"
    have "R w1 w'"
      using Cons Some call close_connection_R by (auto simp: Let_def split: if_splits prod.splits)
    with flush_R [OF call] show ?thesis by (rule R_trans)
  qed (use Cons.prems in simp)
qed simp

lemma pump_connection_R:
  assumes "pump_connection os cid now rt w = Some (Inr (rt', w'))"
  shows "R w w'"
proof (cases "find_connection rt cid")
  case (Some c)
  then obtain gone rt1 w1 where flushed: "(if r_upstream_connecting (cn_relay c) then Some (Inr (False, rt, w))
      else flush_destinations os cid now [Upstream, Client] rt w) = Some (Inr (gone, rt1, w1))"
    using assms unfolding pump_connection_def by (auto split: option.splits sum.splits)
  then have R1: "R w w1" by (auto simp del: flush_destinations.simps dest: flush_destinations_R split: if_splits)
  show ?thesis
  proof (cases "gone \<or> find_connection rt1 cid = None")
    case True
    then have "pump_connection os cid now rt w = Some (Inr (rt1, w1))"
      using Some flushed unfolding pump_connection_def by auto
    with assms R1 show ?thesis by simp
  next
    case False
    then obtain c1 where c1: "find_connection rt1 cid = Some c1" "\<not> gone" by auto
    obtain r w2 where half: "propagate_half_closes (os_io os) (cn_relay c1) w1 = (r, w2)" by fastforce
    have "bind_sum (refresh_or_close os cid now (put_connection rt1 cid (c1\<lparr>cn_relay := r\<rparr>)) w2)
        (\<lambda>(rt, w). Inr (schedule_relay_wake cid now rt, w)) = Inr (rt', w')"
      using assms Some flushed c1 half unfolding pump_connection_def
      by (simp only: option.case sum.case prod.case Let_def if_False option.inject)
    then have "R w2 w'" using refresh_or_close_R by (auto simp: bind_sum_Inr)
    with propagate_half_closes_R [OF half] R1 show ?thesis by (metis R_trans)
  qed
qed (use assms in \<open>simp add: pump_connection_def\<close>)

lemma finish_connect_R:
  "finish_connect os c s events now rt w = (gone, rt', w') \<Longrightarrow> R w w'"
  using R_socket_error close_connection_R
  by (auto simp: finish_connect_def Let_def split: if_splits prod.splits) (blast intro: R_trans)+

lemma check_socket_error_R:
  "check_socket_error os c s events now rt w = (gone, rt', w') \<Longrightarrow> R w w'"
  using R_socket_error close_connection_R
  by (auto simp: check_socket_error_def Let_def split: if_splits prod.splits) (blast intro: R_trans)+

lemma read_ready_R:
  "read_ready os c s events now rt w = Some (Inr (gone, rt', w')) \<Longrightarrow> R w w'"
  using handle_readable_R close_connection_R
  by (auto simp: read_ready_def Let_def split: if_splits option.splits sum.splits prod.splits)
    (blast intro: R_trans)+

lemma socket_ready_R:
  assumes "socket_ready os token events rt w = Some (Inr (rt', w'))" and now: "os_now os w = (now, w0)"
  shows "(rt', w') = (rt, w) \<or> R w0 w'"
proof (cases "\<exists>cid s c. map_of (rt_bindings rt) token = Some (cid, s) \<and> find_connection rt cid = Some c")
  case True
  then obtain cid s c where c: "map_of (rt_bindings rt) token = Some (cid, s)" "find_connection rt cid = Some c"
    by blast
  obtain g1 rt1 w1 where s1: "finish_connect os c s events now rt w0 = (g1, rt1, w1)" by (metis prod.collapse)
  note R1 = finish_connect_R [OF s1]
  show ?thesis
  proof (cases "g1 \<or> find_connection rt1 cid = None")
    case True
    then have "socket_ready os token events rt w = Some (Inr (rt1, w1))"
      using c now s1 by (auto simp: socket_ready_def)
    with assms R1 show ?thesis by simp
  next
    case False
    then obtain c1 where c1: "find_connection rt1 cid = Some c1" "\<not> g1" by auto
    obtain g2 rt2 w2 where s2: "check_socket_error os c1 s events now rt1 w1 = (g2, rt2, w2)" by (metis prod.collapse)
    have R2: "R w0 w2" by (rule R_trans [OF R1 check_socket_error_R [OF s2]])
    show ?thesis
    proof (cases g2)
      case True
      then have "socket_ready os token events rt w = Some (Inr (rt2, w2))"
        using c now s1 c1 s2 by (simp add: socket_ready_def)
      with assms R2 show ?thesis by simp
    next
      case False
      then obtain g3 rt3 w3 where s3: "read_ready os c1 s events now rt2 w2 = Some (Inr (g3, rt3, w3))"
        and rest: "if g3 then w' = w3 else pump_connection os cid now rt3 w3 = Some (Inr (rt', w'))"
        using assms c now s1 c1 s2 by (auto simp: socket_ready_def split: option.splits sum.splits if_splits)
      have "R w3 w'" using rest pump_connection_R by (auto split: if_splits)
      with read_ready_R [OF s3] R2 show ?thesis by (metis R_trans)
    qed
  qed
next
  case False
  with assms show ?thesis by (auto simp: socket_ready_def split: option.splits)
qed

lemma handle_timer_R:
  assumes "handle_timer os e now rt w = Some (Inr (rt', w'))"
  shows "R w w'"
  using assms pump_connection_R close_connection_R
  by (auto simp: handle_timer_def Let_def split: option.splits timer_kind.splits if_splits)

lemma process_due_timers_R:
  assumes "process_due_timers os now rt w = Some (Inr (n, rt', w'))"
  shows "R w w'"
proof -
  have step: "R w v'" if "R w v" "timer_step os now (n, rt, v) = Some (Again (n', rt', v'))" for n rt v n' rt' v'
    using that handle_timer_R
    by (auto simp: timer_step_def split: option.splits prod.splits sum.splits) (blast intro: R_trans)
  obtain m rt1 v where "R w v" "timer_step os now (m, rt1, v) = Some (Halt (Inr (n, rt', w')))"
    using assms unfolding process_due_timers_def
    by (rule run_loop_invariant [where J = "\<lambda>(_, _, v). R w v"]) (auto intro: step)
  then show ?thesis by (auto simp: timer_step_def split: option.splits prod.splits sum.splits)
qed

end

section \<open>Reachable states\<close>

text \<open>
  What the state can be after rounds of the loop, the last one included, on whose state the
  program stops. (Going on after a last round, which the program does not do, only adds states.)
\<close>

definition next_round :: "'w os \<Rightarrow> inet_pton \<Rightarrow> runtime \<times> 'w \<Rightarrow> runtime \<times> 'w \<Rightarrow> bool" where
  "next_round os pton s s' \<longleftrightarrow> round_step os pton s = Some (Again s') \<or> round_step os pton s = Some (Halt (Inr s'))"

definition loop_reaches :: "'w os \<Rightarrow> inet_pton \<Rightarrow> proxy_config \<Rightarrow> 'w \<Rightarrow> runtime \<times> 'w \<Rightarrow> bool" where
  "loop_reaches os pton config w st \<longleftrightarrow> (next_round os pton)\<^sup>*\<^sup>* (proxy_started (runtime_new config), w) st"

lemma loop_reaches_start: "loop_reaches os pton config w (proxy_started (runtime_new config), w)"
  by (simp add: loop_reaches_def)

lemma loop_reaches_next:
  "loop_reaches os pton config w s \<Longrightarrow> next_round os pton s s' \<Longrightarrow> loop_reaches os pton config w s'"
  unfolding loop_reaches_def by (rule rtranclp.rtrancl_into_rtrancl)

lemma loop_reaches_end:
  assumes "run_loop (round_step os pton) (proxy_started (runtime_new config), w) = Some (Inr st)"
  shows "loop_reaches os pton config w st"
proof -
  have step: "loop_reaches os pton config w s'" if "loop_reaches os pton config w s" "round_step os pton s = Some (Again s')" for s s'
    using loop_reaches_next [OF that(1)] that(2) by (simp add: next_round_def)
  obtain s where s: "loop_reaches os pton config w s" "round_step os pton s = Some (Halt (Inr st))"
    by (rule run_loop_invariant [where J = "loop_reaches os pton config w", OF assms loop_reaches_start step])
  from loop_reaches_next [OF s(1)] s(2) show ?thesis by (simp add: next_round_def)
qed

end
