(* ===== verification/Proxy_Loop.thy ===== *)
theory Proxy_Loop
  imports Proxy_Accept Proxy_World
begin

text \<open>
  The event loop \<^verbatim>\<open>ProxyRuntime::run\<close> over an operating system that keeps the contract
  \<open>loop_os\<close>: a round throws nothing but a failed \<^verbatim>\<open>epoll_ctl\<close> or \<^verbatim>\<open>epoll_wait\<close>, keeps the invariant,
  and returns unless the accept loop finds new connections without end. If the requests for
  connections come to an end (\<open>event_os\<close>) every round returns. Shutting down closes and counts every
  connection.
\<close>

section \<open>Operating system\<close>

text \<open>
  The steady clock never runs back, and \<open>pending\<close> bounds how often calls in a row can be interrupted
  by a signal or write nothing before the next \<^verbatim>\<open>epoll_wait\<close>.
\<close>

definition calm :: "('w \<Rightarrow> time) \<Rightarrow> ('w \<Rightarrow> nat) \<Rightarrow> 'w \<Rightarrow> 'w \<Rightarrow> bool" where
  "calm clock pending w w' \<longleftrightarrow> clock w \<le> clock w' \<and> pending w' \<le> pending w"

locale loop_os = proxy_os os received sent
  for os :: "'w os" and received :: "'w \<Rightarrow> int \<Rightarrow> byte list" and sent :: "'w \<Rightarrow> int \<Rightarrow> byte list" +
  fixes clock :: "'w \<Rightarrow> time" and pending :: "'w \<Rightarrow> nat"
  assumes receive_calm: "io_receive (os_io os) fd buffer w = Some (res, buffer', w') \<Longrightarrow> calm clock pending w w'"
    and send_calm: "io_send (os_io os) fd data w = Some (res, w') \<Longrightarrow> calm clock pending w w'"
    and shutdown_calm: "io_shutdown_write (os_io os) fd w = (ok, w') \<Longrightarrow> calm clock pending w w'"
    and now_ok: "os_now os w = (t, w') \<Longrightarrow> clock w \<le> t \<and> t \<le> clock w' \<and> pending w' \<le> pending w"
    and accept_ok: "os_accept os w = ((fd, errno), w') \<Longrightarrow>
      calm clock pending w w' \<and> (fd < 0 \<and> errno = EINTR \<longrightarrow> pending w' < pending w)"
    and socket_calm: "os_socket os w = (result, w') \<Longrightarrow> calm clock pending w w'"
    and sndbuf_calm: "os_set_sndbuf os fd amount w = (result, w') \<Longrightarrow> calm clock pending w w'"
    and rcvbuf_calm: "os_set_rcvbuf os fd amount w = (result, w') \<Longrightarrow> calm clock pending w w'"
    and connect_calm: "os_connect os fd address w = (result, w') \<Longrightarrow> calm clock pending w w'"
    and socket_error_calm: "os_socket_error os fd w = (error, w') \<Longrightarrow> calm clock pending w w'"
    and epoll_add_calm: "os_epoll_add os fd events token w = (result, w') \<Longrightarrow> calm clock pending w w'"
    and epoll_mod_calm: "os_epoll_mod os fd events token w = (result, w') \<Longrightarrow> calm clock pending w w'"
    and epoll_del_calm: "calm clock pending w (os_epoll_del os fd w)"
    and close_calm: "calm clock pending w (os_close os fd w)"
    and timer_set_calm: "os_timer_set os spec w = (result, w') \<Longrightarrow> calm clock pending w w'"
    and wall_clock_calm: "os_wall_clock os w = (ms, w') \<Longrightarrow> calm clock pending w w'"
    and open_calm: "os_open os path w = (result, w') \<Longrightarrow> calm clock pending w w'"
    and rename_calm: "os_rename os path path' w = (result, w') \<Longrightarrow> calm clock pending w w'"
    and write_ok: "os_write os fd text w = ((n, errno), w') \<Longrightarrow>
      calm clock pending w w' \<and> (text \<noteq> [] \<and> n = 0 \<or> n < 0 \<and> errno = EINTR \<longrightarrow> pending w' < pending w)"
    and read_signal_ok: "os_read_signal os w = ((n, errno, signo), w') \<Longrightarrow>
      calm clock pending w w' \<and> (n < 0 \<and> errno = EINTR \<longrightarrow> pending w' < pending w)"
    and read_timer_ok: "os_read_timer os w = ((n, errno), w') \<Longrightarrow>
      calm clock pending w w' \<and> (n < 0 \<and> errno = EINTR \<longrightarrow> pending w' < pending w)"
    and wait_clock: "os_epoll_wait os w = (batch, w') \<Longrightarrow> clock w \<le> clock w'"

text \<open>
  An assumption on the clients rather than on the system: only so many connections arrive while a
  round accepts them, and \<open>pending\<close> counts these too.
\<close>

locale event_os = loop_os +
  assumes accept_finite: "os_accept os w = ((fd, errno), w') \<Longrightarrow> 0 \<le> fd \<Longrightarrow> pending w' < pending w"

lemma calm_refl [simp]: "calm clock pending w w"
  by (simp add: calm_def)

lemma calm_trans [trans]: "calm clock pending u v \<Longrightarrow> calm clock pending v w \<Longrightarrow> calm clock pending u w"
  by (auto simp: calm_def)

sublocale loop_os \<subseteq> os_relation os "calm clock pending"
  by unfold_locales
    (auto intro: calm_trans receive_calm send_calm shutdown_calm socket_error_calm epoll_mod_calm epoll_del_calm close_calm)

section \<open>Invariant of the loop\<close>

definition loop_inv :: "proxy_config \<Rightarrow> ('w \<Rightarrow> time) \<Rightarrow> runtime \<times> 'w \<Rightarrow> bool" where
  "loop_inv config clock = (\<lambda>(rt, w). runtime_inv config (relay_timely (clock w)) rt)"

lemma relay_timely_mono: "relay_timely t r \<Longrightarrow> t \<le> t' \<Longrightarrow> relay_timely t' r"
  by (fastforce simp: relay_timely_def channel_timely_def pred_option_iff)

lemma runtime_inv_later:
  "runtime_inv config (relay_timely t) rt \<Longrightarrow> t \<le> t' \<Longrightarrow> runtime_inv config (relay_timely t') rt"
  using relay_timely_mono by (auto simp: runtime_inv_def)

lemma loop_inv_later: "loop_inv config clock (rt, w) \<Longrightarrow> clock w \<le> clock w' \<Longrightarrow> loop_inv config clock (rt, w')"
  using runtime_inv_later by (auto simp: loop_inv_def)

lemma loop_inv_log [simp]: "loop_inv config clock (log_event rt a k b d, w) = loop_inv config clock (rt, w)"
  by (simp add: loop_inv_def)

lemma loop_inv_armed [simp]:
  "loop_inv config clock (rt\<lparr>rt_last_armed_deadline := d\<rparr>, w) = loop_inv config clock (rt, w)"
  by (simp add: loop_inv_def runtime_inv_def table_inv_def closes_def)

lemma loop_inv_new:
  assumes "config_ok pton config"
  shows "loop_inv config clock (runtime_new config, w)"
  using config_okD(1) [OF assms]
  by (simp add: loop_inv_def runtime_inv_def table_inv_def runtime_new_def closes_def token_pairs_def tq_new_inv)

text \<open>What a stage of a round returns.\<close>

definition stage_ok ::
  "proxy_config \<Rightarrow> ('w \<Rightarrow> time) \<Rightarrow> 'w \<Rightarrow> exn + runtime \<times> 'w \<Rightarrow> bool" where
  "stage_ok config clock w res \<longleftrightarrow>
     (case res of Inl e \<Rightarrow> epoll_failure e
      | Inr (rt', w') \<Rightarrow> loop_inv config clock (rt', w') \<and> clock w \<le> clock w')"

lemma stage_ok_Inr [simp]:
  "stage_ok config clock w (Inr (rt', w')) \<longleftrightarrow> loop_inv config clock (rt', w') \<and> clock w \<le> clock w'"
  by (simp add: stage_ok_def)

section \<open>Accepting\<close>

lemma fresh_timely:
  assumes "config_ok pton config" and "plan = pc_faults config \<or> plan = fault_plan_default"
    and "relay_new rc plan cid cfd ufd connecting now = Inr r"
  shows "relay_timely now r"
proof (rule relay_new_timely [OF _ assms(3)])
  assume "fp_any_enabled plan"
  moreover have "\<not> fp_any_enabled fault_plan_default" by (simp add: fp_any_enabled_def fault_plan_default_def)
  ultimately show "fp_validate plan = Inr () \<and> fp_burst_bytes plan \<le> 18446744070"
    using assms(1,2) config_okD(2) [OF assms(1)] by (auto simp: config_ok_def)
qed

lemma buffer_size_log:
  assumes "apply_socket_buffer_size os fd rt w = (rt', w')"
  shows "(rt' = rt \<or> (\<exists>d. rt' = log_event rt ''socket_buffer_resize_failed'' 0 ''failed'' d)) \<and>
    (w' = w \<or> (\<exists>amount res u. os_set_sndbuf os fd amount w = (res, u) \<and>
       (w' = u \<or> (\<exists>res'. os_set_rcvbuf os fd amount u = (res', w')))))"
  using assms by (fastforce simp: apply_socket_buffer_size_def Let_def split: if_splits prod.splits)

context loop_os
begin

lemma install_connection_calm:
  assumes "install_connection os client upstream connecting now rt w = Inr (rt', w')"
  shows "calm clock pending w w'"
proof -
  obtain v m1 t1 m2 t2 where "add_epoll os client m1 t1 w = Inr v" "add_epoll os upstream m2 t2 v = Inr w'"
    using assms by (auto simp: install_connection_def Let_def bind_sum_Inr case_prod_unfold)
  then have "calm clock pending w v" "calm clock pending v w'"
    using epoll_add_calm by (auto simp: add_epoll_def Let_def split: prod.splits if_splits)
  then show ?thesis by (rule calm_trans)
qed

lemma install_connection_stage:
  assumes cfg: "config_ok pton config" and inv: "loop_inv config clock (rt, u)"
    and now: "clock u \<le> now" "now \<le> clock w" and room: "length (rt_connections rt) < pc_max_connections config"
  shows "case install_connection os client upstream connecting now rt w of
      Inl e \<Rightarrow> epoll_failure e
    | Inr (rt', w') \<Rightarrow> loop_inv config clock (rt', w') \<and> calm clock pending w w'"
proof -
  have later: "runtime_inv config (relay_timely now) rt"
    using runtime_inv_later inv now(1) by (simp add: loop_inv_def)
  from install_connection_ok [OF later room kept_examples(2) [OF order_refl], of client upstream connecting os w]
  have "(\<exists>e. install_connection os client upstream connecting now rt w = Inl e \<and> epoll_failure e) \<or>
      (\<exists>rt' w'. install_connection os client upstream connecting now rt w = Inr (rt', w') \<and>
         runtime_inv config (relay_timely now) rt')"
    using fresh_timely [OF cfg] by blast
  then show ?thesis
  proof (elim disjE exE conjE)
    fix rt' w' assume x: "install_connection os client upstream connecting now rt w = Inr (rt', w')"
      and "runtime_inv config (relay_timely now) rt'"
    moreover have "calm clock pending w w'" by (rule install_connection_calm [OF x])
    ultimately show ?thesis using now(2) runtime_inv_later by (fastforce simp: loop_inv_def calm_def)
  qed simp
qed

text \<open>Handling one accepted socket goes on with the loop, unless registering it with epoll fails.\<close>

definition accept_post ::
  "proxy_config \<Rightarrow> 'w \<Rightarrow> (runtime \<times> 'w, exn + runtime \<times> 'w) loop_outcome option \<Rightarrow> bool" where
  "accept_post config w out \<longleftrightarrow>
     (\<exists>rt' w'. out = Some (Again (rt', w')) \<and> loop_inv config clock (rt', w') \<and> calm clock pending w w') \<or>
     (\<exists>e. out = Some (Halt (Inl e)) \<and> epoll_failure e)"

lemma accept_connection_ok:
  assumes cfg: "config_ok pton config" and inv: "loop_inv config clock (rt, w1)"
    and acc: "os_accept os w = ((client, errno), w1)" and pos: "\<not> client < 0"
  shows "accept_post config w1 (accept_step os pton (rt, w))"
proof -
  obtain upstream errno2 w2 where sock: "os_socket os w1 = ((upstream, errno2), w2)" by (metis prod.collapse)
  have c2: "calm clock pending w1 w2" by (rule socket_calm [OF sock])
  obtain rt3 w3 where buf: "apply_socket_buffer_size os upstream rt w2 = (rt3, w3)" by fastforce
  note log3 = buffer_size_log [OF buf]
  have c3: "calm clock pending w1 w3" using c2 log3 by (auto dest!: sndbuf_calm rcvbuf_calm intro: calm_trans)
  obtain address where addr: "ep_to_sockaddr pton (pc_upstream config) = Inr address"
    using config_okD(3) [OF cfg] by blast
  obtain result errno4 w4 where conn: "os_connect os upstream address w3 = ((result, errno4), w4)"
    by (metis prod.collapse)
  have c4: "calm clock pending w1 w4" by (rule calm_trans [OF c3 connect_calm [OF conn]])
  obtain now w5 where clk: "os_now os w4 = (now, w5)" by fastforce
  have c5: "calm clock pending w1 w5" and now: "clock w1 \<le> now" "now \<le> clock w5"
    using now_ok [OF clk] c4 by (auto simp: calm_def)
  have inv3: "loop_inv config clock (rt3, w1)" using inv log3 by auto
  have cfg3: "rt_config rt = config" "rt_config rt3 = config" "rt_connections rt3 = rt_connections rt"
    using inv log3 by (auto simp: loop_inv_def runtime_inv_def table_inv_def)
  define inst where "inst = install_connection os client upstream (result < 0 \<and> errno4 = EINPROGRESS) now rt3 w5"
  have step: "accept_step os pton (rt, w) =
    (if length (rt_connections rt) \<ge> pc_max_connections config
     then Some (Again (log_event rt ''connection_rejected'' 0 ''failed'' ''max_connections_reached'', os_close os client w1))
     else if upstream < 0
     then Some (Again (log_event rt ''upstream_socket_failed'' 0 ''failed'' (os_strerror os errno2), os_close os client w2))
     else if result < 0 \<and> errno4 \<noteq> EINPROGRESS
     then Some (Again (log_event rt3 ''upstream_connect_failed'' 0 ''failed'' (os_strerror os errno4),
                       os_close os client (os_close os upstream w4)))
     else (case inst of Inl e \<Rightarrow> Some (Halt (Inl e)) | Inr (rt, w) \<Rightarrow> Some (Again (rt, w))))"
    using pos acc sock buf addr conn clk cfg3
    by (auto simp: accept_step_def Let_def inst_def cong: if_cong)
  have logged: "accept_post config w1 (Some (Again (log_event rt' a k b d, os_close os client u)))"
    if "loop_inv config clock (rt', w1)" "calm clock pending w1 u" for rt' a k b d u
    using calm_trans [OF that(2) close_calm] loop_inv_later [OF that(1)] by (auto simp: accept_post_def calm_def)
  have "accept_post config w1 (case inst of Inl e \<Rightarrow> Some (Halt (Inl e)) | Inr (rt, w) \<Rightarrow> Some (Again (rt, w)))"
    if "length (rt_connections rt) < pc_max_connections config"
    using install_connection_stage [OF cfg inv3 now, of client upstream "result < 0 \<and> errno4 = EINPROGRESS"] that cfg3
    by (auto simp: accept_post_def inst_def split: sum.splits intro: calm_trans [OF c5])
  with logged [OF inv calm_refl] logged [OF inv c2] logged [OF inv3 calm_trans [OF c4 close_calm]] step
  show ?thesis by simp
qed

lemma accept_step_ok:
  assumes cfg: "config_ok pton config" and inv: "loop_inv config clock (rt, w)"
    and acc: "os_accept os w = ((client, errno), w1)"
  shows "\<exists>out. accept_step os pton (rt, w) = Some out \<and>
    (case out of Again (rt', w') \<Rightarrow> loop_inv config clock (rt', w') \<and> calm clock pending w1 w' \<and> (0 \<le> client \<or> errno = EINTR)
     | Halt res \<Rightarrow> stage_ok config clock w res)"
proof -
  have c1: "calm clock pending w w1" using accept_ok [OF acc] by simp
  have inv1: "loop_inv config clock (rt, w1)" using loop_inv_later [OF inv] c1 by (simp add: calm_def)
  show ?thesis
  proof (cases "client < 0")
    case True
    with acc inv1 c1 show ?thesis by (auto simp: accept_step_def calm_def)
  next
    case False
    with accept_connection_ok [OF cfg inv1 acc] show ?thesis by (auto simp: accept_post_def stage_ok_def)
  qed
qed

text \<open>Two rounds of the loop in terms of the worlds.\<close>

lemma accept_again_ok:
  assumes "config_ok pton config" and "loop_inv config clock (rt, w)"
    and "accept_step os pton (rt, w) = Some (Again (rt', w'))"
  shows "loop_inv config clock (rt', w')" and "calm clock pending w w'"
    and "fst (fst (os_accept os w)) < 0 \<Longrightarrow> pending w' < pending w"
proof -
  obtain client errno w1 where acc: "os_accept os w = ((client, errno), w1)" by (metis prod.collapse)
  note ok = accept_step_ok [OF assms(1,2) acc] accept_ok [OF acc]
  show "loop_inv config clock (rt', w')" using ok(1) assms(3) by auto
  show "calm clock pending w w'" using ok assms(3) by (auto intro: calm_trans)
  show "pending w' < pending w" if "fst (fst (os_accept os w)) < 0"
    using ok assms(3) that acc by (auto simp: calm_def)
qed

end

text \<open>The accept loop goes on for ever, and ever again it is handed a new connection.\<close>

definition accepts_forever :: "'w os \<Rightarrow> inet_pton \<Rightarrow> runtime \<Rightarrow> 'w \<Rightarrow> bool" where
  "accepts_forever os pton rt w \<longleftrightarrow>
     (\<exists>f. f 0 = (rt, w) \<and> (\<forall>n. accept_step os pton (f n) = Some (Again (f (Suc n)))) \<and>
        (\<forall>n. \<exists>k \<ge> n. 0 \<le> fst (fst (os_accept os (snd (f k))))))"

lemma accept_step_returns: "accept_step os pton st \<noteq> None"
  by (cases st) (auto simp: accept_step_def Let_def split: prod.splits sum.splits)

lemma no_descent:
  fixes g :: "nat \<Rightarrow> nat"
  assumes "\<And>k. g (Suc k) < g k"
  shows False
proof -
  have "g k + k \<le> g 0" for k
  proof (induction k)
    case (Suc k)
    with assms [of k] show ?case by simp
  qed simp
  from this [of "Suc (g 0)"] show False by simp
qed

context loop_os
begin

lemma accept_run_inv:
  assumes "config_ok pton config" and "loop_inv config clock (f 0)"
    and "\<And>n. accept_step os pton (f n) = Some (Again (f (Suc n)))"
  shows "loop_inv config clock (f n)"
proof (induction n)
  case (Suc n)
  show ?case
    using accept_again_ok(1) [OF assms(1), of "fst (f n)" "snd (f n)" "fst (f (Suc n))" "snd (f (Suc n))"] assms(3) Suc by simp
qed (rule assms(2))

lemma accept_ready_cases:
  assumes cfg: "config_ok pton config" and inv: "loop_inv config clock (rt, w)"
  shows "(\<exists>res. accept_ready os pton rt w = Some res \<and> stage_ok config clock w res) \<or>
    accept_ready os pton rt w = None \<and> accepts_forever os pton rt w"
proof (cases "accept_ready os pton rt w")
  case None
  then have "run_loop (accept_step os pton) (rt, w) = None" by (simp add: accept_ready_def)
  then obtain f where f: "f 0 = (rt, w)" "\<And>n. accept_step os pton (f n) = Some (Again (f (Suc n)))"
    by (rule run_loop_diverges [OF _ accept_step_returns]) (rule that, assumption+)
  have good: "loop_inv config clock (f n)" for n
    by (rule accept_run_inv [where f = f, OF cfg _ f(2)]) (simp add: f(1) inv)
  have "\<exists>k \<ge> n. 0 \<le> fst (fst (os_accept os (snd (f k))))" for n
  proof (rule ccontr)
    assume "\<not> (\<exists>k \<ge> n. 0 \<le> fst (fst (os_accept os (snd (f k)))))"
    then have failed: "fst (fst (os_accept os (snd (f (n + k))))) < 0" for k
      using not_le le_add1 by blast
    have "pending (snd (f (n + Suc k))) < pending (snd (f (n + k)))" for k
      using accept_again_ok(3) [OF cfg, of "fst (f (n + k))" "snd (f (n + k))" "fst (f (Suc (n + k)))" "snd (f (Suc (n + k)))"]
        good [of "n + k"] f(2) [of "n + k"] failed [of k] by simp
    then show False by (rule no_descent)
  qed
  with None f show ?thesis by (auto simp: accepts_forever_def)
next
  case (Some res)
  obtain rt1 w1 where last: "loop_inv config clock (rt1, w1)" "calm clock pending w w1"
      "accept_step os pton (rt1, w1) = Some (Halt res)"
    using Some unfolding accept_ready_def
    by (rule run_loop_invariant [where J = "\<lambda>(rt', w'). loop_inv config clock (rt', w') \<and> calm clock pending w w'"])
      (use inv accept_again_ok [OF cfg] in \<open>auto intro: calm_trans\<close>)
  obtain client errno w2 where "os_accept os w1 = ((client, errno), w2)" by (metis prod.collapse)
  from accept_step_ok [OF cfg last(1) this] last(2,3) Some show ?thesis
    by (auto simp: stage_ok_def calm_def split: sum.splits)
qed

end

section \<open>Reports and signals\<close>

lemma foldl_log_inv:
  "(\<And>rt x. loop_inv config clock (f rt x, w) = loop_inv config clock (rt, w)) \<Longrightarrow>
   loop_inv config clock (foldl f rt xs, w) = loop_inv config clock (rt, w)"
  by (induction xs arbitrary: rt) auto

context loop_os
begin

lemma emit_metrics_snapshot_ok:
  assumes inv: "loop_inv config clock (rt, w)" and res: "emit_metrics_snapshot os rt w = (rt', w')"
  shows "loop_inv config clock (rt', w')" and "calm clock pending w w'"
proof -
  obtain now v where now: "os_now os w = (now, v)" by fastforce
  have w': "w' = v" using res now by (simp add: emit_metrics_snapshot_def Let_def)
  show c: "calm clock pending w w'" using now_ok [OF now] w' by (auto simp: calm_def)
  then have "loop_inv config clock (rt, w')" using loop_inv_later [OF inv] by (simp add: calm_def)
  with res now show "loop_inv config clock (rt', w')"
    by (auto simp: emit_metrics_snapshot_def Let_def foldl_log_inv case_prod_unfold)
qed

lemma metrics_write_ok:
  "\<exists>e w'. run_loop (metrics_write_step os fd json) (0, w) = Some (e, w') \<and> calm clock pending w w'"
proof -
  let ?I = "\<lambda>(_, v). calm clock pending w v" and ?Q = "\<lambda>(_, v). calm clock pending w v"
  have "\<exists>r. run_loop (metrics_write_step os fd json) (0, w) = Some r \<and> ?Q r"
  proof (rule run_loop_total [where I = ?I and m = "\<lambda>(offset, v). (length json - offset) + pending v"])
    fix st :: "nat \<times> 'w"
    assume I: "?I st"
    obtain offset v where st: "st = (offset, v)" by fastforce
    obtain n errno v' where call: "os_write os fd (drop offset json) v = ((n, errno), v')" by (metis prod.collapse)
    note ok = write_ok [OF call]
    have c: "calm clock pending w v'" using I st ok by (auto simp: calm_def)
    show "loop_ok ?I (\<lambda>(offset, v). (length json - offset) + pending v) ?Q st (metrics_write_step os fd json st)"
      using I st call c ok by (cases "n = 0") (auto simp: metrics_write_step_def calm_def not_le [symmetric])
  qed simp
  then show ?thesis by auto
qed

lemma build_metrics_json_calm:
  "build_metrics_json os rt w = (document, w') \<Longrightarrow> calm clock pending w w'"
  using now_ok wall_clock_calm
  by (auto simp: build_metrics_json_def Let_def calm_def split: prod.splits) (meson order_trans)+

lemma write_metrics_file_ok:
  assumes inv: "loop_inv config clock (rt, w)"
  shows "\<exists>rt' w'. write_metrics_file os rt w = Some (rt', w') \<and> loop_inv config clock (rt', w') \<and> calm clock pending w w' \<and>
    rt_connections rt' = rt_connections rt \<and> table_inv config rt' = table_inv config rt \<and>
    rt_next_connection_id rt' = rt_next_connection_id rt"
proof (cases "pc_metrics_file (rt_config rt) = []")
  case True
  with inv show ?thesis by (simp add: write_metrics_file_def)
next
  case False
  let ?path = "pc_metrics_file (rt_config rt)"
  obtain document w1 where b: "build_metrics_json os rt w = (document, w1)" by fastforce
  obtain fd errno w2 where o: "os_open os (?path @ ''.tmp'') w1 = ((fd, errno), w2)" by (metis prod.collapse)
  obtain e w3 where wr: "run_loop (metrics_write_step os fd (document @ [CHR 0x0A])) (0, w2) = Some (e, w3)"
      "calm clock pending w2 w3" using metrics_write_ok by blast
  let ?w4 = "os_close os fd w3"
  obtain result errno' w5 where rn: "os_rename os (?path @ ''.tmp'') ?path ?w4 = ((result, errno'), w5)"
    by (metis prod.collapse)
  have c2: "calm clock pending w w2" by (rule calm_trans [OF build_metrics_json_calm [OF b] open_calm [OF o]])
  have c4: "calm clock pending w ?w4" by (rule calm_trans [OF calm_trans [OF c2 wr(2)] close_calm])
  have c5: "calm clock pending w w5" by (rule calm_trans [OF c4 rename_calm [OF rn]])
  have later: "loop_inv config clock (rt, v)" if "calm clock pending w v" for v
    using loop_inv_later [OF inv] that by (simp add: calm_def)
  show ?thesis
    using False b o wr(1) rn c2 c4 c5 later [OF c2] later [OF c4] later [OF c5]
    by (cases e) (auto simp: write_metrics_file_def Let_def)
qed

lemma signal_ready_ok:
  assumes inv: "loop_inv config clock (rt, w)"
  shows "\<exists>stop rt' w'. signal_ready os rt w = Some (stop, rt', w') \<and> loop_inv config clock (rt', w') \<and> clock w \<le> clock w'"
proof -
  let ?I = "calm clock pending w" and ?Q = "\<lambda>(_, v). calm clock pending w v"
  have "\<exists>r. run_loop (signal_read_step os) w = Some r \<and> ?Q r"
  proof (rule run_loop_total [where I = ?I and m = pending])
    fix v assume I: "?I v"
    obtain n errno signo v' where call: "os_read_signal os v = ((n, errno, signo), v')" by (metis prod.collapse)
    show "loop_ok ?I pending ?Q v (signal_read_step os v)"
      using I call read_signal_ok [OF call] calm_trans [OF I] by (auto simp: signal_read_step_def)
  qed simp
  then obtain n errno signo v where r: "run_loop (signal_read_step os) w = Some ((n, errno, signo), v)"
    and c: "calm clock pending w v" by (auto simp: split_paired_all)
  have inv1: "loop_inv config clock (rt, v)" using loop_inv_later [OF inv] c by (simp add: calm_def)
  obtain rt1 w1 where em: "emit_metrics_snapshot os rt v = (rt1, w1)" by fastforce
  note em1 = emit_metrics_snapshot_ok [OF inv1 em]
  obtain rt2 w2 where wm: "write_metrics_file os rt1 w1 = Some (rt2, w2)" "loop_inv config clock (rt2, w2)"
      "calm clock pending w1 w2" using write_metrics_file_ok [OF em1(1)] by blast
  have c2: "calm clock pending w w2" by (rule calm_trans [OF calm_trans [OF c em1(2)] wm(3)])
  show ?thesis
    using r inv1 em wm c c2 by (auto simp: signal_ready_def calm_def)
qed

section \<open>Events and rounds\<close>

lemma timer_ready_ok:
  assumes inv: "loop_inv config clock (rt, w)"
  shows "\<exists>res. timer_ready os rt w = Some res \<and> stage_ok config clock w res"
proof -
  have "\<exists>v. run_loop (drain_step os) w = Some v \<and> calm clock pending w v"
  proof (rule run_loop_total [where I = "calm clock pending w" and m = pending])
    fix v assume I: "calm clock pending w v"
    obtain n errno v' where call: "os_read_timer os v = ((n, errno), v')" by (metis prod.collapse)
    show "loop_ok (calm clock pending w) pending (calm clock pending w) v (drain_step os v)"
      using I call read_timer_ok [OF call] calm_trans [OF I] by (auto simp: drain_step_def)
  qed simp
  then obtain v where v: "drain_timer_fd os w = Some v" "calm clock pending w v"
    by (auto simp: drain_timer_fd_def)
  obtain now u where now: "os_now os v = (now, u)" by fastforce
  note clk = now_ok [OF now]
  have "clock w \<le> now" using clk v(2) by (simp add: calm_def)
  then have inv1: "runtime_inv config (relay_timely now) rt"
    using inv runtime_inv_later by (auto simp: loop_inv_def)
  obtain res where res: "process_due_timers os now rt u = Some res"
    "case res of Inl e \<Rightarrow> epoll_failure e
     | Inr (n, rt', _) \<Rightarrow> runtime_inv config (relay_timely now) rt' \<and> due now rt' = 0 \<and> n = due now rt"
    using process_due_timers_ok [OF inv1, of now u] by auto
  show ?thesis
  proof (cases res)
    case (Inl e)
    with res v now show ?thesis by (auto simp: timer_ready_def stage_ok_def)
  next
    case (Inr x)
    then obtain n rt' w' where x: "res = Inr (n, rt', w')" by (metis prod.collapse)
    have "calm clock pending u w'" using process_due_timers_R res(1) x by simp
    then have "now \<le> clock w'" using clk by (simp add: calm_def)
    then have "loop_inv config clock (rt', w')" "clock w \<le> clock w'"
      using res(2) x runtime_inv_later \<open>clock w \<le> now\<close> by (auto simp: loop_inv_def)
    with res(1) x v now show ?thesis by (simp add: timer_ready_def)
  qed
qed

lemma socket_event_ok:
  assumes inv: "loop_inv config clock (rt, w)"
  shows "\<exists>res. socket_ready os token events rt w = Some res \<and> stage_ok config clock w res"
proof -
  obtain now u where now: "os_now os w = (now, u)" by fastforce
  note clk = now_ok [OF now]
  then have inv1: "runtime_inv config (relay_timely now) rt"
    using inv runtime_inv_later by (auto simp: loop_inv_def)
  obtain res where res: "socket_ready os token events rt w = Some res" "handled config (relay_timely now) now rt res"
    using socket_ready_ok [OF inv1 now, of token events] by auto
  show ?thesis
  proof (cases res)
    case (Inl e)
    with res show ?thesis by (auto simp: stage_ok_def handled_def)
  next
    case (Inr x)
    then obtain rt' w' where x: "res = Inr (rt', w')" by (cases x) auto
    from socket_ready_R [OF _ now, of token events rt rt' w'] res(1) x
    consider "rt' = rt" "w' = w" | "calm clock pending u w'" by auto
    then show ?thesis
    proof cases
      case 1
      with inv res(1) x show ?thesis by simp
    next
      case 2
      then have "now \<le> clock w'" using clk by (simp add: calm_def)
      then have "loop_inv config clock (rt', w')" "clock w \<le> clock w'"
        using res(2) x runtime_inv_later clk by (auto simp: loop_inv_def)
      with res(1) x show ?thesis by simp
    qed
  qed
qed

lemma dispatch_event_cases:
  assumes "config_ok pton config" and "loop_inv config clock (rt, w)"
  shows "(\<exists>res. dispatch_event os pton event rt w = Some res \<and>
      (case res of Inl e \<Rightarrow> epoll_failure e
       | Inr (stopping, rt', w') \<Rightarrow> loop_inv config clock (rt', w') \<and> clock w \<le> clock w')) \<or>
    dispatch_event os pton event rt w = None \<and> fst event = kListenerToken \<and> accepts_forever os pton rt w"
proof -
  obtain token events where event: "event = (token, events)" by fastforce
  have lift: "\<exists>res. map_option (map_sum (\<lambda>e. e) (\<lambda>(rt, w). (False, rt, w))) x = Some res \<and>
      (case res of Inl e \<Rightarrow> epoll_failure e
       | Inr (stopping, rt', w') \<Rightarrow> loop_inv config clock (rt', w') \<and> clock w \<le> clock w')"
    if x: "\<exists>res. x = Some res \<and> stage_ok config clock w res" for x
  proof -
    obtain res where "x = Some res" "stage_ok config clock w res" using x by blast
    then show ?thesis by (cases res) (auto simp: stage_ok_def)
  qed
  note stages = lift [OF timer_ready_ok [OF assms(2)]] lift [OF socket_event_ok [OF assms(2), of token events]]
  show ?thesis
    using stages signal_ready_ok [OF assms(2)] accept_ready_cases [OF assms] lift [of "accept_ready os pton rt w"]
    unfolding dispatch_event_def event Let_def prod.case
    by (cases "token = kListenerToken"; cases "token = kSignalToken"; cases "token = kTimerToken") auto
qed

lemma dispatch_events_cases:
  assumes "config_ok pton config" and "loop_inv config clock (rt, w)"
  shows "(\<exists>res. dispatch_events os pton events rt w = Some res \<and>
      (case res of Inl e \<Rightarrow> epoll_failure e | Inr (stopping, rt', w') \<Rightarrow> loop_inv config clock (rt', w'))) \<or>
    dispatch_events os pton events rt w = None \<and>
    (\<exists>handled flags rest rt1 w1. events = handled @ (kListenerToken, flags) # rest \<and>
       dispatch_events os pton handled rt w = Some (Inr (False, rt1, w1)) \<and> accepts_forever os pton rt1 w1)"
  using assms(2)
proof (induction events arbitrary: rt w)
  case (Cons event events)
  show ?case
  proof (cases "dispatch_event os pton event rt w")
    case None
    with dispatch_event_cases [OF assms(1) Cons.prems, of event] have "event = (kListenerToken, snd event)"
        "accepts_forever os pton rt w" by (auto simp: prod_eq_iff)
    with None show ?thesis
      by (intro disjI2 conjI exI [of _ "[]"] exI [of _ "snd event"] exI [of _ events] exI [of _ rt] exI [of _ w]) simp_all
  next
    case (Some res)
    then have ok: "case res of Inl e \<Rightarrow> epoll_failure e
       | Inr (stopping, rt', w') \<Rightarrow> loop_inv config clock (rt', w') \<and> clock w \<le> clock w'"
      using dispatch_event_cases [OF assms(1) Cons.prems, of event] by simp
    show ?thesis
    proof (cases "\<exists>rt' w'. res = Inr (False, rt', w')")
      case True
      then obtain rt' w' where res: "res = Inr (False, rt', w')" by blast
      then have "loop_inv config clock (rt', w')" using ok by simp
      from Cons.IH [OF this] show ?thesis
      proof
        assume "dispatch_events os pton events rt' w' = None \<and>
          (\<exists>handled flags rest rt1 w1. events = handled @ (kListenerToken, flags) # rest \<and>
             dispatch_events os pton handled rt' w' = Some (Inr (False, rt1, w1)) \<and> accepts_forever os pton rt1 w1)"
        then obtain handled flags rest rt1 w1 where none: "dispatch_events os pton events rt' w' = None"
          and tail: "events = handled @ (kListenerToken, flags) # rest"
            "dispatch_events os pton handled rt' w' = Some (Inr (False, rt1, w1))" "accepts_forever os pton rt1 w1" by blast
        then show ?thesis using Some res
          by (intro disjI2 conjI exI [of _ "event # handled"] exI [of _ flags] exI [of _ rest] exI [of _ rt1] exI [of _ w1]) simp_all
      qed (use Some res in simp)
    next
      case False
      with Some ok show ?thesis by (cases res) auto
    qed
  qed
qed simp

lemma arm_timer_fd_ok:
  assumes inv: "loop_inv config clock (rt, w)" and res: "arm_timer_fd os rt w = (rt', w')"
  shows "loop_inv config clock (rt', w')"
proof -
  let ?deadline = "tq_next_deadline (rt_timers rt)"
  obtain result errno w1 where call: "os_timer_set os (timer_spec ?deadline) w = ((result, errno), w1)"
    by (metis prod.collapse)
  obtain now w2 where now: "os_now os w1 = (now, w2)" by fastforce
  have c1: "clock w \<le> clock w1" using timer_set_calm [OF call] by (simp add: calm_def)
  have c2: "clock w \<le> clock w2" using c1 now_ok [OF now] by simp
  show ?thesis
    using res inv call now loop_inv_later [OF inv c1] loop_inv_later [OF inv c2]
    by (auto simp: arm_timer_fd_def Let_def split: if_splits option.splits)
qed

end

text \<open>
  A round that does not return is in the accept loop: it has dealt with the events before the
  listener's, and the listener has new connections without end.
\<close>

definition stuck_accepting :: "'w os \<Rightarrow> inet_pton \<Rightarrow> runtime \<times> 'w \<Rightarrow> bool" where
  "stuck_accepting os pton st \<longleftrightarrow>
     (\<exists>count errno events w1 handled flags rest rt1 w2.
        os_epoll_wait os (snd st) = ((count, errno, events), w1) \<and>
        take (nat count) events = handled @ (kListenerToken, flags) # rest \<and>
        dispatch_events os pton handled (fst st) w1 = Some (Inr (False, rt1, w2)) \<and> accepts_forever os pton rt1 w2)"

context loop_os
begin

text \<open>A whole round.\<close>

lemma round_step_cases:
  assumes cfg: "config_ok pton config" and inv: "loop_inv config clock st"
  shows "(\<exists>out. round_step os pton st = Some out \<and>
      (case out of Again st' \<Rightarrow> loop_inv config clock st'
       | Halt (Inl e) \<Rightarrow> epoll_failure e
       | Halt (Inr st') \<Rightarrow> loop_inv config clock st')) \<or>
    round_step os pton st = None \<and> stuck_accepting os pton st"
proof -
  obtain rt w where st: "st = (rt, w)" by fastforce
  obtain count errno events w1 where wait: "os_epoll_wait os w = ((count, errno, events), w1)" by (metis prod.collapse)
  have inv1: "loop_inv config clock (rt, w1)"
    using loop_inv_later [of config clock rt w w1] wait_clock [OF wait] inv st by simp
  note events = dispatch_events_cases [OF cfg inv1, of "take (nat count) events"]
  show ?thesis
  proof (cases "count < 0")
    case True
    with st wait inv1 epoll_failure_thrown(3) show ?thesis by (auto simp: round_step_def)
  next
    case False
    show ?thesis
    proof (cases "dispatch_events os pton (take (nat count) events) rt w1")
      case None
      with events obtain handled flags rest rt1 w2 where "take (nat count) events = handled @ (kListenerToken, flags) # rest"
          "dispatch_events os pton handled rt w1 = Some (Inr (False, rt1, w2))" "accepts_forever os pton rt1 w2" by auto
      then have "stuck_accepting os pton st" using wait unfolding stuck_accepting_def st by fastforce
      moreover have "round_step os pton st = None" using None False wait st by (simp add: round_step_def)
      ultimately show ?thesis by blast
    next
      case (Some res)
      show ?thesis
      proof (cases res)
        case (Inl e)
        with st wait Some events False show ?thesis by (auto simp: round_step_def)
      next
        case (Inr x)
        then obtain stopping rt2 w2 where x: "res = Inr (stopping, rt2, w2)" by (metis prod.collapse)
        obtain rt3 w3 where arm: "arm_timer_fd os rt2 w2 = (rt3, w3)" by fastforce
        have "loop_inv config clock (rt3, w3)" using arm_timer_fd_ok [OF _ arm] events Some x by simp
        with st wait Some x arm False show ?thesis by (auto simp: round_step_def)
      qed
    qed
  qed
qed

end

context event_os
begin

lemma no_accepts_forever:
  assumes cfg: "config_ok pton config" and inv: "loop_inv config clock (rt, w)"
  shows "\<not> accepts_forever os pton rt w"
proof
  assume "accepts_forever os pton rt w"
  then obtain f where f: "f 0 = (rt, w)" "\<And>n. accept_step os pton (f n) = Some (Again (f (Suc n)))"
    by (auto simp: accepts_forever_def)
  have "pending (snd (f (Suc n))) < pending (snd (f n))" for n
  proof -
    obtain client errno w1 where acc: "os_accept os (snd (f n)) = ((client, errno), w1)" by (metis prod.collapse)
    have "loop_inv config clock (f n)"
      by (rule accept_run_inv [where f = f, OF cfg _ f(2)]) (simp add: f(1) inv)
    then have "loop_inv config clock (fst (f n), snd (f n))" by simp
    from accept_step_ok [OF cfg this acc] f(2) [of n]
    have "calm clock pending w1 (snd (f (Suc n)))" "0 \<le> client \<or> errno = EINTR" by (auto simp: case_prod_unfold)
    with accept_ok [OF acc] accept_finite [OF acc] show ?thesis by (cases "0 \<le> client") (auto simp: calm_def)
  qed
  then show False by (rule no_descent)
qed

lemma round_step_ok:
  assumes cfg: "config_ok pton config" and inv: "loop_inv config clock st"
  shows "\<exists>out. round_step os pton st = Some out \<and>
    (case out of Again st' \<Rightarrow> loop_inv config clock st'
     | Halt (Inl e) \<Rightarrow> epoll_failure e
     | Halt (Inr st') \<Rightarrow> loop_inv config clock st')"
proof -
  have "\<not> stuck_accepting os pton st"
  proof
    assume "stuck_accepting os pton st"
    then obtain count errno events w1 handled rt1 w2 where stuck:
        "os_epoll_wait os (snd st) = ((count, errno, events), w1)"
        "dispatch_events os pton handled (fst st) w1 = Some (Inr (False, rt1, w2))" "accepts_forever os pton rt1 w2"
      unfolding stuck_accepting_def by blast
    have "loop_inv config clock (fst st, w1)"
      using loop_inv_later [of config clock "fst st" "snd st" w1] wait_clock [OF stuck(1)] inv by simp
    from dispatch_events_cases [OF cfg this, of handled] stuck(2) have "loop_inv config clock (rt1, w2)" by simp
    with no_accepts_forever [OF cfg] stuck(3) show False by blast
  qed
  with round_step_cases [OF cfg inv] show ?thesis by blast
qed

end

section \<open>Invariant of the reachable states\<close>

lemma loop_inv_started:
  "config_ok pton config \<Longrightarrow> loop_inv config clock (proxy_started (runtime_new config), w)"
  using loop_inv_new [of pton config clock w] by (simp add: proxy_started_def)

lemma loop_reaches_inv:
  assumes "loop_os os received sent clock pending" and "config_ok pton config"
    and "loop_reaches os pton config w0 st"
  shows "loop_inv config clock st"
  using assms(3) unfolding loop_reaches_def
proof (induction rule: rtranclp_induct)
  case base
  show ?case by (rule loop_inv_started [OF assms(2)])
next
  case (step s s')
  from loop_os.round_step_cases [OF assms(1,2) step.IH] step.hyps(2) show ?case by (auto simp: next_round_def)
qed

lemma loop_reaches_table:
  assumes "loop_os os received sent clock pending" and "config_ok pton config"
    and "loop_reaches os pton config w0 (rt, w)"
  shows "runtime_inv config (relay_timely (clock w)) rt" and "table_inv config rt"
  using loop_reaches_inv [OF assms] by (simp_all add: loop_inv_def runtime_inv_def)

section \<open>Shutting down\<close>

lemma shutdown_all_ok:
  assumes "table_inv config rt"
  shows "\<exists>rt' w'. shutdown_all os now rt w = Some (rt', w') \<and> table_inv config rt' \<and> rt_connections rt' = [] \<and>
    rt_next_connection_id rt' = rt_next_connection_id rt"
proof -
  let ?I = "\<lambda>(rt', _). table_inv config rt' \<and> rt_next_connection_id rt' = rt_next_connection_id rt"
  let ?Q = "\<lambda>(rt', _). table_inv config rt' \<and> rt_connections rt' = [] \<and> rt_next_connection_id rt' = rt_next_connection_id rt"
  have "\<exists>r. run_loop (shutdown_step os now) (rt, w) = Some r \<and> ?Q r"
  proof (rule run_loop_total [where I = ?I and m = "\<lambda>(rt, _). length (rt_connections rt)"])
    fix st :: "runtime \<times> 'a"
    assume I: "?I st"
    obtain rt1 w1 where st: "st = (rt1, w1)" by fastforce
    show "loop_ok ?I (\<lambda>(rt, _). length (rt_connections rt)) ?Q st (shutdown_step os now st)"
    proof (cases "rt_connections rt1")
      case Nil
      with I st show ?thesis by (simp add: shutdown_step_def)
    next
      case (Cons x xs)
      obtain cid c where x: "x = (cid, c)" by fastforce
      have find: "find_connection rt1 cid = Some c" using Cons x by (simp add: find_connection_def)
      have t: "table_inv config rt1" using I st by simp
      obtain rt2 w2 where close: "close_connection os cid FullyClosed ''proxy_shutdown'' now rt1 w1 = (rt2, w2)"
        by fastforce
      note ok = close_connection_ok [OF t find close]
      have "length (rt_connections rt1) = Suc (length (rt_connections rt2))"
        using length_erase [of "rt_connections rt1" cid c] t ok(2) Cons x
        by (simp add: table_inv_def closed_from_def)
      with I st Cons x close ok show ?thesis by (simp add: shutdown_step_def closed_from_def)
    qed
  qed (use assms in simp)
  then show ?thesis by (auto simp: shutdown_all_def)
qed

lemma no_connections:
  assumes "table_inv config rt" and "rt_connections rt = []"
  shows "rt_bindings rt = []" and "of_nat (rt_next_connection_id rt - 1) = closes rt"
  using assms by (simp_all add: table_inv_def token_pairs_def)

end
