(* ===== verification/Proxy_Descriptors.thy ===== *)
theory Proxy_Descriptors
  imports Proxy_World
begin

text \<open>
  The descriptors of the event loop. Every connection owns the two sockets it was made with, and
  the loop opens and closes nothing else but the metrics file, so between two steps the open
  descriptors are those the loop started with and those of the connections in the table.
\<close>

section \<open>Accounting\<close>

definition wire :: "nat \<times> connection \<Rightarrow> nat \<times> nat \<times> int \<times> int" where
  "wire = (\<lambda>(k, c). (k, cn_id c, cn_client_fd c, cn_upstream_fd c))"

definition wires :: "runtime \<Rightarrow> (nat \<times> nat \<times> int \<times> int) list" where
  "wires rt = map wire (rt_connections rt)"

definition wire_fds :: "(nat \<times> nat \<times> int \<times> int) list \<Rightarrow> int list" where
  "wire_fds ws = concat (map (\<lambda>(_, _, a, b). [a, b]) ws)"

definition accounted :: "int set \<Rightarrow> nat \<Rightarrow> (nat \<times> nat \<times> int \<times> int) list \<Rightarrow> int set \<Rightarrow> bool" where
  "accounted base next_id ws fds \<longleftrightarrow> distinct (map fst ws) \<and> (\<forall>(k, i, _) \<in> set ws. i = k \<and> k < next_id) \<and>
     distinct (wire_fds ws) \<and> set (wire_fds ws) \<inter> base = {} \<and> fds = base \<union> set (wire_fds ws)"

lemma wire_fds_simps [simp]:
  "wire_fds [] = []" "wire_fds (x # ws) = (case x of (_, _, a, b) \<Rightarrow> [a, b]) @ wire_fds ws"
  "wire_fds (us @ ws) = wire_fds us @ wire_fds ws"
  by (simp_all add: wire_fds_def)

lemma accounted_close:
  assumes "accounted base n ws fds" and "(k, i, a, b) \<in> set ws"
  shows "accounted base n (filter (\<lambda>x. fst x \<noteq> k) ws) (fds - {b} - {a})"
proof -
  obtain us vs where ws: "ws = us @ (k, i, a, b) # vs" using assms(2) by (metis split_list)
  then have "k \<notin> fst ` set us" "k \<notin> fst ` set vs" using assms(1) by (auto simp: accounted_def)
  then have "filter (\<lambda>x. fst x \<noteq> k) us = us" "filter (\<lambda>x. fst x \<noteq> k) vs = vs"
    by (auto intro!: filter_True)
  then have "filter (\<lambda>x. fst x \<noteq> k) ws = us @ vs" by (simp add: ws)
  with assms(1) show ?thesis by (auto simp: accounted_def ws)
qed

lemma accounted_install:
  assumes "accounted base n ws fds" and "a \<notin> fds" and "b \<notin> insert a fds"
  shows "accounted base (n + 1) (ws @ [(n, n, a, b)]) (insert b (insert a fds))"
  using assms by (auto simp: accounted_def less_Suc_eq)

lemma wires_find:
  assumes "find_connection rt cid = Some c"
  shows "(cid, cn_id c, cn_client_fd c, cn_upstream_fd c) \<in> set (wires rt)"
  using map_of_SomeD [OF assms [unfolded find_connection_def]] by (force simp: wires_def wire_def)

lemma wires_put:
  assumes "distinct (map fst (wires rt))" and "find_connection rt cid = Some c" and "wire (cid, c') = wire (cid, c)"
  shows "wires (put_connection rt cid c') = wires rt"
proof -
  have d: "distinct (map fst (rt_connections rt))"
    using assms(1) by (simp add: wires_def wire_def comp_def case_prod_unfold)
  have "wire (k, if k = cid then c' else v) = wire (k, v)" if "(k, v) \<in> set (rt_connections rt)" for k v
    using that assms(2,3) map_of_is_SomeI [OF d] by (auto simp: find_connection_def)
  then show ?thesis by (auto simp: wires_def put_connection_def)
qed

lemma wires_frame [simp]:
  "wires (log_event rt a b d e) = wires rt" "wires (rt\<lparr>rt_timers := q\<rparr>) = wires rt"
  "wires (rt\<lparr>rt_last_armed_deadline := t\<rparr>) = wires rt"
  by (simp_all add: wires_def)

lemma announced:
  "rt_connections (announce_connection cid faults connecting now r rt) = rt_connections rt"
  "rt_next_connection_id (announce_connection cid faults connecting now r rt) = rt_next_connection_id rt"
  by (simp_all add: announce_connection_def Let_def)

definition opens :: "('w \<Rightarrow> int set) \<Rightarrow> int \<Rightarrow> 'w \<Rightarrow> 'w \<Rightarrow> bool" where
  "opens opened fd w w' \<longleftrightarrow> (if fd < 0 then opened w' = opened w else fd \<notin> opened w \<and> opened w' = insert fd (opened w))"

definition keeps_fds :: "('w \<Rightarrow> int set) \<Rightarrow> 'w \<Rightarrow> 'w \<Rightarrow> bool" where
  "keeps_fds opened w w' \<longleftrightarrow> opened w' = opened w"

section \<open>Handlers\<close>

text \<open>
  The calls as documented: accepting, making a socket and opening a file return a descriptor that
  was not open or fail, \<^verbatim>\<open>close\<close> removes one, and no other call opens or closes any.
\<close>

locale fd_calls =
  fixes os :: "'w os" and opened :: "'w \<Rightarrow> int set"
  assumes receive_fds: "io_receive (os_io os) fd buffer w = Some (res, buffer', w') \<Longrightarrow> opened w' = opened w"
    and send_fds: "io_send (os_io os) fd data w = Some (res', w') \<Longrightarrow> opened w' = opened w"
    and shutdown_fds: "io_shutdown_write (os_io os) fd w = (ok, w') \<Longrightarrow> opened w' = opened w"
    and now_fds: "os_now os w = (t, w') \<Longrightarrow> opened w' = opened w"
    and accept_fds: "os_accept os w = ((fd, e), w') \<Longrightarrow> opens opened fd w w'"
    and socket_fds: "os_socket os w = ((fd, e), w') \<Longrightarrow> opens opened fd w w'"
    and open_fds: "os_open os path w = ((fd, e), w') \<Longrightarrow> opens opened fd w w'"
    and close_fds: "opened (os_close os fd w) = opened w - {fd}"
    and sndbuf_fds: "os_set_sndbuf os fd amount w = (result, w') \<Longrightarrow> opened w' = opened w"
    and rcvbuf_fds: "os_set_rcvbuf os fd amount w = (result, w') \<Longrightarrow> opened w' = opened w"
    and connect_fds: "os_connect os fd address w = (result, w') \<Longrightarrow> opened w' = opened w"
    and socket_error_fds: "os_socket_error os fd w = (error, w') \<Longrightarrow> opened w' = opened w"
    and epoll_add_fds: "os_epoll_add os fd events token w = (result, w') \<Longrightarrow> opened w' = opened w"
    and epoll_mod_fds: "os_epoll_mod os fd events token w = (result, w') \<Longrightarrow> opened w' = opened w"
    and epoll_del_fds: "opened (os_epoll_del os fd w) = opened w"
    and timer_set_fds: "os_timer_set os spec w = (result, w') \<Longrightarrow> opened w' = opened w"
    and wait_fds: "os_epoll_wait os w = (batch, w') \<Longrightarrow> opened w' = opened w"
    and read_signal_fds: "os_read_signal os w = (sig, w') \<Longrightarrow> opened w' = opened w"
    and read_timer_fds: "os_read_timer os w = (result, w') \<Longrightarrow> opened w' = opened w"
    and wall_clock_fds: "os_wall_clock os w = (ms, w') \<Longrightarrow> opened w' = opened w"
    and write_fds: "os_write os fd text w = (result, w') \<Longrightarrow> opened w' = opened w"
    and rename_fds: "os_rename os path path' w = (result, w') \<Longrightarrow> opened w' = opened w"

sublocale fd_calls \<subseteq> quiet: io_relation "os_io os" "keeps_fds opened"
  by unfold_locales (auto simp: keeps_fds_def dest: receive_fds send_fds shutdown_fds)

context fd_calls
begin

definition fds_ok :: "int set \<Rightarrow> runtime \<Rightarrow> 'w \<Rightarrow> bool" where
  "fds_ok base rt w \<longleftrightarrow> accounted base (rt_next_connection_id rt) (wires rt) (opened w)"

lemma fds_ok_frame [simp]:
  "fds_ok base (log_event rt a b d e) w = fds_ok base rt w"
  "fds_ok base (rt\<lparr>rt_timers := q\<rparr>) w = fds_ok base rt w"
  "fds_ok base (rt\<lparr>rt_last_armed_deadline := t\<rparr>) w = fds_ok base rt w"
  by (simp_all add: fds_ok_def)

lemma fds_ok_world: "opened w' = opened w \<Longrightarrow> fds_ok base rt w \<Longrightarrow> fds_ok base rt w'"
  by (simp add: fds_ok_def)

lemma put_fds:
  assumes "fds_ok base rt w" and "find_connection rt cid = Some c" and "wire (cid, c') = wire (cid, c)" and "opened w' = opened w"
  shows "fds_ok base (put_connection rt cid c') w'"
proof -
  have "distinct (map fst (wires rt))" using assms(1) by (simp add: fds_ok_def accounted_def)
  with assms show ?thesis by (simp add: fds_ok_def wires_put)
qed

lemma fds_ok_id:
  assumes "fds_ok base rt w" and "find_connection rt cid = Some c"
  shows "cn_id c = cid"
  using assms(1) wires_find [OF assms(2)] by (auto simp: fds_ok_def accounted_def)

lemma close_connection_fds:
  assumes ok: "fds_ok base rt w" and close: "close_connection os cid st detail now rt w = (rt', w')"
  shows "fds_ok base rt' w'"
proof (cases "find_connection rt cid")
  case None
  with assms show ?thesis by (simp add: close_connection_def)
next
  case (Some c)
  have "wires rt' = filter (\<lambda>x. fst x \<noteq> cid) (wires rt)" "rt_next_connection_id rt' = rt_next_connection_id rt"
    using close Some by (auto simp: close_connection_def Let_def wires_def wire_def filter_map comp_def case_prod_unfold)
  moreover have "opened w' = opened w - {cn_upstream_fd c} - {cn_client_fd c}"
    using close Some by (auto simp: close_connection_def Let_def close_fds epoll_del_fds)
  ultimately show ?thesis
    using accounted_close [OF ok [unfolded fds_ok_def] wires_find [OF Some]] by (simp add: fds_ok_def)
qed

lemma apply_interest_fds:
  assumes ok: "fds_ok base rt w" and run: "apply_interest os cid s now rt w = Inr (rt', w')"
  shows "fds_ok base rt' w'"
proof (cases "find_connection rt cid")
  case None
  with assms show ?thesis by (simp add: apply_interest_def)
next
  case (Some c)
  show ?thesis using run Some put_fds [OF ok Some]
    by (auto simp: apply_interest_def modify_epoll_def Let_def wire_def split: prod.splits if_splits dest!: epoll_mod_fds)
qed

lemma refresh_or_close_fds:
  assumes "fds_ok base rt w" and "refresh_or_close os cid now rt w = Inr (rt', w')"
  shows "fds_ok base rt' w'"
proof (cases "find_connection rt cid")
  case None
  with assms show ?thesis by (simp add: refresh_or_close_def)
next
  case (Some c)
  consider "close_connection os cid FullyClosed ''orderly_shutdown'' now rt w = (rt', w')"
    | rt1 w1 where "apply_interest os cid Client now rt w = Inr (rt1, w1)" "apply_interest os cid Upstream now rt1 w1 = Inr (rt', w')"
    using assms(2) Some by (auto simp: refresh_or_close_def bind_sum_Inr split: if_splits)
  then show ?thesis by cases (blast intro: close_connection_fds apply_interest_fds assms(1))+
qed

lemma schedule_relay_wake_fds:
  assumes "fds_ok base rt w"
  shows "fds_ok base (schedule_relay_wake cid now rt) w"
proof (cases "find_connection rt cid")
  case None
  with assms show ?thesis by (simp add: schedule_relay_wake_def)
next
  case (Some c)
  have "fds_ok base (put_connection rt cid (c\<lparr>cn_relay := r\<rparr>)) w"
    "fds_ok base (put_connection rt cid (c\<lparr>cn_relay := r, cn_scheduled_wake := t\<rparr>)) w" for r t
    using put_fds [OF assms Some] by (simp_all add: wire_def)
  with Some show ?thesis
    by (auto simp: schedule_relay_wake_def Let_def split: prod.splits option.splits if_splits)
qed

lemma flush_destinations_fds:
  assumes "fds_ok base rt w" and "flush_destinations os cid now ds rt w = Some (Inr (gone, rt', w'))"
  shows "fds_ok base rt' w'"
  using assms
proof (induction ds arbitrary: rt w)
  case (Cons s ds)
  show ?case
  proof (cases "find_connection rt cid")
    case (Some c)
    then obtain pr r w1 where call: "flush (os_strerror os) (os_io os) s now (cn_relay c) w = Some (Inr (pr, r, w1))"
      using Cons.prems(2) by (auto split: option.splits sum.splits)
    have "fds_ok base (put_connection rt cid (c\<lparr>cn_relay := r\<rparr>)) w1"
      by (rule put_fds [OF Cons.prems(1) Some]) (simp_all add: wire_def quiet.flush_R [OF call, unfolded keeps_fds_def])
    then show ?thesis
      using Cons Some call close_connection_fds by (auto simp: Let_def split: if_splits prod.splits)
  qed (use Cons.prems in simp)
qed simp

lemma pump_connection_fds:
  assumes ok: "fds_ok base rt w" and run: "pump_connection os cid now rt w = Some (Inr (rt', w'))"
  shows "fds_ok base rt' w'"
proof (cases "find_connection rt cid")
  case (Some c)
  then obtain gone rt1 w1 where flushed: "(if r_upstream_connecting (cn_relay c) then Some (Inr (False, rt, w))
      else flush_destinations os cid now [Upstream, Client] rt w) = Some (Inr (gone, rt1, w1))"
    using run unfolding pump_connection_def by (auto split: option.splits sum.splits)
  then have ok1: "fds_ok base rt1 w1"
    using ok by (auto simp del: flush_destinations.simps dest: flush_destinations_fds split: if_splits)
  show ?thesis
  proof (cases "gone \<or> find_connection rt1 cid = None")
    case True
    then have "pump_connection os cid now rt w = Some (Inr (rt1, w1))"
      using Some flushed unfolding pump_connection_def by auto
    with run ok1 show ?thesis by simp
  next
    case False
    then obtain c1 where c1: "find_connection rt1 cid = Some c1" "\<not> gone" by auto
    obtain r w2 where half: "propagate_half_closes (os_io os) (cn_relay c1) w1 = (r, w2)" by fastforce
    have "bind_sum (refresh_or_close os cid now (put_connection rt1 cid (c1\<lparr>cn_relay := r\<rparr>)) w2)
        (\<lambda>(rt, w). Inr (schedule_relay_wake cid now rt, w)) = Inr (rt', w')"
      using run Some flushed c1 half unfolding pump_connection_def
      by (simp only: option.case sum.case prod.case Let_def if_False option.inject)
    moreover have "fds_ok base (put_connection rt1 cid (c1\<lparr>cn_relay := r\<rparr>)) w2"
      by (rule put_fds [OF ok1 c1(1)]) (simp_all add: wire_def quiet.propagate_half_closes_R [OF half, unfolded keeps_fds_def])
    ultimately show ?thesis
      using refresh_or_close_fds schedule_relay_wake_fds by (auto simp: bind_sum_Inr)
  qed
qed (use assms in \<open>simp add: pump_connection_def\<close>)

lemma finish_connect_fds:
  assumes ok: "fds_ok base rt w" and find: "find_connection rt cid = Some c"
    and run: "finish_connect os c s events now rt w = (gone, rt', w')"
  shows "fds_ok base rt' w'"
proof -
  obtain r e errno w1 where call: "os_socket_error os (cn_upstream_fd c) w = ((r, e, errno), w1)" by (metis prod.collapse)
  note same = socket_error_fds [OF call]
  have "fds_ok base (put_connection rt (cn_id c) (c\<lparr>cn_relay := mark_upstream_connected (cn_relay c)\<rparr>)) w1"
    unfolding fds_ok_id [OF ok find] by (rule put_fds [OF ok find]) (simp_all add: wire_def same)
  then show ?thesis using run call ok fds_ok_world [OF same ok] close_connection_fds [of base rt w1]
    by (auto simp: finish_connect_def Let_def split: if_splits prod.splits)
qed

lemma check_socket_error_fds:
  assumes ok: "fds_ok base rt w" and run: "check_socket_error os c s events now rt w = (gone, rt', w')"
  shows "fds_ok base rt' w'"
proof -
  obtain r e errno w1 where call: "os_socket_error os (if s = Client then cn_client_fd c else cn_upstream_fd c) w = ((r, e, errno), w1)"
    by (metis prod.collapse)
  note same = socket_error_fds [OF call]
  show ?thesis using run call ok fds_ok_world [OF same ok] close_connection_fds [of base rt w1]
    by (auto simp: check_socket_error_def Let_def split: if_splits prod.splits)
qed

lemma read_ready_fds:
  assumes ok: "fds_ok base rt w" and find: "find_connection rt cid = Some c"
    and run: "read_ready os c s events now rt w = Some (Inr (gone, rt', w'))"
  shows "fds_ok base rt' w'"
proof -
  have put: "fds_ok base (put_connection rt (cn_id c) (c\<lparr>cn_relay := r\<rparr>)) w1"
    if "handle_readable (os_strerror os) (os_io os) s h now (cn_relay c) w = Some (Inr (pr, r, w1))" for h pr r w1
    unfolding fds_ok_id [OF ok find]
    by (rule put_fds [OF ok find]) (simp_all add: wire_def quiet.handle_readable_R [OF that, unfolded keeps_fds_def])
  show ?thesis using run ok
    by (auto simp: read_ready_def Let_def intro: put split: if_splits option.splits sum.splits prod.splits)
      (blast intro: close_connection_fds put)+
qed

lemma socket_ready_fds:
  assumes ok: "fds_ok base rt w" and run: "socket_ready os token events rt w = Some (Inr (rt', w'))"
  shows "fds_ok base rt' w'"
proof (cases "\<exists>cid s c. map_of (rt_bindings rt) token = Some (cid, s) \<and> find_connection rt cid = Some c")
  case True
  then obtain cid s c where c: "map_of (rt_bindings rt) token = Some (cid, s)" "find_connection rt cid = Some c"
    by blast
  obtain now w0 where now: "os_now os w = (now, w0)" by fastforce
  have ok0: "fds_ok base rt w0" by (rule fds_ok_world [OF now_fds [OF now] ok])
  obtain g1 rt1 w1 where s1: "finish_connect os c s events now rt w0 = (g1, rt1, w1)" by (metis prod.collapse)
  note ok1 = finish_connect_fds [OF ok0 c(2) s1]
  show ?thesis
  proof (cases "g1 \<or> find_connection rt1 cid = None")
    case True
    then have "socket_ready os token events rt w = Some (Inr (rt1, w1))"
      using c now s1 by (auto simp: socket_ready_def)
    with run ok1 show ?thesis by simp
  next
    case False
    then obtain c1 where c1: "find_connection rt1 cid = Some c1" "\<not> g1" by auto
    obtain g2 rt2 w2 where s2: "check_socket_error os c1 s events now rt1 w1 = (g2, rt2, w2)" by (metis prod.collapse)
    note ok2 = check_socket_error_fds [OF ok1 s2]
    show ?thesis
    proof (cases g2)
      case True
      then have "socket_ready os token events rt w = Some (Inr (rt2, w2))"
        using c now s1 c1 s2 by (simp add: socket_ready_def)
      with run ok2 show ?thesis by simp
    next
      case False
      then have same: "rt2 = rt1" using s2 by (auto simp: check_socket_error_def Let_def split: if_splits prod.splits)
      obtain g3 rt3 w3 where s3: "read_ready os c1 s events now rt2 w2 = Some (Inr (g3, rt3, w3))"
        and rest: "if g3 then rt' = rt3 \<and> w' = w3 else pump_connection os cid now rt3 w3 = Some (Inr (rt', w'))"
        using run False c now s1 c1 s2 by (auto simp: socket_ready_def split: option.splits sum.splits if_splits)
      have "fds_ok base rt3 w3" using read_ready_fds [OF ok2 _ s3] c1(1) same by blast
      with rest pump_connection_fds show ?thesis by (auto split: if_splits)
    qed
  qed
next
  case False
  with assms show ?thesis by (auto simp: socket_ready_def split: option.splits)
qed

lemma handle_timer_fds:
  assumes ok: "fds_ok base rt w" and run: "handle_timer os e now rt w = Some (Inr (rt', w'))"
  shows "fds_ok base rt' w'"
proof (cases "find_connection rt (te_connection_id e)")
  case (Some c)
  have put: "fds_ok base (put_connection rt (te_connection_id e) (c\<lparr>cn_scheduled_wake := t\<rparr>)) w" for t
    by (rule put_fds [OF ok Some]) (simp_all add: wire_def)
  consider rt1 where "fds_ok base rt1 w" "pump_connection os (cn_id c) now rt1 w = Some (Inr (rt', w'))"
    | st detail where "close_connection os (cn_id c) st detail now rt w = (rt', w')"
    | "fds_ok base rt' w'"
    using run Some ok put by (cases "te_kind e") (auto simp: handle_timer_def Let_def split: option.splits if_splits)
  then show ?thesis by cases (blast intro: ok pump_connection_fds close_connection_fds)+
qed (use assms in \<open>simp add: handle_timer_def\<close>)

lemma process_due_timers_fds:
  assumes "fds_ok base rt w" and "process_due_timers os now rt w = Some (Inr (n, rt', w'))"
  shows "fds_ok base rt' w'"
proof -
  have step: "fds_ok base rt2 v2" if "fds_ok base rt1 v" "timer_step os now (n, rt1, v) = Some (Again (n', rt2, v2))" for n rt1 v n' rt2 v2
    using that handle_timer_fds [of base "rt1\<lparr>rt_timers := q\<rparr>" v for q]
    by (auto simp: timer_step_def split: option.splits prod.splits sum.splits)
  obtain m rt1 v where "fds_ok base rt1 v" "timer_step os now (m, rt1, v) = Some (Halt (Inr (n, rt', w')))"
    using assms(2) unfolding process_due_timers_def
    by (rule run_loop_invariant [where J = "\<lambda>(_, rt, v). fds_ok base rt v"]) (use assms(1) in \<open>auto intro: step\<close>)
  then show ?thesis by (auto simp: timer_step_def split: option.splits prod.splits sum.splits)
qed

lemma install_connection_fds:
  assumes ok: "accounted base (rt_next_connection_id rt) (wires rt) fds" and new: "a \<notin> fds" "b \<notin> insert a fds"
    and opened: "opened w = insert b (insert a fds)" and run: "install_connection os a b connecting now rt w = Inr (rt', w')"
  shows "fds_ok base rt' w'"
proof -
  let ?n = "rt_next_connection_id rt"
  have quiet: "opened w1 = opened w" if "add_epoll os fd events token w = Inr w1" for fd events token w w1
    using that by (auto simp: add_epoll_def Let_def split: prod.splits if_splits dest: epoll_add_fds)
  have "opened w' = opened w" using run
    by (auto simp: install_connection_def Let_def bind_sum_Inr case_prod_unfold dest!: quiet)
  moreover have "wires rt' = wires rt @ [(?n, ?n, a, b)]" "rt_next_connection_id rt' = ?n + 1"
    using run by (auto simp: install_connection_def Let_def bind_sum_Inr case_prod_unfold announced wires_def wire_def)
  ultimately show ?thesis using accounted_install [OF ok new] opened by (simp add: fds_ok_def)
qed

lemma accept_step_fds:
  assumes ok: "fds_ok base rt w" and run: "accept_step os pton (rt, w) = Some out"
  shows "case out of Again (rt', w') \<Rightarrow> fds_ok base rt' w' | Halt (Inr (rt', w')) \<Rightarrow> fds_ok base rt' w' | Halt (Inl e) \<Rightarrow> True"
proof -
  obtain a e1 w1 where acc: "os_accept os w = ((a, e1), w1)" by (metis prod.collapse)
  obtain b e2 w2 where sock: "os_socket os w1 = ((b, e2), w2)" by (metis prod.collapse)
  obtain rt3 w3 where buf: "apply_socket_buffer_size os b rt w2 = (rt3, w3)" by fastforce
  note A = accept_fds [OF acc, unfolded opens_def] and B = socket_fds [OF sock, unfolded opens_def]
  have C: "opened w3 = opened w2" "wires rt3 = wires rt" "rt_next_connection_id rt3 = rt_next_connection_id rt"
    using buf by (auto simp: apply_socket_buffer_size_def Let_def split: if_splits prod.splits dest!: sndbuf_fds rcvbuf_fds)
  show ?thesis
  proof (cases "a < 0 \<or> length (rt_connections rt) \<ge> pc_max_connections (rt_config rt) \<or> b < 0")
    case True
    have closed: "opened (os_close os a w1) = opened w" if "\<not> a < 0" using A that by (simp add: close_fds)
    have closed2: "opened (os_close os a w2) = opened w" if "\<not> a < 0" "b < 0" using A B that by (simp add: close_fds)
    show ?thesis using run True acc sock A ok closed closed2
      by (auto simp: accept_step_def Let_def fds_ok_def split: if_splits)
  next
    case False
    then have new: "a \<notin> opened w" "b \<notin> insert a (opened w)" "opened w3 = insert b (insert a (opened w))"
      using A B C by auto
    show ?thesis
    proof (cases "ep_to_sockaddr pton (pc_upstream (rt_config rt3))")
      case (Inl e)
      with run False acc sock buf show ?thesis by (auto simp: accept_step_def Let_def)
    next
      case (Inr address)
      obtain r e4 w4 where conn: "os_connect os b address w3 = ((r, e4), w4)" by (metis prod.collapse)
      obtain now w5 where now: "os_now os w4 = (now, w5)" by fastforce
      have D: "opened w4 = insert b (insert a (opened w))" "opened w5 = insert b (insert a (opened w))"
        using connect_fds [OF conn] now_fds [OF now] new(3) by simp_all
      have "opened (os_close os a (os_close os b w4)) = opened w" using D(1) new by (auto simp: close_fds)
      moreover have "accounted base (rt_next_connection_id rt3) (wires rt3) (opened w)"
        using ok C by (simp add: fds_ok_def)
      note installed = install_connection_fds [OF this new(1,2) D(2)]
      ultimately show ?thesis using run False acc sock buf Inr conn now ok C
        by (auto simp: accept_step_def Let_def fds_ok_def split: if_splits sum.splits)
    qed
  qed
qed

lemma accept_ready_fds:
  assumes "fds_ok base rt w" and "accept_ready os pton rt w = Some (Inr (rt', w'))"
  shows "fds_ok base rt' w'"
proof -
  obtain rt1 v where "fds_ok base rt1 v" "accept_step os pton (rt1, v) = Some (Halt (Inr (rt', w')))"
    using assms(2) unfolding accept_ready_def
    by (rule run_loop_invariant [where J = "\<lambda>(rt, v). fds_ok base rt v"])
      (use assms(1) in \<open>auto dest: accept_step_fds\<close>)
  then show ?thesis using accept_step_fds by fastforce
qed

lemma metrics_write_fds:
  assumes "run_loop (metrics_write_step os fd json) (0, w) = Some (res, w')"
  shows "opened w' = opened w"
proof -
  obtain n v where "opened v = opened w" "metrics_write_step os fd json (n, v) = Some (Halt (res, w'))"
    using assms by (rule run_loop_invariant [where J = "\<lambda>(_, v). opened v = opened w"])
      (auto simp: metrics_write_step_def Let_def dest: write_fds split: if_splits prod.splits)
  then show ?thesis by (auto simp: metrics_write_step_def Let_def dest: write_fds split: if_splits prod.splits)
qed

lemma write_metrics_file_fds:
  assumes ok: "fds_ok base rt w" and run: "write_metrics_file os rt w = Some (rt', w')"
  shows "fds_ok base rt' w' \<and> rt_connections rt' = rt_connections rt"
proof (cases "pc_metrics_file (rt_config rt) = []")
  case False
  let ?path = "pc_metrics_file (rt_config rt)"
  obtain json w1 where doc: "build_metrics_json os rt w = (json, w1)" by fastforce
  have same1: "opened w1 = opened w"
    using doc by (auto simp: build_metrics_json_def Let_def split: prod.splits dest!: now_fds wall_clock_fds)
  obtain fd e w2 where opn: "os_open os (?path @ ''.tmp'') w1 = ((fd, e), w2)" by (metis prod.collapse)
  note O = open_fds [OF opn, unfolded opens_def same1]
  show ?thesis
  proof (cases "fd < 0")
    case True
    with run False doc opn O ok show ?thesis by (auto simp: write_metrics_file_def Let_def fds_ok_def)
  next
    case good: False
    then obtain res w3 where loop: "run_loop (metrics_write_step os fd (json @ [CHR 0x0A])) (0, w2) = Some (res, w3)"
      using run False doc opn by (auto simp: write_metrics_file_def Let_def split: option.splits)
    have closed: "opened (os_close os fd w3) = opened w"
      using O good metrics_write_fds [OF loop] by (auto simp: close_fds)
    show ?thesis
      using run False doc opn good loop closed ok rename_fds
      by (auto simp: write_metrics_file_def Let_def fds_ok_def split: option.splits prod.splits if_splits)
  qed
qed (use assms in \<open>simp add: write_metrics_file_def\<close>)

lemma emit_metrics_snapshot_fds:
  assumes "fds_ok base rt w" and "emit_metrics_snapshot os rt w = (rt', w')"
  shows "fds_ok base rt' w'"
proof -
  have logs: "fds_ok base (foldl (\<lambda>rt (cid, c). log_event rt (f cid c) cid (g cid c) (h cid c)) rt0 cs) w = fds_ok base rt0 w"
    for f g h rt0 w and cs :: "(nat \<times> connection) list"
    by (induction cs arbitrary: rt0) (simp_all add: case_prod_unfold)
  obtain now w1 where now: "os_now os w = (now, w1)" by fastforce
  show ?thesis using assms now fds_ok_world [OF now_fds [OF now] assms(1)] by (auto simp: emit_metrics_snapshot_def Let_def logs)
qed

lemma quiet_loop:
  assumes "run_loop f s = Some r" and "opened (view s) = opened w"
    and "\<And>s s'. f s = Some (Again s') \<Longrightarrow> opened (view s') = opened (view s)"
    and "\<And>s r. f s = Some (Halt r) \<Longrightarrow> opened (result r) = opened (view s)"
  shows "opened (result r) = opened w"
proof -
  obtain s' where "opened (view s') = opened w" "f s' = Some (Halt r)"
    using assms(1) by (rule run_loop_invariant [where J = "\<lambda>s. opened (view s) = opened w"]) (use assms(2,3) in auto)
  with assms(4) show ?thesis by simp
qed

lemma signal_ready_fds:
  assumes ok: "fds_ok base rt w" and run: "signal_ready os rt w = Some (stopping, rt', w')"
  shows "fds_ok base rt' w'"
proof -
  obtain bytes errno signo w1 where loop: "run_loop (signal_read_step os) w = Some ((bytes, errno, signo), w1)"
    using run by (auto simp: signal_ready_def split: option.splits)
  have "opened w1 = opened w"
    using quiet_loop [where view = "\<lambda>s. s" and result = snd, OF loop refl]
    by (fastforce simp: signal_read_step_def Let_def dest: read_signal_fds split: prod.splits if_splits)
  then have ok1: "fds_ok base rt w1" using ok by (rule fds_ok_world)
  obtain rt2 w2 where snap: "emit_metrics_snapshot os rt w1 = (rt2, w2)" by fastforce
  note ok2 = emit_metrics_snapshot_fds [OF ok1 snap]
  show ?thesis using run loop snap ok1 write_metrics_file_fds [OF ok2]
    by (auto simp: signal_ready_def split: if_splits)
qed

lemma timer_ready_fds:
  assumes ok: "fds_ok base rt w" and run: "timer_ready os rt w = Some (Inr (rt', w'))"
  shows "fds_ok base rt' w'"
proof -
  obtain w1 where loop: "run_loop (drain_step os) w = Some w1"
    using run by (auto simp: timer_ready_def drain_timer_fd_def split: option.splits)
  have "opened w1 = opened w"
    by (rule quiet_loop [where view = "\<lambda>s. s" and result = "\<lambda>s. s", OF loop refl])
      (auto simp: drain_step_def Let_def dest: read_timer_fds split: prod.splits if_splits)
  moreover obtain now w2 where now: "os_now os w1 = (now, w2)" by fastforce
  ultimately have "opened w2 = opened w" using now_fds [OF now] by simp
  then have "fds_ok base rt w2" using ok by (rule fds_ok_world)
  then show ?thesis using run loop now process_due_timers_fds
    by (auto simp: timer_ready_def drain_timer_fd_def split: option.splits sum.splits)
qed

lemma arm_timer_fd_fds:
  assumes "fds_ok base rt w" and "arm_timer_fd os rt w = (rt', w')"
  shows "fds_ok base rt' w'"
  using assms unfolding fds_ok_def
  by (auto simp: arm_timer_fd_def Let_def split: if_splits prod.splits option.splits dest!: timer_set_fds now_fds)

lemma dispatch_event_fds:
  assumes ok: "fds_ok base rt w" and run: "dispatch_event os pton event rt w = Some (Inr (stopping, rt', w'))"
  shows "fds_ok base rt' w'"
proof -
  obtain token mask where event: "event = (token, mask)" by fastforce
  have inr: "z = Inr (rt', w')" if "map_sum (\<lambda>e. e) (Pair False) z = Inr (stopping, rt', w')"
    for z :: "exn + runtime \<times> 'w"
    using that by (cases z) auto
  consider "accept_ready os pton rt w = Some (Inr (rt', w'))" | "signal_ready os rt w = Some (stopping, rt', w')"
    | "timer_ready os rt w = Some (Inr (rt', w'))" | "socket_ready os token mask rt w = Some (Inr (rt', w'))"
    using run unfolding dispatch_event_def event Let_def prod.case by (auto split: if_splits dest!: inr)
  then show ?thesis by cases (blast intro: ok accept_ready_fds signal_ready_fds timer_ready_fds socket_ready_fds)+
qed

lemma dispatch_events_fds:
  assumes "fds_ok base rt w" and "dispatch_events os pton events rt w = Some (Inr (stopping, rt', w'))"
  shows "fds_ok base rt' w'"
  using assms
proof (induction events arbitrary: rt w)
  case (Cons event events)
  then obtain stop rt1 w1 where first: "dispatch_event os pton event rt w = Some (Inr (stop, rt1, w1))"
    by (auto split: option.splits sum.splits)
  with Cons dispatch_event_fds [OF Cons.prems(1) first] show ?case by (auto split: if_splits)
qed simp

lemma round_step_fds:
  assumes ok: "fds_ok base rt w" and run: "round_step os pton (rt, w) = Some out"
  shows "case out of Again (rt', w') \<Rightarrow> fds_ok base rt' w' | Halt (Inr (rt', w')) \<Rightarrow> fds_ok base rt' w' | Halt (Inl e) \<Rightarrow> True"
proof -
  obtain count errno events w1 where wait: "os_epoll_wait os w = ((count, errno, events), w1)" by (metis prod.collapse)
  have ok1: "fds_ok base rt w1" by (rule fds_ok_world [OF wait_fds [OF wait] ok])
  show ?thesis
  proof (cases "count < 0")
    case True
    with run wait ok1 show ?thesis by (auto simp: round_step_def Let_def split: if_splits)
  next
    case False
    show ?thesis
    proof (cases "dispatch_events os pton (take (nat count) events) rt w1")
      case (Some res)
      show ?thesis
      proof (cases res)
        case (Inl e)
        with run wait False Some show ?thesis by (auto simp: round_step_def Let_def)
      next
        case (Inr st)
        obtain stopping rt2 w2 where st: "st = (stopping, rt2, w2)" by (metis prod.collapse)
        obtain rt3 w3 where arm: "arm_timer_fd os rt2 w2 = (rt3, w3)" by fastforce
        have "fds_ok base rt3 w3"
          using dispatch_events_fds [OF ok1] Some Inr st arm arm_timer_fd_fds by blast
        with run wait False Some Inr st arm show ?thesis by (auto simp: round_step_def Let_def split: if_splits)
      qed
    qed (use run wait False in \<open>auto simp: round_step_def Let_def\<close>)
  qed
qed

lemma stop_runtime_fds:
  assumes ok: "fds_ok base rt w" and run: "stop_runtime os rt w = Some (status, rt', w')"
  shows "opened w' = base \<and> rt_connections rt' = []"
proof -
  obtain now w1 where now: "os_now os w = (now, w1)" by fastforce
  obtain rt2 w2 where all: "run_loop (shutdown_step os now) (rt, w1) = Some (rt2, w2)"
    and rest: "write_metrics_file os rt2 w2 = Some (rt3, w') \<Longrightarrow> rt_connections rt' = rt_connections rt3"
      "\<exists>rt3. write_metrics_file os rt2 w2 = Some (rt3, w')" for rt3
    using run now by (auto simp: stop_runtime_def shutdown_all_def split: option.splits)
  have step: "fds_ok base q' v'" if "fds_ok base q v" "shutdown_step os now (q, v) = Some (Again (q', v'))" for q v q' v'
    using that close_connection_fds by (auto simp: shutdown_step_def split: list.splits)
  have "fds_ok base rt w1" by (rule fds_ok_world [OF now_fds [OF now] ok])
  then obtain q v where "fds_ok base q v" "shutdown_step os now (q, v) = Some (Halt (rt2, w2))"
    using all by - (rule run_loop_invariant [where J = "\<lambda>(rt, v). fds_ok base rt v"], auto intro: step)
  then have ok2: "fds_ok base rt2 w2" "rt_connections rt2 = []" by (auto simp: shutdown_step_def split: list.splits)
  then obtain rt3 where "write_metrics_file os rt2 w2 = Some (rt3, w')" using rest(2) by blast
  with write_metrics_file_fds [OF ok2(1) this] rest(1) ok2(2) show ?thesis
    by (auto simp: fds_ok_def accounted_def wires_def)
qed

lemma loop_fds:
  assumes "(next_round os pton)\<^sup>*\<^sup>* (rt0, w0) st" and "fds_ok base rt0 w0"
  shows "case st of (rt, w) \<Rightarrow> fds_ok base rt w"
  using assms
proof (induction rule: rtranclp_induct)
  case (step s s')
  then show ?case
    using round_step_fds [of base "fst s" "snd s"] by (fastforce simp: next_round_def)
qed simp

lemma fds_ok_new: "fds_ok (opened w) (proxy_started (runtime_new config)) w"
  by (simp add: proxy_started_def) (simp add: fds_ok_def accounted_def runtime_new_def wires_def)

end

end
