(* ===== verification/Proxy_Timers.thy ===== *)
theory Proxy_Timers
  imports Proxy_Loop
begin

text \<open>
  The kernel timer behind the queue of timers. The loop writes the earliest deadline to its timer
  descriptor at the end of a round, but only if it differs from the one it wrote last; reading an
  expiration makes it forget what it wrote. The invariant is that the deadline it remembers is the
  one the timer is armed with.
\<close>

section \<open>The remembered deadline\<close>

text \<open>Only arming the timer and processing expirations change what the loop remembers.\<close>

named_theorems last_armed

lemma last_armed_frame [simp]:
  "rt_last_armed_deadline (log_event rt a k b d) = rt_last_armed_deadline rt"
  "rt_last_armed_deadline (put_connection rt cid c) = rt_last_armed_deadline rt"
  "rt_last_armed_deadline (count_close rt st) = rt_last_armed_deadline rt"
  by (simp_all add: log_event_def put_connection_def count_close_def split: connection_state.split)

lemma close_connection_last [last_armed]:
  "close_connection os cid st detail now rt w = (rt', w') \<Longrightarrow> rt_last_armed_deadline rt' = rt_last_armed_deadline rt"
  by (auto simp: close_connection_def Let_def split: option.splits)

lemma apply_interest_last [last_armed]:
  "apply_interest os cid s now rt w = Inr (rt', w') \<Longrightarrow> rt_last_armed_deadline rt' = rt_last_armed_deadline rt"
  by (auto simp: apply_interest_def Let_def split: option.splits if_splits sum.splits prod.splits)

lemma refresh_or_close_last [last_armed]:
  "refresh_or_close os cid now rt w = Inr (rt', w') \<Longrightarrow> rt_last_armed_deadline rt' = rt_last_armed_deadline rt"
  by (auto simp: refresh_or_close_def bind_sum_Inr split: option.splits if_splits dest!: last_armed)

lemma schedule_relay_wake_last [simp]:
  "rt_last_armed_deadline (schedule_relay_wake cid now rt) = rt_last_armed_deadline rt"
  by (auto simp: schedule_relay_wake_def Let_def split: option.split prod.split)

lemma flush_destinations_last [last_armed]:
  "flush_destinations os cid now ds rt w = Some (Inr (gone, rt', w')) \<Longrightarrow>
   rt_last_armed_deadline rt' = rt_last_armed_deadline rt"
proof (induction ds arbitrary: rt w)
  case (Cons s ds)
  from Cons.prems show ?case
    by (auto simp: Let_def split: option.splits sum.splits prod.splits if_splits dest!: Cons.IH last_armed)
qed simp

lemma pump_connection_last [last_armed]:
  assumes "pump_connection os cid now rt w = Some (Inr (rt', w'))"
  shows "rt_last_armed_deadline rt' = rt_last_armed_deadline rt"
  using assms unfolding pump_connection_def
  by (auto simp: Let_def bind_sum_Inr simp del: flush_destinations.simps
      split: option.splits sum.splits prod.splits if_splits dest!: last_armed)

lemma finish_connect_last [last_armed]:
  "finish_connect os c s events now rt w = (gone, rt', w') \<Longrightarrow> rt_last_armed_deadline rt' = rt_last_armed_deadline rt"
  by (auto simp: finish_connect_def Let_def split: if_splits prod.splits dest!: last_armed)

lemma check_socket_error_last [last_armed]:
  "check_socket_error os c s events now rt w = (gone, rt', w') \<Longrightarrow> rt_last_armed_deadline rt' = rt_last_armed_deadline rt"
  by (auto simp: check_socket_error_def Let_def split: if_splits prod.splits dest!: last_armed)

lemma read_ready_last [last_armed]:
  "read_ready os c s events now rt w = Some (Inr (gone, rt', w')) \<Longrightarrow> rt_last_armed_deadline rt' = rt_last_armed_deadline rt"
  by (auto simp: read_ready_def Let_def split: if_splits option.splits sum.splits prod.splits dest!: last_armed)

lemma socket_ready_last [last_armed]:
  "socket_ready os token events rt w = Some (Inr (rt', w')) \<Longrightarrow> rt_last_armed_deadline rt' = rt_last_armed_deadline rt"
  by (auto simp: socket_ready_def Let_def split: if_splits option.splits sum.splits prod.splits dest!: last_armed)

lemma handle_timer_last [last_armed]:
  "handle_timer os e now rt w = Some (Inr (rt', w')) \<Longrightarrow> rt_last_armed_deadline rt' = rt_last_armed_deadline rt"
  by (auto simp: handle_timer_def Let_def split: option.splits timer_kind.splits if_splits dest!: last_armed)

lemma process_due_timers_last:
  assumes "process_due_timers os now rt w = Some (Inr (n, rt', w'))"
  shows "rt_last_armed_deadline rt' = None"
proof -
  obtain m rt1 v where "rt_last_armed_deadline rt1 = None" "timer_step os now (m, rt1, v) = Some (Halt (Inr (n, rt', w')))"
    using assms unfolding process_due_timers_def
    by (rule run_loop_invariant [where J = "\<lambda>(_, rt, _). rt_last_armed_deadline rt = None"])
      (auto simp: timer_step_def split: option.splits prod.splits sum.splits dest!: last_armed)
  then show ?thesis by (auto simp: timer_step_def split: option.splits prod.splits sum.splits)
qed

lemma install_connection_last [last_armed]:
  "install_connection os a b connecting now rt w = Inr (rt', w') \<Longrightarrow> rt_last_armed_deadline rt' = rt_last_armed_deadline rt"
  by (auto simp: install_connection_def announce_connection_def Let_def bind_sum_Inr case_prod_unfold)

lemma foldl_last:
  "(\<And>rt x. rt_last_armed_deadline (f rt x) = rt_last_armed_deadline rt) \<Longrightarrow>
   rt_last_armed_deadline (foldl f rt xs) = rt_last_armed_deadline rt"
  by (induction xs arbitrary: rt) auto

lemma emit_metrics_snapshot_last [last_armed]:
  "emit_metrics_snapshot os rt w = (rt', w') \<Longrightarrow> rt_last_armed_deadline rt' = rt_last_armed_deadline rt"
  by (auto simp: emit_metrics_snapshot_def Let_def foldl_last case_prod_unfold)

lemma write_metrics_file_last [last_armed]:
  "write_metrics_file os rt w = Some (rt', w') \<Longrightarrow> rt_last_armed_deadline rt' = rt_last_armed_deadline rt"
  by (auto simp: write_metrics_file_def Let_def split: if_splits option.splits prod.splits)

section \<open>The calls\<close>

text \<open>
  \<open>armed\<close> is the value of a one-shot timer whose expiration is still to be read: \<^verbatim>\<open>timerfd_settime\<close>
  sets it unless it fails, reading the descriptor may find it expired, and no other call touches
  it. \<open>refused\<close> counts the failures of \<^verbatim>\<open>timerfd_settime\<close>.
\<close>

definition keeps_timer :: "('w \<Rightarrow> (int \<times> int) option) \<Rightarrow> ('w \<Rightarrow> nat) \<Rightarrow> 'w \<Rightarrow> 'w \<Rightarrow> bool" where
  "keeps_timer armed refused w w' \<longleftrightarrow> armed w' = armed w \<and> refused w' = refused w"

locale timer_calls = os_relation os "keeps_timer armed refused"
  for os :: "'w os" and armed :: "'w \<Rightarrow> (int \<times> int) option" and refused :: "'w \<Rightarrow> nat" +
  assumes timer_set: "os_timer_set os spec w = ((result, errno), w') \<Longrightarrow>
      (if result < 0 then armed w' = armed w \<and> refused w' = refused w + 1 else armed w' = Some spec \<and> refused w' = refused w)"
    and read_timer: "os_read_timer os w = (res, w') \<Longrightarrow> armed w' \<in> {armed w, None} \<and> refused w' = refused w"
    and now_keeps: "os_now os w = (t, w') \<Longrightarrow> keeps_timer armed refused w w'"
    and accept_keeps: "os_accept os w = (res, w') \<Longrightarrow> keeps_timer armed refused w w'"
    and socket_keeps: "os_socket os w = (res, w') \<Longrightarrow> keeps_timer armed refused w w'"
    and sndbuf_keeps: "os_set_sndbuf os fd amount w = (res, w') \<Longrightarrow> keeps_timer armed refused w w'"
    and rcvbuf_keeps: "os_set_rcvbuf os fd amount w = (res, w') \<Longrightarrow> keeps_timer armed refused w w'"
    and connect_keeps: "os_connect os fd address w = (res, w') \<Longrightarrow> keeps_timer armed refused w w'"
    and epoll_add_keeps: "os_epoll_add os fd events token w = (res, w') \<Longrightarrow> keeps_timer armed refused w w'"
    and wait_keeps: "os_epoll_wait os w = (batch, w') \<Longrightarrow> keeps_timer armed refused w w'"
    and read_signal_keeps: "os_read_signal os w = (sig, w') \<Longrightarrow> keeps_timer armed refused w w'"
    and wall_clock_keeps: "os_wall_clock os w = (ms, w') \<Longrightarrow> keeps_timer armed refused w w'"
    and open_keeps: "os_open os path w = (res, w') \<Longrightarrow> keeps_timer armed refused w w'"
    and write_keeps: "os_write os fd data w = (res, w') \<Longrightarrow> keeps_timer armed refused w w'"
    and rename_keeps: "os_rename os path path' w = (res, w') \<Longrightarrow> keeps_timer armed refused w w'"
begin

abbreviation keeps :: "'w \<Rightarrow> 'w \<Rightarrow> bool" where
  "keeps \<equiv> keeps_timer armed refused"

lemma install_connection_keeps:
  assumes "install_connection os a b connecting now rt w = Inr (rt', w')"
  shows "keeps w w'"
proof -
  obtain v m1 t1 m2 t2 where "add_epoll os a m1 t1 w = Inr v" "add_epoll os b m2 t2 v = Inr w'"
    using assms by (auto simp: install_connection_def Let_def bind_sum_Inr case_prod_unfold)
  then have "keeps w v" "keeps v w'"
    using epoll_add_keeps by (auto simp: add_epoll_def Let_def split: prod.splits if_splits)
  then show ?thesis by (rule R_trans)
qed

lemma accept_step_keeps:
  assumes run: "accept_step os pton (rt, w) = Some out" and out: "out = Again (rt', w') \<or> out = Halt (Inr (rt', w'))"
  shows "keeps w w'" and "rt_last_armed_deadline rt' = rt_last_armed_deadline rt"
proof -
  obtain a e1 w1 where acc: "os_accept os w = ((a, e1), w1)" by (metis prod.collapse)
  obtain b e2 w2 where sock: "os_socket os w1 = ((b, e2), w2)" by (metis prod.collapse)
  obtain rt3 w3 where buf: "apply_socket_buffer_size os b rt w2 = (rt3, w3)" by fastforce
  have k1: "keeps w w1" by (rule accept_keeps [OF acc])
  have k2: "keeps w w2" by (rule R_trans [OF k1 socket_keeps [OF sock]])
  have last3: "rt_last_armed_deadline rt3 = rt_last_armed_deadline rt" using buffer_size_log [OF buf] by auto
  have k3: "keeps w w3"
    using buffer_size_log [OF buf] k2 by (auto dest!: sndbuf_keeps rcvbuf_keeps intro: R_trans)
  have closed: "keeps w (os_close os fd v)" if "keeps w v" for fd v by (rule R_trans [OF that R_close])
  have "keeps w w' \<and> rt_last_armed_deadline rt' = rt_last_armed_deadline rt"
  proof (cases "ep_to_sockaddr pton (pc_upstream (rt_config rt3))")
    case (Inl e)
    with run out acc sock buf k1 k2 closed [OF k1] closed [OF k2] show ?thesis
      by (auto simp: accept_step_def Let_def split: if_splits)
  next
    case (Inr address)
    obtain r e4 w4 where conn: "os_connect os b address w3 = ((r, e4), w4)" by (metis prod.collapse)
    obtain now w5 where now: "os_now os w4 = (now, w5)" by fastforce
    have k4: "keeps w w4" by (rule R_trans [OF k3 connect_keeps [OF conn]])
    have k5: "keeps w w5" by (rule R_trans [OF k4 now_keeps [OF now]])
    have inst: "keeps w w6 \<and> rt_last_armed_deadline rt6 = rt_last_armed_deadline rt"
      if "install_connection os a b connecting now rt3 w5 = Inr (rt6, w6)" for connecting rt6 w6
      using install_connection_keeps [OF that] install_connection_last [OF that] R_trans [OF k5] last3 by simp
    with run out acc sock buf Inr conn now k1 closed [OF k1] closed [OF k2] closed [OF closed [OF k4]] last3 show ?thesis
      by (auto simp: accept_step_def Let_def split: if_splits sum.splits)
  qed
  then show "keeps w w'" and "rt_last_armed_deadline rt' = rt_last_armed_deadline rt" by simp_all
qed

lemma accept_ready_keeps:
  assumes "accept_ready os pton rt w = Some (Inr (rt', w'))"
  shows "keeps w w'" and "rt_last_armed_deadline rt' = rt_last_armed_deadline rt"
proof -
  let ?J = "\<lambda>(rt1, v). keeps w v \<and> rt_last_armed_deadline rt1 = rt_last_armed_deadline rt"
  have step: "keeps w v' \<and> rt_last_armed_deadline rt2 = rt_last_armed_deadline rt"
    if "keeps w v" "rt_last_armed_deadline rt1 = rt_last_armed_deadline rt" "accept_step os pton (rt1, v) = Some out"
      "out = Again (rt2, v') \<or> out = Halt (Inr (rt2, v'))" for rt1 v out rt2 v'
    using R_trans [OF that(1) accept_step_keeps(1) [OF that(3,4)]] accept_step_keeps(2) [OF that(3,4)] that(2) by simp
  obtain rt1 v where "?J (rt1, v)" "accept_step os pton (rt1, v) = Some (Halt (Inr (rt', w')))"
    using assms unfolding accept_ready_def
  proof (rule run_loop_invariant [where J = ?J])
    fix s s'
    assume "?J s" and "accept_step os pton s = Some (Again s')"
    then show "?J s'" using step [of "snd s" "fst s" "Again s'" "fst s'" "snd s'"] by (simp add: case_prod_unfold)
  qed (simp, blast)
  with step [of v rt1 _ rt' w'] show "keeps w w'" and "rt_last_armed_deadline rt' = rt_last_armed_deadline rt"
    by simp_all
qed

lemma build_metrics_json_keeps: "build_metrics_json os rt w = (document, w') \<Longrightarrow> keeps w w'"
  by (auto simp: build_metrics_json_def Let_def split: prod.splits dest!: now_keeps wall_clock_keeps intro: R_trans)

lemma metrics_write_keeps:
  assumes "run_loop (metrics_write_step os fd json) (0, w) = Some (e, w')"
  shows "keeps w w'"
proof -
  obtain offset v where "keeps w v" "metrics_write_step os fd json (offset, v) = Some (Halt (e, w'))"
    using assms by (rule run_loop_invariant [where J = "\<lambda>(_, v). keeps w v"])
      (auto simp: metrics_write_step_def Let_def split: if_splits prod.splits dest!: write_keeps intro: R_trans)
  then show ?thesis
    by (auto simp: metrics_write_step_def Let_def split: if_splits prod.splits dest!: write_keeps intro: R_trans)
qed

lemma write_metrics_file_keeps:
  assumes "write_metrics_file os rt w = Some (rt', w')"
  shows "keeps w w'"
proof (cases "pc_metrics_file (rt_config rt) = []")
  case True
  with assms show ?thesis by (simp add: write_metrics_file_def)
next
  case False
  let ?path = "pc_metrics_file (rt_config rt)"
  obtain document w1 where b: "build_metrics_json os rt w = (document, w1)" by fastforce
  obtain fd errno w2 where o: "os_open os (?path @ ''.tmp'') w1 = ((fd, errno), w2)" by (metis prod.collapse)
  have k2: "keeps w w2" by (rule R_trans [OF build_metrics_json_keeps [OF b] open_keeps [OF o]])
  show ?thesis
  proof (cases "fd < 0")
    case True
    with assms False b o k2 show ?thesis by (simp add: write_metrics_file_def Let_def)
  next
    case open_ok: False
    then obtain e w3 where wr: "run_loop (metrics_write_step os fd (document @ [CHR 0x0A])) (0, w2) = Some (e, w3)"
      using assms False b o by (auto simp: write_metrics_file_def Let_def split: option.splits)
    obtain result errno' w5 where rn: "os_rename os (?path @ ''.tmp'') ?path (os_close os fd w3) = ((result, errno'), w5)"
      by (metis prod.collapse)
    have k4: "keeps w (os_close os fd w3)"
      by (rule R_trans [OF R_trans [OF k2 metrics_write_keeps [OF wr]] R_close])
    then have "keeps w w5" by (rule R_trans [OF _ rename_keeps [OF rn]])
    with assms False open_ok b o wr rn k4 show ?thesis
      by (cases e) (auto simp: write_metrics_file_def Let_def split: if_splits)
  qed
qed

lemma signal_ready_keeps:
  assumes "signal_ready os rt w = Some (stop, rt', w')"
  shows "keeps w w'" and "rt_last_armed_deadline rt' = rt_last_armed_deadline rt"
proof -
  obtain n errno signo v where r: "run_loop (signal_read_step os) w = Some ((n, errno, signo), v)"
    using assms unfolding signal_ready_def by (auto split: option.splits)
  then obtain u where "keeps w u" "signal_read_step os u = Some (Halt ((n, errno, signo), v))"
    by (rule run_loop_invariant [where J = "keeps w"])
      (auto simp: signal_read_step_def Let_def split: if_splits prod.splits dest!: read_signal_keeps intro: R_trans)
  then have k: "keeps w v"
    by (auto simp: signal_read_step_def Let_def split: if_splits prod.splits dest!: read_signal_keeps intro: R_trans)
  obtain rt1 w1 where em: "emit_metrics_snapshot os rt v = (rt1, w1)" by fastforce
  have "keeps v w1" using em by (auto simp: emit_metrics_snapshot_def Let_def split: prod.splits dest!: now_keeps)
  with k have k1: "keeps w w1" by (rule R_trans)
  show "keeps w w'" and "rt_last_armed_deadline rt' = rt_last_armed_deadline rt"
    using assms r em k emit_metrics_snapshot_last [OF em] write_metrics_file_last [of os rt1 w1]
      write_metrics_file_keeps [of rt1 w1] R_trans [OF k1]
    by (auto simp: signal_ready_def split: if_splits)
qed

section \<open>Rounds\<close>

definition armed_ok :: "runtime \<Rightarrow> 'w \<Rightarrow> bool" where
  "armed_ok rt w \<longleftrightarrow> (\<forall>d. rt_last_armed_deadline rt = Some d \<longrightarrow> armed w = Some (timer_spec (Some d)))"

lemma armed_ok_kept:
  "armed_ok rt w \<Longrightarrow> keeps w w' \<Longrightarrow> rt_last_armed_deadline rt' = rt_last_armed_deadline rt \<Longrightarrow>
   armed_ok rt' w' \<and> refused w' = refused w"
  by (simp add: armed_ok_def keeps_timer_def)

lemma timer_ready_armed:
  assumes "timer_ready os rt w = Some (Inr (rt', w'))"
  shows "armed_ok rt' w' \<and> refused w' = refused w"
proof -
  obtain v where v: "drain_timer_fd os w = Some v" using assms by (auto simp: timer_ready_def split: option.splits)
  obtain now u where now: "os_now os v = (now, u)" by fastforce
  obtain n rt1 where due: "process_due_timers os now rt u = Some (Inr (n, rt1, w'))"
    and last: "rt_last_armed_deadline rt' = rt_last_armed_deadline rt1"
    using assms v now by (auto simp: timer_ready_def split: option.splits sum.splits)
  obtain u0 where "refused u0 = refused w" "drain_step os u0 = Some (Halt v)"
    using v unfolding drain_timer_fd_def
    by (rule run_loop_invariant [where J = "\<lambda>u. refused u = refused w"])
      (auto simp: drain_step_def Let_def split: if_splits prod.splits dest!: read_timer)
  then have "refused v = refused w" by (auto simp: drain_step_def Let_def split: if_splits prod.splits dest!: read_timer)
  moreover have "keeps v w'" by (rule R_trans [OF now_keeps [OF now] process_due_timers_R [OF due]])
  ultimately show ?thesis
    using last process_due_timers_last [OF due] by (simp add: armed_ok_def keeps_timer_def)
qed

lemma socket_ready_armed:
  assumes "armed_ok rt w" and "socket_ready os token events rt w = Some (Inr (rt', w'))"
  shows "armed_ok rt' w' \<and> refused w' = refused w"
proof -
  obtain now u where now: "os_now os w = (now, u)" by fastforce
  from socket_ready_R [OF assms(2) now] have "keeps w w'" using R_trans [OF now_keeps [OF now]] by auto
  then show ?thesis using armed_ok_kept [OF assms(1)] socket_ready_last [OF assms(2)] by blast
qed

lemma dispatch_event_armed:
  assumes "armed_ok rt w" and "dispatch_event os pton event rt w = Some (Inr (stopping, rt', w'))"
  shows "armed_ok rt' w' \<and> refused w' = refused w"
proof -
  obtain token flags where event: "event = (token, flags)" by fastforce
  have lifted: "x = Some (Inr (rt', w'))"
    if "map_option (map_sum (\<lambda>e. e) (\<lambda>(rt, w). (False, rt, w))) x = Some (Inr (stopping, rt', w'))" for x :: "(exn + runtime \<times> 'w) option"
    using that by (cases x; cases "the x") auto
  consider (accept) "accept_ready os pton rt w = Some (Inr (rt', w'))" | (signal) "signal_ready os rt w = Some (stopping, rt', w')"
    | (timer) "timer_ready os rt w = Some (Inr (rt', w'))" | (socket) "socket_ready os token flags rt w = Some (Inr (rt', w'))"
    using assms(2) lifted unfolding dispatch_event_def event Let_def prod.case by (auto split: if_splits)
  then show ?thesis
  proof cases
    case accept
    then show ?thesis using armed_ok_kept [OF assms(1)] accept_ready_keeps by blast
  next
    case signal
    then show ?thesis using armed_ok_kept [OF assms(1)] signal_ready_keeps by blast
  qed (use timer_ready_armed socket_ready_armed [OF assms(1)] in blast)+
qed

lemma dispatch_events_armed:
  "armed_ok rt w \<Longrightarrow> dispatch_events os pton events rt w = Some (Inr (stopping, rt', w')) \<Longrightarrow>
   armed_ok rt' w' \<and> refused w' = refused w"
proof (induction events arbitrary: rt w)
  case (Cons event events)
  from Cons.prems(2) obtain stop rt1 w1 where one: "dispatch_event os pton event rt w = Some (Inr (stop, rt1, w1))"
    and rest: "if stop then (rt', w') = (rt1, w1) else dispatch_events os pton events rt1 w1 = Some (Inr (stopping, rt', w'))"
    by (auto split: option.splits sum.splits if_splits)
  from dispatch_event_armed [OF Cons.prems(1) one] rest Cons.IH show ?case by (auto split: if_splits)
qed simp

lemma arm_timer_fd_armed:
  assumes ok: "armed_ok rt w" and arm: "arm_timer_fd os rt w = (rt', w')"
  shows "armed_ok rt' w' \<and> rt_timers rt' = rt_timers rt \<and> refused w \<le> refused w' \<and>
    (refused w' = refused w \<longrightarrow> rt_last_armed_deadline rt' = tq_next_deadline (rt_timers rt))"
proof (cases "tq_next_deadline (rt_timers rt) = rt_last_armed_deadline rt")
  case True
  with ok arm show ?thesis by (simp add: arm_timer_fd_def)
next
  case False
  obtain result errno w1 where call: "os_timer_set os (timer_spec (tq_next_deadline (rt_timers rt))) w = ((result, errno), w1)"
    by (metis prod.collapse)
  obtain now w2 where now: "os_now os w1 = (now, w2)" by fastforce
  have k: "armed w2 = armed w1" "refused w2 = refused w1" using now_keeps [OF now] by (simp_all add: keeps_timer_def)
  show ?thesis
    using False ok arm call now timer_set [OF call] k
    by (cases "result < 0"; cases "tq_next_deadline (rt_timers rt)") (auto simp: arm_timer_fd_def armed_ok_def log_event_def)
qed

text \<open>If no \<^verbatim>\<open>timerfd_settime\<close> has failed, the remembered deadline is the earliest one in the queue.\<close>

definition timer_follows :: "'w \<Rightarrow> runtime \<times> 'w \<Rightarrow> bool" where
  "timer_follows w0 = (\<lambda>(rt, w). armed_ok rt w \<and> refused w0 \<le> refused w \<and>
     (refused w = refused w0 \<longrightarrow> rt_last_armed_deadline rt = tq_next_deadline (rt_timers rt)))"

lemma next_round_follows:
  assumes ok: "timer_follows w0 (rt, w)" and run: "next_round os pton (rt, w) (rt', w')"
  shows "timer_follows w0 (rt', w')"
proof -
  obtain count errno events w1 where wait: "os_epoll_wait os w = ((count, errno, events), w1)" by (metis prod.collapse)
  have k: "armed w1 = armed w" "refused w1 = refused w" using wait_keeps [OF wait] by (simp_all add: keeps_timer_def)
  have ok1: "armed_ok rt w1" using ok k by (simp add: timer_follows_def armed_ok_def)
  show ?thesis
  proof (cases "count < 0")
    case True
    with run wait ok k show ?thesis by (auto simp: next_round_def round_step_def timer_follows_def armed_ok_def split: if_splits)
  next
    case False
    then obtain stopping rt2 w2 where events: "dispatch_events os pton (take (nat count) events) rt w1 = Some (Inr (stopping, rt2, w2))"
      and arm: "arm_timer_fd os rt2 w2 = (rt', w')"
      using run wait by (auto simp: next_round_def round_step_def Let_def split: option.splits sum.splits prod.splits if_splits)
    from dispatch_events_armed [OF ok1 events] arm_timer_fd_armed [OF _ arm] ok k show ?thesis
      by (auto simp: timer_follows_def)
  qed
qed

lemma loop_follows:
  assumes "loop_reaches os pton config w0 st"
  shows "timer_follows w0 st"
  using assms unfolding loop_reaches_def
proof (induction rule: rtranclp_induct)
  case base
  show ?case by (simp add: timer_follows_def armed_ok_def proxy_started_def) (simp add: runtime_new_def tq_next_deadline_def tq_new_def)
next
  case (step s s')
  then show ?case using next_round_follows [of w0 "fst s" "snd s" pton "fst s'" "snd s'"] by simp
qed

end

end
