(* ===== verification/Proxy_Theorems.thy ===== *)
theory Proxy_Theorems
  imports Proxy_Loop Proxy_Descriptors Proxy_Timers
begin

text \<open>
  The properties of the proxy's event loop, and a scripted operating system on which they are
  exercised: listening, accepting and signalling follow a script, the sockets are those of the
  scripted kernel behind \<^verbatim>\<open>SystemSocketIo\<close>.
\<close>

section \<open>A scripted operating system\<close>

record loop_script =
  ls_clock :: time
  ls_accepts :: "int list"
  ls_next_fd :: int
  ls_batches :: "(nat \<times> 32 word) list list"
  ls_opened :: "int list"
  ls_armed :: "(int \<times> int) option"

type_synonym loop_world = "script_world \<times> loop_script"

abbreviation loop_kernel :: "loop_world kernel" where
  "loop_kernel \<equiv> scripted_beside"

text \<open>A call that returns a descriptor fails if the script's number for it is open already.\<close>

definition take_fd :: "int \<Rightarrow> loop_world \<Rightarrow> (int \<times> int) \<times> loop_world" where
  "take_fd fd = (\<lambda>(w, l).
     if fd < 0 \<or> fd \<in> set (ls_opened l) then ((- 1, EAGAIN), (w, l)) else ((fd, 0), (w, l\<lparr>ls_opened := fd # ls_opened l\<rparr>)))"

definition example_os :: "loop_world os" where
  "example_os =
     \<lparr>os_io = system_socket_io loop_kernel, os_strerror = (\<lambda>_. []),
      os_now = (\<lambda>(w, l). (ls_clock l, (w, l\<lparr>ls_clock := ls_clock l + 1\<rparr>))),
      os_accept = (\<lambda>(w, l). case ls_accepts l of
         [] \<Rightarrow> ((- 1, EAGAIN), (w, l)) | fd # rest \<Rightarrow> take_fd fd (w, l\<lparr>ls_accepts := rest\<rparr>)),
      os_socket = (\<lambda>(w, l). take_fd (ls_next_fd l) (w, l\<lparr>ls_next_fd := ls_next_fd l + 1\<rparr>)),
      os_set_sndbuf = (\<lambda>_ _ w. ((0, 0), w)), os_set_rcvbuf = (\<lambda>_ _ w. ((0, 0), w)), os_connect = (\<lambda>_ _ w. ((- 1, EINPROGRESS), w)),
      os_socket_error = (\<lambda>_ w. ((0, 0, 0), w)),
      os_epoll_add = (\<lambda>_ _ _ w. ((0, 0), w)), os_epoll_mod = (\<lambda>_ _ _ w. ((0, 0), w)),
      os_epoll_del = (\<lambda>_ w. w), os_close = (\<lambda>fd (w, l). (w, l\<lparr>ls_opened := filter (\<lambda>x. x \<noteq> fd) (ls_opened l)\<rparr>)), 
      os_timer_set = (\<lambda>spec (w, l). ((0, 0), (w, l\<lparr>ls_armed := Some spec\<rparr>))),
      os_epoll_wait = (\<lambda>(w, l). case ls_batches l of
         [] \<Rightarrow> ((1, 0, [(kSignalToken, EPOLLIN)]), (w, l))
       | b # rest \<Rightarrow> ((int (length b), 0, b), (w, l\<lparr>ls_batches := rest\<rparr>))),
      os_read_signal = (\<lambda>w. ((128, 0, 15), w)), os_read_timer = (\<lambda>w. ((8, 0), w)),
      os_wall_clock = (\<lambda>w. (0, w)), os_open = (\<lambda>_. take_fd 7),
      os_write = (\<lambda>_ text w. ((int (length text), 0), w)), os_rename = (\<lambda>_ _ w. ((0, 0), w)),
      os_dropped_events = (\<lambda>_. 0)\<rparr>"

abbreviation loop_received :: "loop_world \<Rightarrow> int \<Rightarrow> byte list" where
  "loop_received w \<equiv> sw_received (fst w)"

abbreviation loop_sent :: "loop_world \<Rightarrow> int \<Rightarrow> byte list" where
  "loop_sent w \<equiv> sw_sent (fst w)"

abbreviation loop_clock :: "loop_world \<Rightarrow> time" where
  "loop_clock w \<equiv> ls_clock (snd w)"

abbreviation loop_pending :: "loop_world \<Rightarrow> nat" where
  "loop_pending w \<equiv> length (ls_accepts (snd w))"

text \<open>Socket calls leave the script of the loop alone.\<close>

lemma system_calls_script:
  "system_receive loop_kernel fd buffer w = Some (res, buffer', w') \<Longrightarrow> snd w' = snd w"
  "system_send loop_kernel fd data w = Some (res', w') \<Longrightarrow> snd w' = snd w"
  "system_shutdown_write loop_kernel fd w = (ok, w') \<Longrightarrow> snd w' = snd w"
proof -
  have recv: "snd u' = snd u" if "k_recv loop_kernel fd buffer u = (r, u')" for r buffer u u'
    using that by (cases u) (auto simp: scripted_beside_def split: prod.splits)
  have send: "snd u' = snd u" if "k_send loop_kernel fd data u = (r, u')" for r u u'
    using that by (cases u) (auto simp: scripted_beside_def split: prod.splits)
  show "snd w' = snd w" if "system_receive loop_kernel fd buffer w = Some (res, buffer', w')"
    using that unfolding system_receive_def
    by (rule run_loop_invariant [where J = "\<lambda>(_, u). snd u = snd w"])
      (auto simp: receive_step_def Let_def split: prod.splits if_splits dest!: recv)
  show "snd w' = snd w" if "system_send loop_kernel fd data w = Some (res', w')"
    using that unfolding system_send_def
    by (rule run_loop_invariant [where J = "\<lambda>u. snd u = snd w"])
      (auto simp: send_step_def Let_def split: prod.splits if_splits dest!: send)
  show "snd w' = snd w" if "system_shutdown_write loop_kernel fd w = (ok, w')"
    using that by (cases w) (auto simp: system_shutdown_write_def scripted_beside_def Let_def split: prod.splits)
qed


lemma example_os_io [simp]: "os_io example_os = system_socket_io loop_kernel"
  by (simp add: example_os_def)

interpretation example_sockets: proxy_os example_os loop_received loop_sent
  unfolding proxy_os_def example_os_io by (rule beside.system_contract)

interpretation example: event_os example_os loop_received loop_sent loop_clock loop_pending
  by unfold_locales
    (auto simp: example_os_def take_fd_def system_socket_io_def calm_def errno_defs split: list.splits prod.splits if_splits
      dest!: system_calls_script)

interpretation example_fds: fd_calls example_os "\<lambda>w. set (ls_opened (snd w))"
  by unfold_locales
    (auto simp: example_os_def take_fd_def opens_def system_socket_io_def split: list.splits prod.splits if_splits
      dest!: system_calls_script)

interpretation example_timer: timer_calls example_os "\<lambda>w. ls_armed (snd w)" "\<lambda>_. 0"
  by unfold_locales
    (auto simp: example_os_def take_fd_def keeps_timer_def system_socket_io_def split: list.splits prod.splits if_splits
      dest!: system_calls_script)

section \<open>Bindings\<close>

lemma binding_iff:
  assumes "table_inv config rt"
  shows "map_of (rt_bindings rt) token = Some (cid, side) \<longleftrightarrow>
    (\<exists>c. find_connection rt cid = Some c \<and>
       token = (if side = Client then cn_client_token c else cn_upstream_token c))"
proof -
  have d: "distinct (map fst (rt_connections rt))" "distinct (map fst (rt_bindings rt))"
    and b: "set (rt_bindings rt) = token_pairs (rt_connections rt)"
    using assms by (simp_all add: table_inv_def)
  have "map_of (rt_bindings rt) token = Some (cid, side) \<longleftrightarrow> (token, cid, side) \<in> token_pairs (rt_connections rt)"
    using d(2) b by (simp add: map_of_eq_Some_iff)
  also have "\<dots> \<longleftrightarrow> (\<exists>c. (cid, c) \<in> set (rt_connections rt) \<and>
       token = (if side = Client then cn_client_token c else cn_upstream_token c))"
    by (cases side) (auto simp: token_pairs_def)
  finally show ?thesis using find_connection_iff [OF d(1), of cid] by simp
qed

section \<open>Example runs\<close>

definition loop_config :: proxy_config where
  "loop_config = proxy_config_default\<lparr>pc_connect_timeout := 5000\<rparr>"

definition loop_world_example :: "int list \<Rightarrow> (nat \<times> 32 word) list list \<Rightarrow> loop_world" where
  "loop_world_example accepts batches =
     (\<lparr>sw_recv_script = [], sw_send_script = [], sw_received = (\<lambda>_. []), sw_sent = (\<lambda>_. []), sw_shutdowns = []\<rparr>,
      \<lparr>ls_clock = 0, ls_accepts = accepts, ls_next_fd = 5, ls_batches = batches, ls_opened = [0, 3], ls_armed = None\<rparr>)"

abbreviation accept_world :: loop_world where
  "accept_world \<equiv> loop_world_example [4] [[(kListenerToken, EPOLLIN)]]"

lemma loop_config_ok: "config_ok pton_example loop_config"
  by (simp add: config_ok_def proxy_new_def loop_config_def proxy_config_default_def fp_validate_def fault_plan_default_def
      s64_add_def ep_is_loopback_def ep_to_sockaddr_def pton_example_def c_str_def)

definition start_runtime :: runtime where
  "start_runtime = proxy_started (runtime_new loop_config)"

lemma example_install:
  "\<exists>rt. install_connection example_os 4 5 True 0 start_runtime w = Inr (rt, w) \<and>
     length (rt_connections rt) = 1 \<and> rt_next_connection_id rt = 2 \<and> rt_last_armed_deadline rt = None \<and> rt_config rt = loop_config \<and>
     tq_heap (rt_timers rt) = [\<lparr>te_deadline = 5000000000, te_sequence = 1, te_connection_id = 1, te_kind = ConnectTimeout\<rparr>]"
proof -
  obtain r where r: "relay_new (relay_config_of loop_config) fault_plan_default 1 4 5 True 0 = Inr r"
    using relay_new_ok [OF config_okD(1) [OF loop_config_ok]] by blast
  obtain ci r1 where i1: "desired_interest r Client 0 = (ci, r1)" by fastforce
  obtain ui r2 where i2: "desired_interest r1 Upstream 0 = (ui, r2)" by fastforce
  have "rt_config start_runtime = loop_config" "rt_next_connection_id start_runtime = 1"
    by (simp_all add: start_runtime_def proxy_started_def runtime_new_def)
  moreover have "\<not> fp_any_enabled (pc_faults loop_config)" "pc_connect_timeout loop_config = 5000" "pc_idle_timeout loop_config = 0"
    by (simp_all add: loop_config_def proxy_config_default_def fault_plan_default_def fp_any_enabled_def)
  ultimately show ?thesis
    unfolding install_connection_def Let_def
    by (simp add: faults_apply_def r i1 i2 bind_sum_def add_epoll_def example_os_def announce_connection_def
        start_runtime_def proxy_started_def runtime_new_def log_event_def tq_schedule_def tq_new_def)
qed

lemma example_accept:
  "\<exists>rt w. loop_reaches example_os pton_example loop_config accept_world (rt, w) \<and> length (rt_connections rt) = 1 \<and>
     rt_next_connection_id rt = 2 \<and> loop_clock w = 2 \<and>
     tq_heap (rt_timers rt) = [\<lparr>te_deadline = 5000000000, te_sequence = 1, te_connection_id = 1, te_kind = ConnectTimeout\<rparr>]"
proof -
  define w5 where "w5 = (fst accept_world, \<lparr>ls_clock = 1, ls_accepts = [], ls_next_fd = 6, ls_batches = [], ls_opened = [5, 4, 0, 3], ls_armed = None\<rparr>)"
  obtain rt where inst: "install_connection example_os 4 5 True 0 start_runtime w5 = Inr (rt, w5)"
      "length (rt_connections rt) = 1" "rt_next_connection_id rt = 2" "rt_last_armed_deadline rt = None" "rt_config rt = loop_config"
      "tq_heap (rt_timers rt) = [\<lparr>te_deadline = 5000000000, te_sequence = 1, te_connection_id = 1, te_kind = ConnectTimeout\<rparr>]"
    using example_install by blast
  let ?w1 = "(fst accept_world, (snd accept_world)\<lparr>ls_batches := []\<rparr>)"
  have cfg: "rt_config start_runtime = loop_config" "rt_connections start_runtime = []"
    "pc_max_connections loop_config = 256" "pc_socket_buffer_bytes loop_config = 0"
    by (simp_all add: start_runtime_def proxy_started_def runtime_new_def loop_config_def proxy_config_default_def)
  obtain address where addr: "ep_to_sockaddr pton_example (pc_upstream loop_config) = Inr address"
    using config_okD(3) [OF loop_config_ok] by blast
  have "accept_step example_os pton_example (start_runtime, ?w1) = Some (Again (rt, w5))"
    using inst(1)
    by (simp add: accept_step_def cfg addr apply_socket_buffer_size_def example_os_def take_fd_def loop_world_example_def w5_def
        errno_defs EINPROGRESS_def)
  moreover have "accept_step example_os pton_example (rt, w5) = Some (Halt (Inr (rt, w5)))"
    by (simp add: accept_step_def example_os_def w5_def)
  ultimately have acc: "accept_ready example_os pton_example start_runtime ?w1 = Some (Inr (rt, w5))"
    by (simp add: accept_ready_def run_loop_Again run_loop_Halt)
  have "\<exists>rt' w'. arm_timer_fd example_os rt w5 = (rt', w') \<and> rt_connections rt' = rt_connections rt \<and>
      rt_next_connection_id rt' = rt_next_connection_id rt \<and> rt_timers rt' = rt_timers rt \<and> loop_clock w' = 2"
    using inst(4,6) by (simp add: arm_timer_fd_def tq_next_deadline_def example_os_def w5_def log_event_def Let_def)
  then obtain rt' w' where arm: "arm_timer_fd example_os rt w5 = (rt', w')" "rt_connections rt' = rt_connections rt"
      "rt_next_connection_id rt' = rt_next_connection_id rt" "rt_timers rt' = rt_timers rt" "loop_clock w' = 2" by blast
  have "os_epoll_wait example_os accept_world = ((1, 0, [(kListenerToken, EPOLLIN)]), ?w1)"
    by (simp add: example_os_def loop_world_example_def)
  then have "round_step example_os pton_example (start_runtime, accept_world) = Some (Again (rt', w'))"
    using acc arm(1) by (simp add: round_step_def dispatch_event_def)
  then have "loop_reaches example_os pton_example loop_config accept_world (rt', w')"
    using loop_reaches_next [OF loop_reaches_start, where s' = "(rt', w')"] by (simp add: next_round_def start_runtime_def)
  with arm inst show ?thesis by metis
qed

text \<open>A connection whose relay waits for its delay line: no flush can send before time 50.\<close>

definition waiting_connection :: connection where
  "waiting_connection = \<lparr>cn_id = 1, cn_client_fd = 4, cn_upstream_fd = 5, cn_client_token = 4, cn_upstream_token = 5,
     cn_client_mask = 0, cn_upstream_mask = 0, cn_scheduled_wake = None, cn_relay = waiting_relay\<rparr>"

definition waiting_runtime :: runtime where
  "waiting_runtime = (runtime_new loop_config)\<lparr>rt_next_connection_id := 2, rt_next_token := 6,
     rt_bindings := [(4, 1, Client), (5, 1, Upstream)], rt_connections := [(1, waiting_connection)]\<rparr>"

lemma waiting_runtime_inv: "runtime_inv loop_config (\<lambda>_. True) waiting_runtime"
proof -
  have "runtime_inv loop_config (\<lambda>_. True) (runtime_new loop_config)"
    using loop_inv_new [OF loop_config_ok, of "\<lambda>_. 0" "()"] by (auto simp: loop_inv_def runtime_inv_def)
  moreover have start: "rt_next_connection_id (runtime_new loop_config) = 1" "rt_next_token (runtime_new loop_config) = 4"
    "rt_connections (runtime_new loop_config) = []" "rt_bindings (runtime_new loop_config) = []"
    "pc_max_connections loop_config = 256"
    by (simp_all add: runtime_new_def loop_config_def proxy_config_default_def)
  moreover have fds: "fd_for waiting_relay Client = 4" "fd_for waiting_relay Upstream = 5"
    by (simp_all add: waiting_relay_def read_relay_def relay_eval)
  ultimately have "runtime_inv loop_config (\<lambda>_. True) ((runtime_new loop_config)\<lparr>rt_next_connection_id := 1 + 1,
      rt_next_token := 4 + 2, rt_bindings := [] @ [(4, 1, Client), (4 + 1, 1, Upstream)],
      rt_connections := [] @ [(1, waiting_connection)]\<rparr>)"
    using insert_connection_inv [of loop_config "\<lambda>_. True" "runtime_new loop_config" waiting_connection] waiting_relay_inv
    by (simp add: waiting_connection_def del: One_nat_def)
  then show ?thesis by (simp add: waiting_runtime_def numeral_2_eq_2)
qed

lemma waiting_flush:
  "flush (os_strerror example_os) (os_io example_os) s 0 waiting_relay w = Some (Inr (pump_continue, waiting_relay, w))"
proof -
  have "flush_step (os_strerror example_os) (os_io example_os) s 0 (waiting_relay, w) = Some (Halt (Inr (None, waiting_relay, w)))"
    by (cases s) (simp_all add: flush_step_def waiting_relay_def read_relay_def relay_eval bq_readable_span_def
        fault_sendable_def tb_available_def tb_refill_def tb_example_def dl_releasable_def Let_def)
  then have "run_loop (flush_step (os_strerror example_os) (os_io example_os) s 0) (waiting_relay, w) = Some (Inr (None, waiting_relay, w))"
    by (rule run_loop_Halt)
  then show ?thesis
    by (cases s) (simp_all add: flush_def check_lifecycle_faults_def, simp_all add: waiting_relay_def read_relay_def relay_eval)
qed

lemma waiting_quiet:
  "propagate_half_closes (os_io example_os) waiting_relay w = (waiting_relay, w)"
  "\<not> fully_drained waiting_relay"
  "snd (desired_interest waiting_relay s 0) = waiting_relay"
  "next_wake waiting_relay Client 0 = (Some 50, waiting_relay)" "next_wake waiting_relay Upstream 0 = (None, waiting_relay)"
  by (cases s; simp add: propagate_half_closes_def fully_drained_def desired_interest_def next_wake_def waiting_relay_def
      read_relay_def relay_eval fault_sendable_def tb_available_def tb_refill_def tb_example_def dl_releasable_def
      dl_next_eligible_def)+

lemma epoll_mask_nonzero: "to_epoll_mask i \<noteq> 0"
  by (simp add: to_epoll_mask_def Let_def EPOLLIN_def EPOLLOUT_def EPOLLERR_def EPOLLHUP_def EPOLLRDHUP_def)

lemma waiting_pump:
  "\<exists>rt c. pump_connection example_os 1 0 waiting_runtime w = Some (Inr (rt, w)) \<and> find_connection rt 1 = Some c \<and>
     cn_relay c = waiting_relay"
proof -
  obtain ci where ci: "desired_interest waiting_relay Client 0 = (ci, waiting_relay)"
    using waiting_quiet(3) [of Client] by (metis prod.collapse)
  obtain ui where ui: "desired_interest waiting_relay Upstream 0 = (ui, waiting_relay)"
    using waiting_quiet(3) [of Upstream] by (metis prod.collapse)
  have find: "find_connection waiting_runtime 1 = Some waiting_connection"
    by (simp add: waiting_runtime_def find_connection_def)
  have same: "waiting_connection\<lparr>cn_relay := waiting_relay\<rparr> = waiting_connection"
    by (simp add: waiting_connection_def)
  have put: "put_connection waiting_runtime 1 waiting_connection = waiting_runtime"
    by (simp add: waiting_runtime_def put_connection_def)
  have relay: "cn_relay waiting_connection = waiting_relay" "\<not> r_upstream_connecting waiting_relay"
    by (simp_all add: waiting_connection_def waiting_relay_def read_relay_def relay_example_def)
  have flushed: "flush_destinations example_os 1 0 [Upstream, Client] waiting_runtime w = Some (Inr (False, waiting_runtime, w))"
    by (simp add: find relay waiting_flush [simplified] same put pump_continue_def del: One_nat_def)
  have modify: "modify_epoll example_os fd m k v = Inr v" for fd m k v
    by (simp add: modify_epoll_def example_os_def)
  define c1 where "c1 = waiting_connection\<lparr>cn_client_mask := to_epoll_mask ci\<rparr>"
  define c2 where "c2 = c1\<lparr>cn_upstream_mask := to_epoll_mask ui\<rparr>"
  have masks: "cn_client_mask waiting_connection = 0" "cn_upstream_mask c1 = 0" "cn_relay c1 = waiting_relay" "cn_relay c2 = waiting_relay"
    "cn_scheduled_wake c2 = None" "c1\<lparr>cn_relay := waiting_relay\<rparr> = c1" "c2\<lparr>cn_relay := waiting_relay\<rparr> = c2"
    by (simp_all add: c1_def c2_def waiting_connection_def)
  let ?rt1 = "put_connection waiting_runtime 1 c1" and ?rt2 = "put_connection (put_connection waiting_runtime 1 c1) 1 c2"
  have a1: "apply_interest example_os 1 Client 0 waiting_runtime w = Inr (?rt1, w)"
    using epoll_mask_nonzero [of ci]
    by (simp add: apply_interest_def find relay ci masks same modify c1_def del: One_nat_def)
  have f1: "find_connection ?rt1 1 = Some c1" using find by (simp add: put_connection_find del: One_nat_def)
  then have f2: "find_connection ?rt2 1 = Some c2" by (simp add: put_connection_find del: One_nat_def)
  have a2: "apply_interest example_os 1 Upstream 0 ?rt1 w = Inr (?rt2, w)"
    using epoll_mask_nonzero [of ui]
    by (simp add: apply_interest_def f1 ui masks modify c2_def del: One_nat_def)
  have "refresh_or_close example_os 1 0 waiting_runtime w = Inr (?rt2, w)"
    using a1 a2 by (simp add: refresh_or_close_def find relay waiting_quiet(2) bind_sum_def del: One_nat_def)
  then have "pump_connection example_os 1 0 waiting_runtime w = Some (Inr (schedule_relay_wake 1 0 ?rt2, w))"
    unfolding pump_connection_def by (simp add: find relay flushed waiting_quiet(1) [simplified] same put bind_sum_def del: flush_destinations.simps One_nat_def)
  moreover have "\<exists>c. find_connection (schedule_relay_wake 1 0 ?rt2) 1 = Some c \<and> cn_relay c = waiting_relay"
    using f2 by (simp add: schedule_relay_wake_def masks waiting_quiet(4,5) put_connection_find del: One_nat_def)
  ultimately show ?thesis by blast
qed

lemma waiting_run:
  "\<exists>rt w c. socket_ready example_os 4 EPOLLERR waiting_runtime (loop_world_example [] []) = Some (Inr (rt, w)) \<and>
     find_connection rt 1 = Some c \<and> cn_relay c = waiting_relay"
proof -
  let ?w = "loop_world_example [] []"
  let ?w1 = "(fst ?w, (snd ?w)\<lparr>ls_clock := 1\<rparr>)"
  have "os_now example_os ?w = (0, ?w1)" by (simp add: example_os_def loop_world_example_def)
  moreover have "finish_connect example_os waiting_connection Client EPOLLERR 0 waiting_runtime ?w1 = (False, waiting_runtime, ?w1)"
    by (simp add: finish_connect_def)
  moreover have "check_socket_error example_os waiting_connection Client EPOLLERR 0 waiting_runtime ?w1 = (False, waiting_runtime, ?w1)"
    by (simp add: check_socket_error_def example_os_def)
  moreover have "read_ready example_os waiting_connection Client EPOLLERR 0 waiting_runtime ?w1 = Some (Inr (False, waiting_runtime, ?w1))"
    by (simp add: read_ready_def EPOLLIN_def EPOLLERR_def EPOLLHUP_def EPOLLRDHUP_def)
  moreover have "find_connection waiting_runtime 1 = Some waiting_connection" "map_of (rt_bindings waiting_runtime) 4 = Some (1, Client)"
    by (simp_all add: waiting_runtime_def find_connection_def)
  ultimately have "socket_ready example_os 4 EPOLLERR waiting_runtime ?w = pump_connection example_os 1 0 waiting_runtime ?w1"
    by (simp add: socket_ready_def)
  with waiting_pump show ?thesis by metis
qed

section \<open>Properties\<close>

text \<open>
  C4. The loop's tables stay consistent. After any number of rounds, the last one included, whatever events, errors and
  timers they handled: there are never more connections than configured; every connection accepted
  so far is either open or counted in exactly one close counter (64-bit); a token is bound to a side
  of a connection exactly if that connection is open and the token is that side's; every open
  connection's relay satisfies its invariant; and a recorded wake-up has its timer in the queue.
  (The configuration is one the constructor accepts, with a burst in the exact range of the bucket.)
\<close>

theorem event_loop_consistent:
  assumes "loop_os os received sent clock pending" and "config_ok pton config"
    and "loop_reaches os pton config w0 (rt, w)"
  shows "length (rt_connections rt) \<le> pc_max_connections config \<and>
    of_nat (rt_next_connection_id rt - 1) = of_nat (length (rt_connections rt)) + closes rt \<and>
    (\<forall>token cid side. map_of (rt_bindings rt) token = Some (cid, side) \<longleftrightarrow>
       (\<exists>c. find_connection rt cid = Some c \<and>
          token = (if side = Client then cn_client_token c else cn_upstream_token c))) \<and>
    (\<forall>cid c. find_connection rt cid = Some c \<longrightarrow> relay_inv (cn_relay c) \<and>
       (\<forall>t. cn_scheduled_wake c = Some t \<longrightarrow>
          (\<exists>e \<in> set (tq_heap (rt_timers rt)). te_deadline e = t \<and> te_connection_id e = cid \<and> te_kind e = Pump)))"
proof -
  note inv = loop_reaches_table [OF assms]
  have "relay_inv (cn_relay c) \<and> (\<forall>t. cn_scheduled_wake c = Some t \<longrightarrow>
      (\<exists>e \<in> set (tq_heap (rt_timers rt)). te_deadline e = t \<and> te_connection_id e = cid \<and> te_kind e = Pump))"
    if "find_connection rt cid = Some c" for cid c
    using table_invD [OF inv(2) that] inv(1) by (fastforce simp: runtime_inv_def wake_pending_def)
  moreover have "length (rt_connections rt) \<le> pc_max_connections config"
    "of_nat (rt_next_connection_id rt - 1) = of_nat (length (rt_connections rt)) + closes rt"
    using inv(2) by (simp_all add: table_inv_def)
  ultimately show ?thesis using binding_iff [OF inv(2)] by blast
qed

theorem event_loop_consistent_witness:
  "\<exists>rt w. loop_reaches example_os pton_example loop_config accept_world (rt, w) \<and> length (rt_connections rt) = 1 \<and>
     length (rt_connections rt) \<le> 256 \<and> (1 :: u64) = 1 + closes rt"
proof -
  obtain rt w where ex: "loop_reaches example_os pton_example loop_config accept_world (rt, w)"
      "length (rt_connections rt) = 1" "rt_next_connection_id rt = 2" using example_accept by blast
  from event_loop_consistent [OF example.loop_os_axioms loop_config_ok ex(1)] ex show ?thesis
    by (intro exI [of _ rt] exI [of _ w]) (simp add: loop_config_def proxy_config_default_def)
qed

text \<open>
  C8. A round returns, and only a failure of epoll throws. From any reachable state, whatever batch
  of events a round is given, it ends, with an exception only if \<^verbatim>\<open>epoll_wait\<close> or \<^verbatim>\<open>epoll_ctl\<close>
  failed (the message names the call); or the batch has an event of the listener, all events before
  it were handled, and the accept loop is handed new connections without end. Nothing is assumed
  about how many connections arrive.
\<close>

theorem event_loop_round_returns:
  assumes "loop_os os received sent clock pending" and "config_ok pton config"
    and "loop_reaches os pton config w0 st"
  shows "(\<exists>out. round_step os pton st = Some out \<and>
      (\<forall>e. out = Halt (Inl e) \<longrightarrow>
         (\<exists>text. e = RuntimeError (''epoll_wait: '' @ text) \<or> e = RuntimeError (''epoll_ctl(ADD): '' @ text) \<or>
            e = RuntimeError (''epoll_ctl(MOD): '' @ text)))) \<or>
    round_step os pton st = None \<and>
      (\<exists>count errno events w1 handled flags rest rt1 w2.
         os_epoll_wait os (snd st) = ((count, errno, events), w1) \<and>
         take (nat count) events = handled @ (kListenerToken, flags) # rest \<and>
         dispatch_events os pton handled (fst st) w1 = Some (Inr (False, rt1, w2)) \<and> accepts_forever os pton rt1 w2)"
proof -
  have "\<exists>text. e = RuntimeError (''epoll_wait: '' @ text) \<or> e = RuntimeError (''epoll_ctl(ADD): '' @ text) \<or>
      e = RuntimeError (''epoll_ctl(MOD): '' @ text)" if "epoll_failure e" for e
    using that unfolding epoll_failure_def by blast
  with loop_os.round_step_cases [OF assms(1,2) loop_reaches_inv [OF assms]] show ?thesis
    unfolding stuck_accepting_def by force
qed

theorem event_loop_round_returns_witness:
  "\<exists>st out. loop_reaches example_os pton_example loop_config accept_world st \<and>
     length (rt_connections (fst st)) = 1 \<and> round_step example_os pton_example st = Some out \<and>
     (\<forall>e. out = Halt (Inl e) \<longrightarrow>
        (\<exists>text. e = RuntimeError (''epoll_wait: '' @ text) \<or> e = RuntimeError (''epoll_ctl(ADD): '' @ text) \<or>
           e = RuntimeError (''epoll_ctl(MOD): '' @ text)))"
proof -
  obtain rt w where ex: "loop_reaches example_os pton_example loop_config accept_world (rt, w)"
      "length (rt_connections rt) = 1" using example_accept by blast
  have "round_step example_os pton_example (rt, w) \<noteq> None"
    using example.round_step_ok [OF loop_config_ok loop_reaches_inv [OF example.loop_os_axioms loop_config_ok ex(1)]] by auto
  with event_loop_round_returns [OF example.loop_os_axioms loop_config_ok ex(1)] ex show ?thesis
    by (intro exI [of _ "(rt, w)"]) auto
qed

text \<open>
  C9. The timer loop handles exactly the due timers and ends. From any reachable state and at any
  time not before the clock, processing the due timers returns: it has handled as many events as
  were due (a handler that reschedules always does so for later), none is due afterwards, and the
  invariant holds; or an \<^verbatim>\<open>epoll_ctl\<close> failed.
\<close>

theorem due_timers_processed:
  assumes "loop_os os received sent clock pending" and "config_ok pton config"
    and "loop_reaches os pton config w0 (rt, w)" and "clock w \<le> now"
  shows "\<exists>res. process_due_timers os now rt w = Some res \<and>
    (\<forall>e. res = Inl e \<longrightarrow> epoll_failure e) \<and>
    (\<forall>n rt' w'. res = Inr (n, rt', w') \<longrightarrow>
       n = length (filter (\<lambda>e. te_deadline e \<le> now) (tq_heap (rt_timers rt))) \<and>
       (\<forall>e. e \<in> set (tq_heap (rt_timers rt')) \<longrightarrow> now < te_deadline e) \<and> table_inv config rt')"
proof -
  have os: "proxy_os os received sent" using assms(1) by (simp add: loop_os_def)
  have inv: "runtime_inv config (relay_timely now) rt"
    by (rule runtime_inv_later [OF loop_reaches_table(1) [OF assms(1-3)] assms(4)])
  obtain res where res: "process_due_timers os now rt w = Some res"
    "case res of Inl e \<Rightarrow> epoll_failure e
     | Inr (n, rt', _) \<Rightarrow> runtime_inv config (relay_timely now) rt' \<and> due now rt' = 0 \<and> n = due now rt"
    using proxy_os.process_due_timers_ok [OF os inv, of now w] by auto
  then show ?thesis
    by (cases res) (auto simp: due_def runtime_inv_def filter_empty_conv not_le)
qed

theorem due_timers_processed_witness:
  "\<exists>rt w res. loop_reaches example_os pton_example loop_config accept_world (rt, w) \<and>
     length (filter (\<lambda>e. te_deadline e \<le> 6000000000) (tq_heap (rt_timers rt))) = 1 \<and>
     process_due_timers example_os 6000000000 rt w = Some res"
proof -
  obtain rt w where ex: "loop_reaches example_os pton_example loop_config accept_world (rt, w)" "loop_clock w = 2"
      "tq_heap (rt_timers rt) = [\<lparr>te_deadline = 5000000000, te_sequence = 1, te_connection_id = 1, te_kind = ConnectTimeout\<rparr>]"
    using example_accept by blast
  have "loop_clock w \<le> 6000000000" using ex(2) by simp
  from due_timers_processed [OF example.loop_os_axioms loop_config_ok ex(1) this] ex(1,3) show ?thesis
    by (intro exI [of _ rt] exI [of _ w]) auto
qed

text \<open>
  C10. No wake-up is lost. In a state that satisfies the loop's invariant, after the handler of a
  socket event, if the connection is still open and its relay asks to be woken at some time, a pump
  timer of this connection is in the queue for that time or earlier, and so the earliest deadline of
  the queue, the one the end of the round arms the kernel timer with, is not later.
\<close>

theorem socket_event_schedules_wake:
  assumes "proxy_os os received sent" and "runtime_inv config (\<lambda>_. True) rt" and "os_now os w = (now, w1)"
    and "map_of (rt_bindings rt) token = Some (cid, side)"
    and "socket_ready os token events rt w = Some (Inr (rt', w'))"
    and "find_connection rt' cid = Some c" and "next_wake (cn_relay c) s now = (Some t, r)"
  shows "\<exists>e deadline. e \<in> set (tq_heap (rt_timers rt')) \<and> te_connection_id e = cid \<and> te_kind e = Pump \<and>
    te_deadline e \<le> t \<and> tq_next_deadline (rt_timers rt') = Some deadline \<and> deadline \<le> t"
proof -
  obtain res where res: "socket_ready os token events rt w = Some res" "handled config (\<lambda>_. True) now rt res"
    "\<forall>cid s rt' w' c'. map_of (rt_bindings rt) token = Some (cid, s) \<longrightarrow> res = Inr (rt', w') \<longrightarrow>
       find_connection rt' cid = Some c' \<longrightarrow> wake_covered now c'"
    using proxy_os.socket_ready_ok [OF assms(1-3), of token events] by auto
  with assms(4-6) have covered: "wake_covered now c" and inv': "runtime_inv config (\<lambda>_. True) rt'" by auto
  then obtain planned where planned: "cn_scheduled_wake c = Some planned" "planned \<le> t"
    using assms(7) unfolding wake_covered_def by (metis fst_conv option.collapse option.pred_inject(2))
  have t: "table_inv config rt'" using inv' by (simp add: runtime_inv_def)
  have "wake_pending (tq_heap (rt_timers rt')) (cid, c)"
    using table_invD(1) [OF t assms(6)] inv' by (auto simp: runtime_inv_def)
  then obtain e where e: "e \<in> set (tq_heap (rt_timers rt'))" "te_deadline e = planned" "te_connection_id e = cid" "te_kind e = Pump"
    using planned by (auto simp: wake_pending_def)
  have "\<exists>deadline. tq_next_deadline (rt_timers rt') = Some deadline \<and> deadline \<le> te_deadline e"
    using t e(1) te_key_le_deadline
    by (cases "tq_heap (rt_timers rt')") (auto simp: tq_next_deadline_def table_inv_def tq_inv_def)
  with e planned(2) show ?thesis by fastforce
qed

theorem socket_event_schedules_wake_witness:
  "\<exists>rt w c e. socket_ready example_os 4 EPOLLERR waiting_runtime (loop_world_example [] []) = Some (Inr (rt, w)) \<and>
     find_connection rt 1 = Some c \<and> next_wake (cn_relay c) Client 0 = (Some 50, cn_relay c) \<and>
     e \<in> set (tq_heap (rt_timers rt)) \<and> te_connection_id e = 1 \<and> te_kind e = Pump \<and> te_deadline e \<le> 50"
proof -
  let ?w = "loop_world_example [] []"
  obtain rt w c where run: "socket_ready example_os 4 EPOLLERR waiting_runtime ?w = Some (Inr (rt, w))"
    "find_connection rt 1 = Some c" "cn_relay c = waiting_relay" using waiting_run by blast
  have now: "os_now example_os ?w = (0, fst ?w, (snd ?w)\<lparr>ls_clock := 1\<rparr>)"
    by (simp add: example_os_def loop_world_example_def)
  have bound: "map_of (rt_bindings waiting_runtime) 4 = Some (1, Client)" by (simp add: waiting_runtime_def)
  have wake: "next_wake (cn_relay c) Client 0 = (Some 50, waiting_relay)" using run(3) waiting_quiet(4) by simp
  from socket_event_schedules_wake [OF example_sockets.proxy_os_axioms waiting_runtime_inv now bound run(1,2) wake] run wake
  show ?thesis by auto
qed

text \<open>
  The value written to the kernel timer for a deadline is its nanosecond count (or one nanosecond for a deadline not after the epoch), split into seconds and a nanosecond part
  below one second; it is never the zero that would disarm the timer, which is written only when no
  timer is pending.
\<close>

theorem timer_spec_exact:
  "timer_spec None = (0, 0) \<and>
   (\<exists>sec nsec. timer_spec (Some t) = (sec, nsec) \<and> 0 \<le> sec \<and> 0 \<le> nsec \<and> nsec < 1000000000 \<and>
      (sec, nsec) \<noteq> (0, 0) \<and> sec * 1000000000 + nsec = max t 1)"
proof -
  let ?n = "if t \<le> 0 then 1 else t"
  have "duration_cast 1000000000 ?n = ?n div 1000000000" by (simp add: duration_cast_def)
  then show ?thesis by (auto simp: timer_spec_def Let_def max_def)
qed

text \<open>
  C11. The kernel timer follows the queue. Between any two rounds, if timers are pending and no
  \<^verbatim>\<open>timerfd_settime\<close> has failed, the timer descriptor holds a one-shot expiration that is still to
  be read, at the deadline of an earliest pending timer (one nanosecond for a deadline not after
  the epoch): an earlier deadline scheduled in a round is re-armed, and a timer that expired is armed
  again. It is never the zero that disarms it.
\<close>

theorem kernel_timer_armed:
  assumes "timer_calls os armed refused" and "loop_os os received sent clock pending" and "config_ok pton config"
    and "loop_reaches os pton config w0 (rt, w)" and "tq_heap (rt_timers rt) \<noteq> []" and "refused w = refused w0"
  shows "\<exists>first sec nsec. first \<in> set (tq_heap (rt_timers rt)) \<and>
    (\<forall>e \<in> set (tq_heap (rt_timers rt)). te_deadline first \<le> te_deadline e) \<and>
    armed w = Some (sec, nsec) \<and> 0 \<le> sec \<and> 0 \<le> nsec \<and> nsec < 1000000000 \<and> (sec, nsec) \<noteq> (0, 0) \<and>
    sec * 1000000000 + nsec = max (te_deadline first) 1"
proof -
  have last: "rt_last_armed_deadline rt = tq_next_deadline (rt_timers rt)"
    and ok: "timer_calls.armed_ok armed rt w"
    using timer_calls.loop_follows [OF assms(1,4)] assms(6) by (simp_all add: timer_calls.timer_follows_def [OF assms(1)])
  obtain first rest where heap: "tq_heap (rt_timers rt) = first # rest" using assms(5) by (meson list.exhaust)
  then have "armed w = Some (timer_spec (Some (te_deadline first)))"
    using ok last by (simp add: timer_calls.armed_ok_def [OF assms(1)] tq_next_deadline_def)
  moreover have "te_deadline first \<le> te_deadline e" if "e \<in> set (tq_heap (rt_timers rt))" for e
    using loop_reaches_table(2) [OF assms(2-4)] heap that te_key_le_deadline by (auto simp: table_inv_def tq_inv_def)
  ultimately show ?thesis using heap timer_spec_exact [of "te_deadline first"] by fastforce
qed

theorem kernel_timer_armed_witness:
  "\<exists>rt w. loop_reaches example_os pton_example loop_config accept_world (rt, w) \<and> tq_heap (rt_timers rt) \<noteq> [] \<and>
     ls_armed (snd w) = Some (5, 0)"
proof -
  obtain rt w where ex: "loop_reaches example_os pton_example loop_config accept_world (rt, w)"
      "tq_heap (rt_timers rt) = [\<lparr>te_deadline = 5000000000, te_sequence = 1, te_connection_id = 1, te_kind = ConnectTimeout\<rparr>]"
    using example_accept by blast
  obtain sec nsec where armed: "ls_armed (snd w) = Some (sec, nsec)"
      and spec: "0 \<le> nsec" "nsec < 1000000000" "sec * 1000000000 + nsec = 5000000000"
    using kernel_timer_armed [OF example_timer.timer_calls_axioms example.loop_os_axioms loop_config_ok ex(1)] ex(2) by auto
  from spec have "4 < sec" "sec < 6" by linarith+
  then have "sec = 5" by simp
  with spec have "nsec = 0" by simp
  with \<open>sec = 5\<close> armed ex show ?thesis by (intro exI [of _ rt] exI [of _ w]) simp
qed

lemma stop_runtime_ok:
  assumes "loop_os os received sent clock pending" and "config_ok pton config"
    and "loop_reaches os pton config w0 (rt, w)"
  shows "\<exists>rt' w'. stop_runtime os rt w = Some (0, rt', w') \<and> rt_connections rt' = [] \<and> rt_bindings rt' = [] \<and>
    closes rt' = of_nat (rt_next_connection_id rt - 1)"
proof -
  obtain now w1 where now: "os_now os w = (now, w1)" by fastforce
  obtain rt2 w2 where sd: "shutdown_all os now rt w1 = Some (rt2, w2)" "table_inv config rt2" "rt_connections rt2 = []"
      "rt_next_connection_id rt2 = rt_next_connection_id rt"
    using shutdown_all_ok [OF loop_reaches_table(2) [OF assms], of os now w1] by blast
  have "loop_inv config clock (rt2, w2)" using sd(2,3) by (simp add: loop_inv_def runtime_inv_def)
  from loop_os.write_metrics_file_ok [OF assms(1) this]
  obtain rt3 w3 where wm: "write_metrics_file os rt2 w2 = Some (rt3, w3)" "rt_connections rt3 = []" "table_inv config rt3"
      "rt_next_connection_id rt3 = rt_next_connection_id rt2"
    using sd(2,3) by auto
  show ?thesis
    using now sd wm no_connections [OF wm(3,2)] by (simp add: stop_runtime_def log_event_def closes_def)
qed

lemma example_stop:
  assumes "loop_reaches example_os pton_example loop_config accept_world (rt, w)"
  shows "\<exists>rt' w'. stop_runtime example_os rt w = Some (0, rt', w')"
  using stop_runtime_ok [OF example.loop_os_axioms loop_config_ok assms] by blast

text \<open>
  C14. Shutting down is complete. From any reachable state, that of the last round included, stopping the runtime returns with exit
  code 0, no connection and no token binding is left, and the four close counters add up to the
  number of connections accepted (64-bit).
\<close>

theorem shutdown_complete:
  assumes "loop_os os received sent clock pending" and "config_ok pton config"
    and "loop_reaches os pton config w0 (rt, w)"
  shows "\<exists>rt' w'. stop_runtime os rt w = Some (0, rt', w') \<and> rt_connections rt' = [] \<and> rt_bindings rt' = [] \<and>
    closes rt' = of_nat (rt_next_connection_id rt - 1)"
  by (rule stop_runtime_ok [OF assms])

theorem shutdown_complete_witness:
  "\<exists>rt w rt' w'. loop_reaches example_os pton_example loop_config accept_world (rt, w) \<and> length (rt_connections rt) = 1 \<and>
     stop_runtime example_os rt w = Some (0, rt', w') \<and> rt_connections rt' = [] \<and> closes rt' = 1"
proof -
  obtain rt w where ex: "loop_reaches example_os pton_example loop_config accept_world (rt, w)"
      "length (rt_connections rt) = 1" "rt_next_connection_id rt = 2" using example_accept by blast
  obtain rt' w' where "stop_runtime example_os rt w = Some (0, rt', w')" "rt_connections rt' = []" "closes rt' = 1"
    using shutdown_complete [OF example.loop_os_axioms loop_config_ok ex(1)] ex(3) by auto
  with ex show ?thesis
    by (intro exI [of _ rt] exI [of _ w] exI [of _ rt'] exI [of _ w']) simp
qed

text \<open>
  C5. No descriptor leaks. After any number of rounds, the last one included, whatever connections were accepted, refused,
  reset or timed out in them and whatever metrics were exported, the open descriptors are exactly
  those the loop started with and the two sockets of each connection in the table, all of them
  distinct; and once the runtime has stopped, exactly those it started with.
\<close>

theorem no_descriptor_leak:
  assumes "fd_calls os opened" and "loop_reaches os pton config w0 (rt, w)"
    and "fds = concat (map (\<lambda>(_, c). [cn_client_fd c, cn_upstream_fd c]) (rt_connections rt))"
  shows "opened w = opened w0 \<union> set fds \<and> distinct fds \<and> set fds \<inter> opened w0 = {} \<and>
    (\<forall>status rt' w'. stop_runtime os rt w = Some (status, rt', w') \<longrightarrow> opened w' = opened w0 \<and> rt_connections rt' = [])"
proof -
  have ok: "fd_calls.fds_ok opened (opened w0) rt w"
    using fd_calls.loop_fds [OF assms(1) assms(2) [unfolded loop_reaches_def] fd_calls.fds_ok_new [OF assms(1)]] by simp
  have "wire_fds (wires rt) = fds"
    by (simp add: assms(3) wire_fds_def wires_def wire_def comp_def case_prod_unfold)
  with ok fd_calls.stop_runtime_fds [OF assms(1) ok] show ?thesis
    by (auto simp: fd_calls.fds_ok_def [OF assms(1)] accounted_def)
qed

theorem no_descriptor_leak_witness:
  "\<exists>rt w status rt' w'. loop_reaches example_os pton_example loop_config accept_world (rt, w) \<and> length (rt_connections rt) = 1 \<and>
     stop_runtime example_os rt w = Some (status, rt', w') \<and> set (ls_opened (snd w')) = {0, 3}"
proof -
  obtain rt w where ex: "loop_reaches example_os pton_example loop_config accept_world (rt, w)"
      "length (rt_connections rt) = 1" using example_accept by blast
  obtain rt' w' where stop: "stop_runtime example_os rt w = Some (0, rt', w')"
    using example_stop [OF ex(1)] by blast
  have "set (ls_opened (snd w')) = set (ls_opened (snd accept_world))"
    using no_descriptor_leak [OF example_fds.fd_calls_axioms ex(1) refl] stop by (cases w') simp
  then have "set (ls_opened (snd w')) = {0, 3}" by (simp add: loop_world_example_def)
  with ex stop show ?thesis by (intro exI conjI)
qed

text \<open>
  Interest and event mask. A socket is registered for input and for the peer's half-close
  exactly if the relay wants to read from it, so a paused side cannot spin the loop, and for output
  exactly if the relay wants to write to it; errors and hang-ups are always reported.
\<close>

theorem epoll_mask_exact:
  "((to_epoll_mask i AND EPOLLIN) \<noteq> 0) = is_read i \<and> ((to_epoll_mask i AND EPOLLRDHUP) \<noteq> 0) = is_read i \<and>
   ((to_epoll_mask i AND EPOLLOUT) \<noteq> 0) = is_write i \<and>
   (to_epoll_mask i AND EPOLLERR) \<noteq> 0 \<and> (to_epoll_mask i AND EPOLLHUP) \<noteq> 0"
  by (simp add: to_epoll_mask_def Let_def EPOLLIN_def EPOLLOUT_def EPOLLERR_def EPOLLHUP_def EPOLLRDHUP_def)

end
