(* ===== verification/Proxy_Startup.thy ===== *)
theory Proxy_Startup
  imports Proxy_Runtime
begin

text \<open>
  The construction of \<^verbatim>\<open>ProxyRuntime\<close> in \<^verbatim>\<open>src/proxy/proxy.cpp\<close>: the listener, the signal, timer and epoll
  descriptors and their registration. Each descriptor is a \<^verbatim>\<open>UniqueFd\<close>, so an exception closes those
  that were created, in the reverse order of the members; the model writes these closes out.
\<close>

section \<open>Model\<close>

record 'w start_os =
  sa_socket :: "'w \<Rightarrow> (int \<times> int) \<times> 'w"
  sa_reuse_address :: "int \<Rightarrow> 'w \<Rightarrow> (int \<times> int) \<times> 'w"
  sa_bind :: "int \<Rightarrow> 32 word \<times> 16 word \<Rightarrow> 'w \<Rightarrow> (int \<times> int) \<times> 'w"
  sa_listen :: "int \<Rightarrow> int \<Rightarrow> 'w \<Rightarrow> (int \<times> int) \<times> 'w"
  sa_signal_set :: "'w \<Rightarrow> bool \<times> 'w" \<comment> \<open>\<^verbatim>\<open>sigemptyset\<close> and \<^verbatim>\<open>sigaddset\<close> of the three signals\<close>
  sa_block_signals :: "'w \<Rightarrow> (int \<times> int) \<times> 'w"
  sa_signalfd :: "'w \<Rightarrow> (int \<times> int) \<times> 'w"
  sa_timerfd :: "'w \<Rightarrow> (int \<times> int) \<times> 'w"
  sa_epoll_create :: "'w \<Rightarrow> (int \<times> int) \<times> 'w"
  sa_epoll_add :: "int \<Rightarrow> int \<Rightarrow> 32 word \<Rightarrow> nat \<Rightarrow> 'w \<Rightarrow> (int \<times> int) \<times> 'w"
  sa_close :: "int \<Rightarrow> 'w \<Rightarrow> 'w"
  sa_strerror :: "int \<Rightarrow> string"
  sa_somaxconn :: nat

definition create_listener :: "'w start_os \<Rightarrow> inet_pton \<Rightarrow> endpoint \<Rightarrow> nat \<Rightarrow> 'w \<Rightarrow> (exn + int) \<times> 'w" where
  "create_listener os pton endpoint max_connections w =
     (let ((listener, errno), w) = sa_socket os w in
      if listener < 0 then (Inl (RuntimeError (''socket(listener): '' @ sa_strerror os errno)), w)
      else
        let ((res, errno), w) = sa_reuse_address os listener w in
        if res < 0 then (Inl (RuntimeError (''setsockopt(SO_REUSEADDR): '' @ sa_strerror os errno)), sa_close os listener w)
        else
          (case ep_to_sockaddr pton endpoint of
             Inl e \<Rightarrow> (Inl e, sa_close os listener w)
           | Inr address \<Rightarrow>
               let ((res, errno), w) = sa_bind os listener address w in
               if res < 0
               then (Inl (RuntimeError (''bind('' @ ep_to_string endpoint @ ''): '' @ sa_strerror os errno)), sa_close os listener w)
               else
                 let capped_backlog = min max_connections (sa_somaxconn os);
                     ((res, errno), w) = sa_listen os listener (int capped_backlog) w
                 in if res < 0 then (Inl (RuntimeError (''listen: '' @ sa_strerror os errno)), sa_close os listener w)
                    else (Inr listener, w)))"

definition create_signal_fd :: "'w start_os \<Rightarrow> 'w \<Rightarrow> (exn + int) \<times> 'w" where
  "create_signal_fd os w =
     (let (ok, w) = sa_signal_set os w in
      if \<not> ok then (Inl (RuntimeError ''could not initialize signal mask''), w)
      else
        let ((res, errno), w) = sa_block_signals os w in
        if res < 0 then (Inl (RuntimeError (''sigprocmask: '' @ sa_strerror os errno)), w)
        else
          let ((fd, errno), w) = sa_signalfd os w in
          if fd < 0 then (Inl (RuntimeError (''signalfd: '' @ sa_strerror os errno)), w) else (Inr fd, w))"

definition create_timer_fd :: "'w start_os \<Rightarrow> 'w \<Rightarrow> (exn + int) \<times> 'w" where
  "create_timer_fd os w =
     (let ((fd, errno), w) = sa_timerfd os w in
      if fd < 0 then (Inl (RuntimeError (''timerfd_create: '' @ sa_strerror os errno)), w) else (Inr fd, w))"

text \<open>The three registrations of the constructor's body, with \<^verbatim>\<open>add_epoll\<close>.\<close>

fun register_all :: "'w start_os \<Rightarrow> int \<Rightarrow> (int \<times> nat) list \<Rightarrow> 'w \<Rightarrow> (exn + unit) \<times> 'w" where
  "register_all os epoll_fd [] w = (Inr (), w)"
| "register_all os epoll_fd ((fd, token) # rest) w =
     (let ((res, errno), w) = sa_epoll_add os epoll_fd fd EPOLLIN token w in
      if res < 0 then (Inl (RuntimeError (''epoll_ctl(ADD): '' @ sa_strerror os errno)), w)
      else register_all os epoll_fd rest w)"

definition proxy_start :: "'w start_os \<Rightarrow> inet_pton \<Rightarrow> proxy_config \<Rightarrow> 'w \<Rightarrow> (exn + int \<times> int \<times> int \<times> int) \<times> 'w" where
  "proxy_start os pton config w =
     (case create_listener os pton (pc_listen config) (pc_max_connections config) w of
        (Inl e, w) \<Rightarrow> (Inl e, w)
      | (Inr listener, w) \<Rightarrow>
          (case create_signal_fd os w of
             (Inl e, w) \<Rightarrow> (Inl e, sa_close os listener w)
           | (Inr signal_fd, w) \<Rightarrow>
               (case create_timer_fd os w of
                  (Inl e, w) \<Rightarrow> (Inl e, sa_close os listener (sa_close os signal_fd w))
                | (Inr timer_fd, w) \<Rightarrow>
                    (let ((epoll_fd, errno), w) = sa_epoll_create os w;
                         unwind = (\<lambda>w. sa_close os listener (sa_close os signal_fd (sa_close os timer_fd w)))
                     in if epoll_fd < 0 then (Inl (RuntimeError (''epoll_create1: '' @ sa_strerror os errno)), unwind w)
                        else (case register_all os epoll_fd
                                     [(listener, kListenerToken), (signal_fd, kSignalToken), (timer_fd, kTimerToken)] w of
                                (Inl e, w) \<Rightarrow> (Inl e, unwind (sa_close os epoll_fd w))
                              | (Inr _, w) \<Rightarrow> (Inr (listener, signal_fd, timer_fd, epoll_fd), w))))))"

section \<open>Descriptors\<close>

text \<open>
  The calls as documented: a call that creates a descriptor returns a negative number and creates
  none, or returns one that was not open; a close removes it; \<^verbatim>\<open>epoll_ctl\<close> registers what it is asked to
  unless it fails. \<open>opened\<close> are the open descriptors, \<open>registered\<close> the registrations made.
\<close>

definition creates :: "('w \<Rightarrow> int set) \<Rightarrow> ('w \<Rightarrow> (int \<times> int \<times> 32 word \<times> nat) list) \<Rightarrow> int \<Rightarrow> 'w \<Rightarrow> 'w \<Rightarrow> bool" where
  "creates opened registered fd w w' \<longleftrightarrow> registered w' = registered w \<and>
     (if fd < 0 then opened w' = opened w else fd \<notin> opened w \<and> opened w' = insert fd (opened w))"

definition same_fds :: "('w \<Rightarrow> int set) \<Rightarrow> ('w \<Rightarrow> (int \<times> int \<times> 32 word \<times> nat) list) \<Rightarrow> 'w \<Rightarrow> 'w \<Rightarrow> bool" where
  "same_fds opened registered w w' \<longleftrightarrow> opened w' = opened w \<and> registered w' = registered w"

locale start_calls =
  fixes os :: "'w start_os" and opened :: "'w \<Rightarrow> int set" and registered :: "'w \<Rightarrow> (int \<times> int \<times> 32 word \<times> nat) list"
  assumes socket_creates: "sa_socket os w = ((fd, e), w') \<Longrightarrow> creates opened registered fd w w'"
    and signalfd_creates: "sa_signalfd os w = ((fd, e), w') \<Longrightarrow> creates opened registered fd w w'"
    and timerfd_creates: "sa_timerfd os w = ((fd, e), w') \<Longrightarrow> creates opened registered fd w w'"
    and epoll_creates: "sa_epoll_create os w = ((fd, e), w') \<Longrightarrow> creates opened registered fd w w'"
    and reuse_same: "sa_reuse_address os fd w = (r, w') \<Longrightarrow> same_fds opened registered w w'"
    and bind_same: "sa_bind os fd address w = (r, w') \<Longrightarrow> same_fds opened registered w w'"
    and listen_same: "sa_listen os fd backlog w = (r, w') \<Longrightarrow> same_fds opened registered w w'"
    and set_same: "sa_signal_set os w = (ok, w') \<Longrightarrow> same_fds opened registered w w'"
    and block_same: "sa_block_signals os w = (r, w') \<Longrightarrow> same_fds opened registered w w'"
    and close_removes: "opened (sa_close os fd w) = opened w - {fd}" "registered (sa_close os fd w) = registered w"
    and add_registers: "sa_epoll_add os epoll fd events token w = ((res, e), w') \<Longrightarrow> opened w' = opened w \<and>
      registered w' = (if res < 0 then registered w else registered w @ [(epoll, fd, events, token)])"
begin

lemma create_listener_ok:
  assumes "create_listener os pton endpoint n w = (res, w')"
  shows "case res of Inl e \<Rightarrow> same_fds opened registered w w' | Inr fd \<Rightarrow> 0 \<le> fd \<and> creates opened registered fd w w'"
proof -
  obtain fd e1 w1 where 1: "sa_socket os w = ((fd, e1), w1)" by (metis prod.collapse)
  obtain r2 e2 w2 where 2: "sa_reuse_address os fd w1 = ((r2, e2), w2)" by (metis prod.collapse)
  have 3: "case sa_bind os fd address w2 of (r, w3) \<Rightarrow> same_fds opened registered w2 w3" for address
    using bind_same [of fd address w2] by (cases "sa_bind os fd address w2") simp
  have 4: "case sa_listen os fd (int (min n (sa_somaxconn os))) w3 of (r, w4) \<Rightarrow> same_fds opened registered w3 w4" for w3
    using listen_same [of fd "int (min n (sa_somaxconn os))" w3] by (cases "sa_listen os fd (int (min n (sa_somaxconn os))) w3") simp
  note c = socket_creates [OF 1] reuse_same [OF 2]
  show ?thesis
  proof (cases "fd < 0 \<or> r2 < 0")
    case True
    then show ?thesis using assms 1 2 c
      by (auto simp: create_listener_def Let_def creates_def same_fds_def close_removes split: if_splits)
  next
    case ok: False
    show ?thesis
    proof (cases "ep_to_sockaddr pton endpoint")
      case (Inl e)
      then show ?thesis using assms 1 2 c ok
        by (auto simp: create_listener_def Let_def creates_def same_fds_def close_removes)
    next
      case (Inr address)
      obtain r3 e3 w3 where b: "sa_bind os fd address w2 = ((r3, e3), w3)" by (metis prod.collapse)
      obtain r4 e4 w4 where l: "sa_listen os fd (int (min n (sa_somaxconn os))) w3 = ((r4, e4), w4)" by (metis prod.collapse)
      show ?thesis using assms 1 2 c ok Inr b l 3 [of address] 4 [of w3]
        by (auto simp: create_listener_def Let_def creates_def same_fds_def close_removes split: if_splits)
    qed
  qed
qed

lemma create_signal_fd_ok:
  assumes "create_signal_fd os w = (res, w')"
  shows "case res of Inl e \<Rightarrow> same_fds opened registered w w' | Inr fd \<Rightarrow> 0 \<le> fd \<and> creates opened registered fd w w'"
proof -
  obtain ok w1 where 1: "sa_signal_set os w = (ok, w1)" by fastforce
  obtain r2 e2 w2 where 2: "sa_block_signals os w1 = ((r2, e2), w2)" by (metis prod.collapse)
  obtain fd e3 w3 where 3: "sa_signalfd os w2 = ((fd, e3), w3)" by (metis prod.collapse)
  show ?thesis using assms 1 2 3 set_same [OF 1] block_same [OF 2] signalfd_creates [OF 3]
    by (auto simp: create_signal_fd_def creates_def same_fds_def split: if_splits)
qed

lemma create_timer_fd_ok:
  assumes "create_timer_fd os w = (res, w')"
  shows "case res of Inl e \<Rightarrow> same_fds opened registered w w' | Inr fd \<Rightarrow> 0 \<le> fd \<and> creates opened registered fd w w'"
proof -
  obtain fd e w1 where 1: "sa_timerfd os w = ((fd, e), w1)" by (metis prod.collapse)
  show ?thesis using assms 1 timerfd_creates [OF 1]
    by (auto simp: create_timer_fd_def creates_def same_fds_def split: if_splits)
qed

lemma register_all_ok:
  "register_all os epoll fds w = (res, w') \<Longrightarrow> opened w' = opened w \<and>
    (res = Inr () \<longrightarrow> registered w' = registered w @ map (\<lambda>(fd, token). (epoll, fd, EPOLLIN, token)) fds)"
proof (induction fds arbitrary: w)
  case (Cons x fds)
  obtain fd token where x: "x = (fd, token)" by (cases x)
  obtain r e w1 where 1: "sa_epoll_add os epoll fd EPOLLIN token w = ((r, e), w1)" by (metis prod.collapse)
  from Cons.prems add_registers [OF 1] Cons.IH [of w1] 1 show ?case by (auto simp: x split: if_splits)
qed simp

lemma proxy_start_ok:
  assumes start: "proxy_start os pton config w = (res, w')"
  shows "case res of Inl e \<Rightarrow> opened w' = opened w
    | Inr (l, s, t, p) \<Rightarrow> distinct [l, s, t, p] \<and> {l, s, t, p} \<inter> opened w = {} \<and> opened w' = {l, s, t, p} \<union> opened w \<and>
        registered w' = registered w @ [(p, l, EPOLLIN, kListenerToken), (p, s, EPOLLIN, kSignalToken), (p, t, EPOLLIN, kTimerToken)]"
proof -
  obtain r1 w1 where 1: "create_listener os pton (pc_listen config) (pc_max_connections config) w = (r1, w1)" by fastforce
  note c1 = create_listener_ok [OF 1]
  show ?thesis
  proof (cases r1)
    case (Inl e)
    then show ?thesis using start 1 c1 by (auto simp: proxy_start_def same_fds_def)
  next
    case l: (Inr l)
    obtain r2 w2 where 2: "create_signal_fd os w1 = (r2, w2)" by fastforce
    note c2 = create_signal_fd_ok [OF 2]
    show ?thesis
    proof (cases r2)
      case (Inl e)
      then show ?thesis using start 1 c1 l 2 c2 by (auto simp: proxy_start_def same_fds_def creates_def close_removes)
    next
      case s: (Inr s)
      obtain r3 w3 where 3: "create_timer_fd os w2 = (r3, w3)" by fastforce
      note c3 = create_timer_fd_ok [OF 3]
      show ?thesis
      proof (cases r3)
        case (Inl e)
        then show ?thesis using start 1 c1 l 2 c2 s 3 c3 by (auto simp: proxy_start_def same_fds_def creates_def close_removes)
      next
        case t: (Inr t)
        obtain p e4 w4 where 4: "sa_epoll_create os w3 = ((p, e4), w4)" by (metis prod.collapse)
        obtain r5 w5 where 5: "register_all os p [(l, kListenerToken), (s, kSignalToken), (t, kTimerToken)] w4 = (r5, w5)" by fastforce
        note c = epoll_creates [OF 4] register_all_ok [OF 5]
        have fds: "opened w3 = {t, s, l} \<union> opened w" "distinct [l, s, t]" "{l, s, t} \<inter> opened w = {}" "registered w3 = registered w"
          using c1 c2 c3 l s t by (auto simp: creates_def)
        have unfolded: "proxy_start os pton config w = (if p < 0
            then (Inl (RuntimeError (''epoll_create1: '' @ sa_strerror os e4)), sa_close os l (sa_close os s (sa_close os t w4)))
            else case r5 of Inl e \<Rightarrow> (Inl e, sa_close os l (sa_close os s (sa_close os t (sa_close os p w5)))) | Inr _ \<Rightarrow> (Inr (l, s, t, p), w5))"
          using 1 2 3 4 5 l s t by (simp add: proxy_start_def split: sum.splits)
        show ?thesis using start c fds unfolding unfolded
          by (auto simp: creates_def close_removes split: if_splits sum.splits)
      qed
    qed
  qed
qed

end

section \<open>A scripted start\<close>

text \<open>Descriptors are numbered from the lowest that is not below any open one; calls follow a script of failures.\<close>

record start_world =
  aw_opened :: "int list"
  aw_registered :: "(int \<times> int \<times> 32 word \<times> nat) list"
  aw_fail_epoll :: bool

definition new_fd :: "start_world \<Rightarrow> (int \<times> int) \<times> start_world" where
  "new_fd w = (let fd = Max (insert 2 (set (aw_opened w))) + 1 in ((fd, 0), w\<lparr>aw_opened := fd # aw_opened w\<rparr>))"

definition scripted_start :: "start_world start_os" where
  "scripted_start =
     \<lparr>sa_socket = new_fd, sa_reuse_address = (\<lambda>fd w. ((0, 0), w)), sa_bind = (\<lambda>fd address w. ((0, 0), w)),
      sa_listen = (\<lambda>fd backlog w. ((0, 0), w)), sa_signal_set = (\<lambda>w. (True, w)), sa_block_signals = (\<lambda>w. ((0, 0), w)),
      sa_signalfd = new_fd, sa_timerfd = new_fd,
      sa_epoll_create = (\<lambda>w. if aw_fail_epoll w then ((- 1, 24), w) else new_fd w),
      sa_epoll_add = (\<lambda>epoll fd events token w. ((0, 0), w\<lparr>aw_registered := aw_registered w @ [(epoll, fd, events, token)]\<rparr>)),
      sa_close = (\<lambda>fd w. w\<lparr>aw_opened := filter (\<lambda>x. x \<noteq> fd) (aw_opened w)\<rparr>), sa_strerror = (\<lambda>_. []), sa_somaxconn = 4096\<rparr>"

lemma new_fd_creates:
  assumes "new_fd w = ((fd, e), w')"
  shows "creates (\<lambda>w. set (aw_opened w)) aw_registered fd w w'"
proof -
  have fd: "fd = Max (insert 2 (set (aw_opened w))) + 1" "aw_opened w' = fd # aw_opened w" "aw_registered w' = aw_registered w"
    using assms by (auto simp: new_fd_def Let_def)
  have "2 \<le> Max (insert 2 (set (aw_opened w)))" by (intro Max_ge) simp_all
  then have "\<not> fd < 0" using fd(1) by linarith
  moreover have "fd \<notin> set (aw_opened w)"
  proof
    assume "fd \<in> set (aw_opened w)"
    then have "fd \<le> Max (insert 2 (set (aw_opened w)))" by (intro Max_ge) simp_all
    then show False using fd(1) by simp
  qed
  ultimately show ?thesis using fd(2,3) by (simp add: creates_def)
qed

interpretation scripted_start: start_calls scripted_start "\<lambda>w. set (aw_opened w)" aw_registered
  by unfold_locales (auto simp: scripted_start_def same_fds_def new_fd_creates creates_def split: if_splits dest: new_fd_creates)

section \<open>Properties\<close>

text \<open>
  C40. Starting up leaks nothing. If the construction of the runtime throws, at whatever call, every
  descriptor it had created is closed again; if it succeeds, it holds four new, distinct descriptors
  and the listener, the signals and the timer are registered for input under their tokens.
\<close>

theorem proxy_start_no_leak:
  assumes "start_calls os opened registered" and "proxy_start os pton config w = (res, w')"
  shows "case res of Inl e \<Rightarrow> opened w' = opened w
    | Inr (l, s, t, p) \<Rightarrow> distinct [l, s, t, p] \<and> {l, s, t, p} \<inter> opened w = {} \<and> opened w' = {l, s, t, p} \<union> opened w \<and>
        registered w' = registered w @ [(p, l, EPOLLIN, kListenerToken), (p, s, EPOLLIN, kSignalToken), (p, t, EPOLLIN, kTimerToken)]"
  by (rule start_calls.proxy_start_ok [OF assms])

theorem proxy_start_no_leak_witness:
  "\<exists>e w'. proxy_start scripted_start (\<lambda>_. Some 0x7F000001) proxy_config_default
     \<lparr>aw_opened = [0], aw_registered = [], aw_fail_epoll = True\<rparr> = (Inl e, w') \<and> set (aw_opened w') = {0}"
proof -
  let ?w = "\<lparr>aw_opened = [0], aw_registered = [], aw_fail_epoll = True\<rparr>"
  have "\<exists>e w'. proxy_start scripted_start (\<lambda>_. Some 0x7F000001) proxy_config_default ?w = (Inl e, w')"
    by (simp add: proxy_start_def create_listener_def create_signal_fd_def create_timer_fd_def scripted_start_def new_fd_def
        proxy_config_default_def ep_to_sockaddr_def Let_def)
  then obtain e w' where run: "proxy_start scripted_start (\<lambda>_. Some 0x7F000001) proxy_config_default ?w = (Inl e, w')" by blast
  from proxy_start_no_leak [OF scripted_start.start_calls_axioms run] run show ?thesis by auto
qed

end
