(* ===== verification/Process_Exit.thy ===== *)
theory Process_Exit
  imports Netfault_Prelude
begin

text \<open>
  How the three programs end: what they printed, and the exit status. Each \<^verbatim>\<open>main\<close> is one \<^verbatim>\<open>try\<close>
  block whose handler prints \<^verbatim>\<open>what()\<close> of the exception after the program's name and returns
  \<^verbatim>\<open>EXIT_FAILURE\<close>; undefined behaviour is no exception, so it stays a separate outcome.
\<close>

record process_exit =
  px_status :: int
  px_stdout :: string
  px_stderr :: string

definition EXIT_SUCCESS :: int where "EXIT_SUCCESS = 0"
definition EXIT_FAILURE :: int where "EXIT_FAILURE = 1"

fun exn_what :: "exn \<Rightarrow> string option" where
  "exn_what (InvalidArgument m) = Some m"
| "exn_what (OutOfRange m) = Some m"
| "exn_what (RuntimeError m) = Some m"
| "exn_what (UndefinedBehavior m) = None"

text \<open>The handler, given what the program had printed before the exception.\<close>

definition catch_exception :: "string \<Rightarrow> string \<Rightarrow> string \<Rightarrow> exn \<Rightarrow> exn + process_exit" where
  "catch_exception program out err e =
     (case exn_what e of
        None \<Rightarrow> Inl e
      | Some what \<Rightarrow>
          Inr \<lparr>px_status = EXIT_FAILURE, px_stdout = out,
               px_stderr = err @ program @ '': '' @ what @ [CHR 0x0A]\<rparr>)"

definition text_lines :: "string list \<Rightarrow> string" where
  "text_lines ls = concat (map (\<lambda>l. l @ [CHR 0x0A]) ls)"

lemma catch_exception_status:
  assumes "catch_exception program out err e = Inr x"
  shows "px_status x = EXIT_FAILURE" and "px_stdout x = out" and "\<exists>what. exn_what e = Some what \<and>
    px_stderr x = err @ program @ '': '' @ what @ [CHR 0x0A]"
  using assms by (auto simp: catch_exception_def split: option.splits)

lemma exit_codes [simp]: "EXIT_FAILURE \<noteq> EXIT_SUCCESS" "EXIT_SUCCESS \<noteq> EXIT_FAILURE"
  by (simp_all add: EXIT_FAILURE_def EXIT_SUCCESS_def)

end
