(* ===== verification/Proxy_Program.thy ===== *)
theory Proxy_Program
  imports Proxy_Theorems Proxy_Startup Process_Exit
begin

text \<open>
  The whole of \<^verbatim>\<open>netfault-proxy\<close>: \<^verbatim>\<open>main\<close> of \<^verbatim>\<open>src/proxy/main.cpp\<close> with \<^verbatim>\<open>Proxy::run\<close>, composed from the
  command line (theory \<open>Proxy_Config\<close>), the construction of the runtime (\<open>Proxy_Startup\<close>) and the
  event loop (\<open>Proxy_Runtime\<close>). The calls of the event loop work on the four descriptors the
  construction returned, so they are a function of these.
\<close>

section \<open>Model\<close>

definition proxy_help_lines :: "string list" where
  "proxy_help_lines =
     [''NetFault Lab proxy (Milestone 3)'',
      '''',
      ''Usage:'',
      ''  netfault-proxy [options]'',
      '''',
      ''Options:'',
      ''  --listen HOST:PORT       Numeric IPv4 listener (default 127.0.0.1:8080)'',
      ''  --upstream HOST:PORT     Numeric IPv4 upstream (default 127.0.0.1:9000)'',
      ''  --max-connections N      Connection limit (default 256)'',
      ''  --buffer-bytes N         Fixed bytes per direction/connection (default 65536)'',
      ''  --low-water-bytes N      Resume reads at or below this occupancy (default 32768)'',
      ''  --high-water-bytes N     Pause reads at this occupancy (default 65536)'',
      ''  --socket-buffer-bytes N  Set SO_SNDBUF/SO_RCVBUF on upstream sockets; small'',
      ''                            values constrain the upstream path and force'',
      ''                            partial writes for testing (default: kernel'',
      ''                            default)'',
      ''  --connect-timeout-ms N   Fail connections whose upstream connect exceeds N ms'',
      ''                            (default 0 = disabled)'',
      ''  --idle-timeout-ms N      Close connections with no transfer for N ms'',
      ''                            (default 0 = disabled)'',
      ''  --metrics-file PATH      Atomically write a JSON metrics document to PATH on'',
      ''                            SIGUSR1 and at shutdown (default: disabled)'',
      '''',
      ''Fault injection (deterministic; reproducible from the same seed):'',
      ''  --fault-seed N           Master seed for all fault randomness (default 0)'',
      ''  --fault-probability P    Chance each connection receives faults (default 1)'',
      ''  --fault-direction D      both, c2u, or u2c for latency/jitter/rate (default both)'',
      ''  --fault-latency-ms N     Delay forwarded bytes by N ms'',
      ''  --fault-jitter-ms N      Uniform per-chunk jitter in [-N, +N] ms, clamped so'',
      ''                            total delay never goes negative'',
      ''  --fault-rate-bytes-per-sec N'',
      ''                            Token-bucket rate limit per direction'',
      ''  --fault-burst-bytes N    Token-bucket burst (default: one second of tokens)'',
      ''  --fault-reset-after-bytes N'',
      ''                            Reset the connection after N total forwarded bytes'',
      ''  --fault-half-close-after-bytes N'',
      ''                            Half-close toward the client after N bytes reach it'',
      '''',
      ''  --unsafe-allow-non-loopback-listen'',
      ''                            Permit a non-loopback listener after a warning'',
      ''  --unsafe-allow-non-loopback-upstream'',
      ''                            Permit a non-loopback upstream after a warning'',
      ''  --help                    Show this help'',
      '''',
      ''Payload contents are never logged.'']"

definition proxy_help :: string where
  "proxy_help = text_lines proxy_help_lines"

definition proxy_execute ::
  "'w start_os \<Rightarrow> (int \<times> int \<times> int \<times> int \<Rightarrow> 'w os) \<Rightarrow> inet_pton \<Rightarrow> proxy_config \<Rightarrow> 'w \<Rightarrow> (exn + int) option" where
  "proxy_execute start os pton config w =
     (case proxy_start start pton config w of
        (Inl e, w) \<Rightarrow> Some (Inl e)
      | (Inr fds, w) \<Rightarrow>
          (case proxy_run (os fds) pton (runtime_new config) w of
             None \<Rightarrow> None
           | Some (Inl e) \<Rightarrow> Some (Inl e)
           | Some (Inr (status, _)) \<Rightarrow> Some (Inr status)))"

definition proxy_process ::
  "'w start_os \<Rightarrow> (int \<times> int \<times> int \<times> int \<Rightarrow> 'w os) \<Rightarrow> inet_pton \<Rightarrow> (string \<Rightarrow> (double \<times> string) option) \<Rightarrow>
   string list \<Rightarrow> 'w \<Rightarrow> (exn + process_exit) option" where
  "proxy_process start os pton fcd arguments w =
     (case proxy_main pton fcd arguments of
        (printed, Inl e) \<Rightarrow> Some (catch_exception ''netfault-proxy'' [] printed e)
      | (printed, Inr None) \<Rightarrow> Some (Inr \<lparr>px_status = EXIT_SUCCESS, px_stdout = proxy_help, px_stderr = printed\<rparr>)
      | (printed, Inr (Some config)) \<Rightarrow>
          (case proxy_execute start os pton config w of
             None \<Rightarrow> None
           | Some (Inl e) \<Rightarrow> Some (catch_exception ''netfault-proxy'' [] printed e)
           | Some (Inr status) \<Rightarrow> Some (Inr \<lparr>px_status = status, px_stdout = [], px_stderr = printed\<rparr>)))"

section \<open>Lemmas\<close>

lemma proxy_run_status: "proxy_run os pton rt w = Some (Inr (status, rt', w')) \<Longrightarrow> status = EXIT_SUCCESS"
  by (auto simp: proxy_run_def stop_runtime_def EXIT_SUCCESS_def split: option.splits sum.splits prod.splits)

lemma proxy_execute_status: "proxy_execute start os pton config w = Some (Inr status) \<Longrightarrow> status = EXIT_SUCCESS"
  by (auto simp: proxy_execute_def dest: proxy_run_status split: prod.splits sum.splits option.splits)

lemma parse_args_help: "parse_args pton fcd arguments c = Inr ShowHelp \<Longrightarrow> ''--help'' \<in> set arguments"
proof (induction pton fcd arguments c rule: parse_args.induct)
  case (2 pton fcd argument rest c)
  then show ?case by (auto split: if_splits list.splits option.splits sum.splits)
qed simp

lemma proxy_main_help:
  assumes "proxy_main pton fcd arguments = (printed, Inr None)"
  shows "printed = [] \<and> ''--help'' \<in> set arguments"
  using assms parse_args_help [of pton fcd arguments cli_start] unfolding proxy_main_def Let_def
  by (cases "parse_args pton fcd arguments cli_start")
    (auto simp: bind_sum_def split: cli_outcome.splits sum.splits)

section \<open>Properties\<close>

text \<open>
  C26. No accidental exposure, and an honest exit status. Either the command line asks for help or is
  refused, and then the program ends before it makes any system call, with 0 only for the
  help; or the proxy runs with a configuration its constructor accepts, each endpoint of which is a
  loopback address unless the command line contains the explicit unsafe option, in which case the
  warning has been printed. A run that is not ended by an exception exits with 0, one that is exits
  through the handler with the warnings and the message on the standard error.
\<close>

theorem proxy_process_guarded:
  "(\<exists>res. (\<forall>start os (w :: 'w). proxy_process start os pton fcd arguments w = Some res) \<and>
      (res = Inr \<lparr>px_status = EXIT_SUCCESS, px_stdout = proxy_help, px_stderr = []\<rparr> \<and> ''--help'' \<in> set arguments \<or>
       (\<exists>printed e. res = catch_exception ''netfault-proxy'' [] printed e))) \<or>
   (\<exists>config l u. proxy_new pton config = Inr config \<and>
      ep_is_loopback pton (pc_listen config) = Inr l \<and> ep_is_loopback pton (pc_upstream config) = Inr u \<and>
      (l \<or> ''--unsafe-allow-non-loopback-listen'' \<in> set arguments) \<and>
      (u \<or> ''--unsafe-allow-non-loopback-upstream'' \<in> set arguments) \<and>
      (\<forall>start os (w :: 'w). proxy_process start os pton fcd arguments w =
         (let printed = (if l then [] else listen_warning @ [CHR 0x0A]) @ (if u then [] else upstream_warning @ [CHR 0x0A])
          in case proxy_execute start os pton config w of
               None \<Rightarrow> None
             | Some (Inl e) \<Rightarrow> Some (catch_exception ''netfault-proxy'' [] printed e)
             | Some (Inr status) \<Rightarrow> Some (Inr \<lparr>px_status = 0, px_stdout = [], px_stderr = printed\<rparr>))))"
proof -
  obtain printed outcome where main: "proxy_main pton fcd arguments = (printed, outcome)" by fastforce
  consider e where "outcome = Inl e" | "outcome = Inr None" | config where "outcome = Inr (Some config)"
    by (metis option.exhaust sum.exhaust)
  then show ?thesis
  proof cases
    case 3
    from proxy_main_accepts [OF main [unfolded 3]] obtain l u where accepted: "proxy_new pton config = Inr config"
      "ep_is_loopback pton (pc_listen config) = Inr l" "ep_is_loopback pton (pc_upstream config) = Inr u"
      "l \<or> ''--unsafe-allow-non-loopback-listen'' \<in> set arguments" "u \<or> ''--unsafe-allow-non-loopback-upstream'' \<in> set arguments"
      and printed: "printed = warn_unless l listen_warning @ warn_unless u upstream_warning" by blast
    have "proxy_process start os pton fcd arguments w =
        (case proxy_execute start os pton config w of
           None \<Rightarrow> None
         | Some (Inl e) \<Rightarrow> Some (catch_exception ''netfault-proxy'' [] printed e)
         | Some (Inr status) \<Rightarrow> Some (Inr \<lparr>px_status = 0, px_stdout = [], px_stderr = printed\<rparr>))" for start os and w :: 'w
      using proxy_execute_status [of start os pton config w]
      by (auto simp: proxy_process_def main 3 EXIT_SUCCESS_def split: option.splits sum.splits)
    then show ?thesis using accepted unfolding printed warn_unless_def Let_def by blast
  qed (use main proxy_main_help [of pton fcd arguments printed] in \<open>auto simp: proxy_process_def\<close>)
qed

end
