(* ===== verification/Metrics_Export.thy ===== *)
theory Metrics_Export
  imports Proxy_Runtime
begin

text \<open>
  The metrics file of the proxy (\<^verbatim>\<open>write_metrics_file\<close> in \<^verbatim>\<open>src/proxy/proxy.cpp\<close>): the document is written
  to a sibling file and renamed over the target, so that a reader of the target sees the old document
  or the whole new one, never a part.
\<close>

section \<open>Files\<close>

text \<open>
  The calls on files as documented: opening truncates or creates, a write appends at most what it was
  given and only to the file of its descriptor, a rename replaces the target by the source at once,
  a failed call changes nothing. \<open>content\<close> is the contents by path and \<open>bound\<close> the path of an open
  descriptor. Only finitely many writes are interrupted or write nothing.
\<close>

locale file_calls =
  fixes os :: "'w os" and content :: "'w \<Rightarrow> string \<Rightarrow> string option" and bound :: "'w \<Rightarrow> int \<Rightarrow> string option"
    and pending :: "'w \<Rightarrow> nat"
  assumes now_files: "os_now os w = (t, w') \<Longrightarrow> content w' = content w"
    and wall_clock_files: "os_wall_clock os w = (ms, w') \<Longrightarrow> content w' = content w"
    and open_files: "os_open os path w = ((fd, errno), w') \<Longrightarrow>
      (if 0 \<le> fd then content w' = (content w)(path := Some []) \<and> bound w' fd = Some path else content w' = content w)"
    and write_files: "os_write os fd text w = ((n, errno), w') \<Longrightarrow> bound w fd = Some path \<Longrightarrow> content w path = Some contents \<Longrightarrow>
      bound w' fd = Some path \<and> n \<le> int (length text) \<and> content w' = (content w)(path := Some (contents @ take (nat n) text))"
    and write_progress: "os_write os fd text w = ((n, errno), w') \<Longrightarrow>
      text \<noteq> [] \<and> n = 0 \<or> n < 0 \<and> errno = EINTR \<Longrightarrow> pending w' < pending w"
    and close_files: "content (os_close os fd w) = content w"
    and rename_files: "os_rename os source target w = ((result, errno), w') \<Longrightarrow>
      content w' = (if result = 0 then (content w)(target := content w source, source := None) else content w)"
begin

lemma build_metrics_json_files: "build_metrics_json os rt w = (document, w') \<Longrightarrow> content w' = content w"
  using now_files wall_clock_files by (auto simp: build_metrics_json_def Let_def split: prod.splits)

text \<open>While the document is written, only the temporary file changes.\<close>

definition writing :: "int \<Rightarrow> string \<Rightarrow> string \<Rightarrow> 'w \<Rightarrow> nat \<Rightarrow> 'w \<Rightarrow> bool" where
  "writing fd path json w0 offset w \<longleftrightarrow> offset \<le> length json \<and> bound w fd = Some path \<and>
     content w = (content w0)(path := Some (take offset json))"

lemma write_step_writing:
  assumes "writing fd path json w0 offset w" and "offset < length json" and "os_write os fd (drop offset json) w = ((n, errno), w')"
  shows "writing fd path json w0 (offset + nat n) w'"
proof -
  have "content w path = Some (take offset json)" using assms(1) by (simp add: writing_def)
  from write_files [OF assms(3) _ this] assms(1,2) show ?thesis by (auto simp: writing_def take_add)
qed

lemma metrics_write_step_ok:
  assumes "writing fd path json w0 offset w"
  shows "loop_progress (\<lambda>(offset, v). writing fd path json w0 offset v)
    (measures [\<lambda>(offset, v). length json - offset, \<lambda>(offset, v). pending v])
    (\<lambda>(e, v). \<exists>offset. writing fd path json w0 offset v \<and> (e = None \<longrightarrow> offset = length json))
    (offset, w) (metrics_write_step os fd json (offset, w))"
proof (cases "offset < length json")
  case True
  obtain n errno w' where call: "os_write os fd (drop offset json) w = ((n, errno), w')" by (metis prod.collapse)
  note step = write_step_writing [OF assms True call] and prog = write_progress [OF call]
  consider "0 < n" | "n = 0" | "n < 0" "errno = EINTR" | "n < 0" "errno \<noteq> EINTR" by linarith
  then show ?thesis
  proof cases
    case 1
    then show ?thesis using True call step by (auto simp: metrics_write_step_def)
  next
    case 2
    then show ?thesis using True call step prog by (auto simp: metrics_write_step_def)
  next
    case 3
    then show ?thesis using True call step prog by (auto simp: metrics_write_step_def)
  next
    case 4
    then show ?thesis using True call step by (auto simp: metrics_write_step_def)
  qed
next
  case False
  then show ?thesis using assms by (auto simp: metrics_write_step_def writing_def)
qed

lemma metrics_write_ok:
  assumes "writing fd path json w0 0 w"
  shows "\<exists>e w'. run_loop (metrics_write_step os fd json) (0, w) = Some (e, w') \<and>
    (\<exists>offset. writing fd path json w0 offset w' \<and> (e = None \<longrightarrow> offset = length json))"
proof -
  have "\<exists>r. run_loop (metrics_write_step os fd json) (0, w) = Some r \<and>
      (case r of (e, v) \<Rightarrow> \<exists>offset. writing fd path json w0 offset v \<and> (e = None \<longrightarrow> offset = length json))"
    by (rule run_loop_progress [where I = "\<lambda>(offset, v). writing fd path json w0 offset v"
          and R = "measures [\<lambda>(offset, v). length json - offset, \<lambda>(offset, v). pending v]"])
      (use assms metrics_write_step_ok in auto)
  then show ?thesis by auto
qed

lemma metrics_write_reaches:
  assumes "(\<lambda>s s'. metrics_write_step os fd json s = Some (Again s'))\<^sup>*\<^sup>* (0, w) (offset, v)" and "writing fd path json w0 0 w"
  shows "writing fd path json w0 offset v"
  using assms(1)
proof (induction "(offset, v)" arbitrary: offset v rule: rtranclp_induct)
  case base
  then show ?case using assms(2) by simp
next
  case (step s)
  then show ?case using metrics_write_step_ok [of fd path json w0 "fst s" "snd s"] by (cases s) auto
qed

lemma write_metrics_file_atomic:
  assumes config: "pc_metrics_file (rt_config rt) = path" "path \<noteq> []"
    and doc: "build_metrics_json os rt w = (document, w1)" and op: "os_open os (path @ ''.tmp'') w1 = ((fd, errno), w2)"
  shows "\<exists>rt' w'. write_metrics_file os rt w = Some (rt', w') \<and>
    (\<exists>entry. rt_log rt' = rt_log rt @ [entry] \<and>
       content w' path = (if le_event entry = ''metrics_file_written'' then Some (document @ [CHR 0x0A]) else content w path)) \<and>
    (\<forall>other. other \<noteq> path \<and> other \<noteq> path @ ''.tmp'' \<longrightarrow> content w' other = content w other) \<and>
    (\<forall>offset v. 0 \<le> fd \<and> (\<lambda>s s'. metrics_write_step os fd (document @ [CHR 0x0A]) s = Some (Again s'))\<^sup>*\<^sup>* (0, w2) (offset, v) \<longrightarrow>
       content v path = content w path)"
proof -
  let ?json = "document @ [CHR 0x0A]" and ?tmp = "path @ ''.tmp''"
  have f1: "content w1 = content w" by (rule build_metrics_json_files [OF doc])
  show ?thesis
  proof (cases "0 \<le> fd")
    case False
    then show ?thesis using config doc op f1 open_files [OF op] by (simp add: write_metrics_file_def Let_def log_event_def)
  next
    case True
    have wr: "writing fd ?tmp ?json w 0 w2" using True open_files [OF op] f1 by (simp add: writing_def)
    obtain e w3 offset where run: "run_loop (metrics_write_step os fd ?json) (0, w2) = Some (e, w3)"
      "writing fd ?tmp ?json w offset w3" "e = None \<longrightarrow> offset = length ?json" using metrics_write_ok [OF wr] by blast
    have w3: "content (os_close os fd w3) = (content w)(?tmp := Some (take offset ?json))"
      using run(2) by (simp add: writing_def close_files)
    obtain res err w4 where re: "os_rename os ?tmp path (os_close os fd w3) = ((res, err), w4)" by (metis prod.collapse)
    have mid: "content v path = content w path"
      if "(\<lambda>s s'. metrics_write_step os fd ?json s = Some (Again s'))\<^sup>*\<^sup>* (0, w2) (k, v)" for k v
      using metrics_write_reaches [OF that wr] by (simp add: writing_def)
    show ?thesis
    proof (cases e)
      case (Some x)
      then have "write_metrics_file os rt w = Some (log_event rt ''metrics_file_failed'' 0 ''failed'' (''write='' @ os_strerror os x), os_close os fd w3)"
        using True config doc op run(1) by (simp add: write_metrics_file_def)
      then show ?thesis using w3 mid by (simp add: log_event_def) blast
    next
      case None
      then have json: "take offset ?json = ?json" using run(3) by simp
      have "write_metrics_file os rt w =
          Some (if res \<noteq> 0 then log_event rt ''metrics_file_failed'' 0 ''failed'' (''rename='' @ os_strerror os err)
                else log_event rt ''metrics_file_written'' 0 ''listening'' (''bytes='' @ nat_to_string (length ?json)), w4)"
        using True None config doc op run(1) re by (simp add: write_metrics_file_def)
      then show ?thesis using w3 mid rename_files [OF re] json by (cases "res = 0") (simp add: log_event_def, blast)+
    qed
  qed
qed

end

section \<open>A file system\<close>

text \<open>Files and descriptors in memory; every write takes at most four characters.\<close>

type_synonym file_world = "(string \<Rightarrow> string option) \<times> (int \<Rightarrow> string option)"

definition file_os :: "file_world os" where
  "file_os =
     \<lparr>os_io = \<lparr>io_receive = (\<lambda>fd buffer w. Some (\<lparr>io_status = WouldBlock, io_bytes = 0, io_error = 0\<rparr>, buffer, w)),
               io_send = (\<lambda>fd data w. Some (\<lparr>io_status = WouldBlock, io_bytes = 0, io_error = 0\<rparr>, w)),
               io_shutdown_write = (\<lambda>fd w. (True, w))\<rparr>,
      os_strerror = (\<lambda>_. []), os_now = (\<lambda>w. (0, w)), os_accept = (\<lambda>w. ((- 1, EAGAIN), w)),
      os_socket = (\<lambda>w. ((- 1, 0), w)), os_set_sndbuf = (\<lambda>_ _ w. ((0, 0), w)), os_set_rcvbuf = (\<lambda>_ _ w. ((0, 0), w)), os_connect = (\<lambda>_ _ w. ((0, 0), w)),
      os_socket_error = (\<lambda>_ w. ((0, 0, 0), w)), os_epoll_add = (\<lambda>_ _ _ w. ((0, 0), w)),
      os_epoll_mod = (\<lambda>_ _ _ w. ((0, 0), w)), os_epoll_del = (\<lambda>_ w. w), os_close = (\<lambda>_ w. w),
      os_timer_set = (\<lambda>_ w. ((0, 0), w)), os_epoll_wait = (\<lambda>w. ((0, 0, []), w)),
      os_read_signal = (\<lambda>w. ((128, 0, 10), w)), os_read_timer = (\<lambda>w. ((8, 0), w)), os_wall_clock = (\<lambda>w. (0, w)),
      os_open = (\<lambda>path (files, fds). ((7, 0), (files(path := Some []), fds(7 := Some path)))),
      os_write = (\<lambda>fd text (files, fds). let n = min 4 (length text) in
         ((int n, 0), (case fds fd of None \<Rightarrow> files
            | Some path \<Rightarrow> files(path := map_option (\<lambda>c. c @ take n text) (files path)), fds))),
      os_rename = (\<lambda>source target (files, fds). ((0, 0), (files(target := files source, source := None), fds))),
      os_dropped_events = (\<lambda>_. 0)\<rparr>"

interpretation memory_files: file_calls file_os fst snd "\<lambda>_. 0"
  by unfold_locales (auto simp: file_os_def Let_def min_def split: prod.splits if_splits)

section \<open>Properties\<close>

text \<open>
  C19. The metrics file is replaced atomically. Writing the metrics returns and logs one event. If the
  event is a success, the target holds exactly the document and a final newline; otherwise the target
  is what it was. In every state of the write loop the target is still the old file, and no file but
  the target and its temporary sibling ever changes.
\<close>

theorem metrics_export_atomic:
  assumes "file_calls os content bound pending" and "pc_metrics_file (rt_config rt) = path" and "path \<noteq> []"
    and "build_metrics_json os rt w = (document, w1)" and "os_open os (path @ ''.tmp'') w1 = ((fd, errno), w2)"
  shows "\<exists>rt' w'. write_metrics_file os rt w = Some (rt', w') \<and>
    (\<exists>entry. rt_log rt' = rt_log rt @ [entry] \<and>
       content w' path = (if le_event entry = ''metrics_file_written'' then Some (document @ [CHR 0x0A]) else content w path)) \<and>
    (\<forall>other. other \<noteq> path \<and> other \<noteq> path @ ''.tmp'' \<longrightarrow> content w' other = content w other) \<and>
    (\<forall>offset v. 0 \<le> fd \<and> (\<lambda>s s'. metrics_write_step os fd (document @ [CHR 0x0A]) s = Some (Again s'))\<^sup>*\<^sup>* (0, w2) (offset, v) \<longrightarrow>
       content v path = content w path)"
  by (rule file_calls.write_metrics_file_atomic [OF assms])

theorem metrics_export_atomic_witness:
  "\<exists>rt' w' entry. write_metrics_file file_os (runtime_new (proxy_config_default\<lparr>pc_metrics_file := ''m''\<rparr>)) (Map.empty, Map.empty) =
     Some (rt', w') \<and> rt_log rt' = [entry] \<and> fst w' ''other'' = None"
proof -
  let ?rt = "runtime_new (proxy_config_default\<lparr>pc_metrics_file := ''m''\<rparr>)"
  obtain document w1 where doc: "build_metrics_json file_os ?rt (Map.empty, Map.empty) = (document, w1)" by (metis prod.collapse)
  obtain fd errno w2 where op: "os_open file_os (''m'' @ ''.tmp'') w1 = ((fd, errno), w2)" by (metis prod.collapse)
  have cfg: "pc_metrics_file (rt_config ?rt) = ''m''" "''m'' \<noteq> []" "rt_log ?rt = []" by (simp_all add: runtime_new_def)
  from metrics_export_atomic [OF memory_files.file_calls_axioms cfg(1,2) doc op] cfg(3) show ?thesis by auto
qed

end
