(* ===== verification/Unique_Fd.thy ===== *)
theory Unique_Fd
  imports Netfault_Prelude
begin

text \<open>
  \<^verbatim>\<open>include/netfault/unique_fd.hpp\<close>: the owning wrapper every descriptor of the program lives in.
  The objects are cells of a store, because move assignment compares addresses; the kernel's view
  is the set of open descriptors, from which a close removes and into which a later call may put
  the same number again, so that closing twice is observable as a close of a descriptor that is not
  open (or of somebody else's). Descriptors outside any object, fresh from a system call or
  released, are tracked beside the store; the steps say what a client of the class may do.
\<close>

section \<open>The class\<close>

record fd_store =
  fs_open :: "int set" \<comment> \<open>descriptors the process has open\<close>
  fs_objects :: "nat \<rightharpoonup> int" \<comment> \<open>\<^verbatim>\<open>fd_\<close> of each live object, by address\<close>
  fs_loose :: "int set" \<comment> \<open>open descriptors that are a plain \<^verbatim>\<open>int\<close> in the program\<close>
  fs_bad_closes :: nat \<comment> \<open>calls of \<^verbatim>\<open>close\<close> on a descriptor that was not open\<close>

definition fd_store_empty :: fd_store where
  "fd_store_empty = \<lparr>fs_open = {}, fs_objects = Map.empty, fs_loose = {}, fs_bad_closes = 0\<rparr>"

definition close_fd :: "int \<Rightarrow> fd_store \<Rightarrow> fd_store" where
  "close_fd fd s = (if fd \<in> fs_open s then s\<lparr>fs_open := fs_open s - {fd}\<rparr>
     else s\<lparr>fs_bad_closes := fs_bad_closes s + 1\<rparr>)"

definition ufd_set :: "nat \<Rightarrow> int \<Rightarrow> fd_store \<Rightarrow> fd_store" where
  "ufd_set a fd s = s\<lparr>fs_objects := (fs_objects s)(a \<mapsto> fd)\<rparr>"

text \<open>The operations are meant for live objects; on any other address they do nothing.\<close>

definition ufd_default :: "nat \<Rightarrow> fd_store \<Rightarrow> fd_store" where
  "ufd_default a s = ufd_set a (- 1) s"

definition ufd_construct :: "nat \<Rightarrow> int \<Rightarrow> fd_store \<Rightarrow> fd_store" where
  "ufd_construct a fd s = ufd_set a fd s"

definition ufd_get :: "nat \<Rightarrow> fd_store \<Rightarrow> int" where
  "ufd_get a s = (case fs_objects s a of None \<Rightarrow> - 1 | Some fd \<Rightarrow> fd)"

definition ufd_bool :: "nat \<Rightarrow> fd_store \<Rightarrow> bool" where
  "ufd_bool a s \<longleftrightarrow> ufd_get a s \<ge> 0"

definition ufd_release :: "nat \<Rightarrow> fd_store \<Rightarrow> int \<times> fd_store" where
  "ufd_release a s = (case fs_objects s a of None \<Rightarrow> (- 1, s) | Some fd \<Rightarrow> (fd, ufd_set a (- 1) s))"

definition ufd_reset :: "nat \<Rightarrow> int \<Rightarrow> fd_store \<Rightarrow> fd_store" where
  "ufd_reset a replacement s =
     (case fs_objects s a of
        None \<Rightarrow> s
      | Some fd \<Rightarrow> ufd_set a replacement (if fd \<ge> 0 then close_fd fd s else s))"

definition ufd_destroy :: "nat \<Rightarrow> fd_store \<Rightarrow> fd_store" where
  "ufd_destroy a s = (let s = ufd_reset a (- 1) s in s\<lparr>fs_objects := (fs_objects s)(a := None)\<rparr>)"

definition ufd_move_construct :: "nat \<Rightarrow> nat \<Rightarrow> fd_store \<Rightarrow> fd_store" where
  "ufd_move_construct a other s = (let (fd, s) = ufd_release other s in ufd_set a fd s)"

definition ufd_move_assign :: "nat \<Rightarrow> nat \<Rightarrow> fd_store \<Rightarrow> fd_store" where
  "ufd_move_assign a other s =
     (if a \<noteq> other then let (fd, s) = ufd_release other s in ufd_reset a fd s else s)"

section \<open>Clients\<close>

text \<open>
  What a client may do: obtain a descriptor from the kernel, which is not one that is open; wrap or
  reset to a loose descriptor (or to a negative number, the result of a failed call), which is then
  no longer loose; and use the class. Objects are constructed at free addresses and used while they
  live; copying is deleted.
\<close>

definition loose_add :: "int \<Rightarrow> fd_store \<Rightarrow> fd_store" where
  "loose_add fd s = (if 0 \<le> fd then s\<lparr>fs_loose := insert fd (fs_loose s)\<rparr> else s)"

inductive fd_step :: "fd_store \<Rightarrow> fd_store \<Rightarrow> bool" where
  sys_open: "0 \<le> fd \<Longrightarrow> fd \<notin> fs_open s \<Longrightarrow>
    fd_step s (s\<lparr>fs_open := insert fd (fs_open s), fs_loose := insert fd (fs_loose s)\<rparr>)"
| default: "fs_objects s a = None \<Longrightarrow> fd_step s (ufd_default a s)"
| construct: "fs_objects s a = None \<Longrightarrow> fd \<in> fs_loose s \<or> fd < 0 \<Longrightarrow>
    fd_step s (ufd_construct a fd (s\<lparr>fs_loose := fs_loose s - {fd}\<rparr>))"
| move_construct: "fs_objects s a = None \<Longrightarrow> fs_objects s b \<noteq> None \<Longrightarrow> fd_step s (ufd_move_construct a b s)"
| move_assign: "fs_objects s a \<noteq> None \<Longrightarrow> fs_objects s b \<noteq> None \<Longrightarrow> fd_step s (ufd_move_assign a b s)"
| release: "fs_objects s a \<noteq> None \<Longrightarrow> ufd_release a (loose_add (ufd_get a s) s) = (fd, s') \<Longrightarrow> fd_step s s'"
| reset: "fs_objects s a \<noteq> None \<Longrightarrow> fd \<in> fs_loose s \<or> fd < 0 \<Longrightarrow>
    fd_step s (ufd_reset a fd (s\<lparr>fs_loose := fs_loose s - {fd}\<rparr>))"
| destroy: "fs_objects s a \<noteq> None \<Longrightarrow> fd_step s (ufd_destroy a s)"

definition fd_reachable :: "fd_store \<Rightarrow> bool" where
  "fd_reachable s \<longleftrightarrow> fd_step\<^sup>*\<^sup>* fd_store_empty s"

section \<open>Ownership\<close>

definition fd_owned :: "fd_store \<Rightarrow> bool" where
  "fd_owned s \<longleftrightarrow> fs_bad_closes s = 0 \<and>
     (\<forall>a b fd. fs_objects s a = Some fd \<longrightarrow> fs_objects s b = Some fd \<longrightarrow> 0 \<le> fd \<longrightarrow> a = b) \<and>
     (\<forall>a fd. fs_objects s a = Some fd \<longrightarrow> 0 \<le> fd \<longrightarrow> fd \<in> fs_open s \<and> fd \<notin> fs_loose s) \<and>
     (\<forall>fd. fd \<in> fs_loose s \<longrightarrow> 0 \<le> fd \<and> fd \<in> fs_open s) \<and>
     (\<forall>fd. fd \<in> fs_open s \<longrightarrow> 0 \<le> fd \<and> (fd \<in> fs_loose s \<or> (\<exists>a. fs_objects s a = Some fd)))"

lemmas ufd_defs = ufd_default_def ufd_construct_def ufd_set_def ufd_release_def ufd_reset_def ufd_destroy_def
  ufd_move_construct_def ufd_move_assign_def close_fd_def

lemma fd_owned_empty: "fd_owned fd_store_empty"
  by (simp add: fd_owned_def fd_store_empty_def)

text \<open>
  Every operation is composed of four moves: an object gives its descriptor away, a loose
  descriptor gets an owner, a loose descriptor is closed, an object that owns nothing disappears.
\<close>

lemma fd_ownedI:
  assumes "fs_bad_closes s = 0"
    and "\<And>a b fd. fs_objects s a = Some fd \<Longrightarrow> fs_objects s b = Some fd \<Longrightarrow> 0 \<le> fd \<Longrightarrow> a = b"
    and "\<And>a fd. fs_objects s a = Some fd \<Longrightarrow> 0 \<le> fd \<Longrightarrow> fd \<in> fs_open s"
    and "\<And>a fd. fs_objects s a = Some fd \<Longrightarrow> fd \<notin> fs_loose s"
    and "\<And>fd. fd \<in> fs_loose s \<Longrightarrow> 0 \<le> fd \<and> fd \<in> fs_open s"
    and "\<And>fd. fd \<in> fs_open s \<Longrightarrow> fd \<notin> fs_loose s \<Longrightarrow> \<exists>a. fs_objects s a = Some fd"
    and "\<And>fd. fd \<in> fs_open s \<Longrightarrow> 0 \<le> fd"
  shows "fd_owned s"
  using assms unfolding fd_owned_def by blast

lemma fd_ownedD:
  assumes "fd_owned s"
  shows "fs_bad_closes s = 0"
    and "fs_objects s a = Some fd \<Longrightarrow> fs_objects s b = Some fd \<Longrightarrow> 0 \<le> fd \<Longrightarrow> a = b"
    and "fs_objects s a = Some fd \<Longrightarrow> 0 \<le> fd \<Longrightarrow> fd \<in> fs_open s"
    and "fs_objects s a = Some fd \<Longrightarrow> fd \<notin> fs_loose s"
    and "fd \<in> fs_loose s \<Longrightarrow> 0 \<le> fd \<and> fd \<in> fs_open s"
    and "fd \<in> fs_open s \<Longrightarrow> fd \<notin> fs_loose s \<Longrightarrow> \<exists>a. fs_objects s a = Some fd"
    and "fd \<in> fs_open s \<Longrightarrow> 0 \<le> fd"
  using assms unfolding fd_owned_def by (metis not_le)+

lemma fd_owned_give:
  assumes "fd_owned s" and "fs_objects s a = Some fd" and "0 \<le> fd"
  shows "fd_owned (ufd_set a (- 1) (s\<lparr>fs_loose := insert fd (fs_loose s)\<rparr>))" (is "fd_owned ?s")
proof (rule fd_ownedI)
  note D = fd_ownedD [OF assms(1)]
  show "fs_bad_closes ?s = 0" using D(1) by (simp add: ufd_set_def)
  show "b = c" if "fs_objects ?s b = Some x" "fs_objects ?s c = Some x" "0 \<le> x" for b c x
    using that D(2) by (auto simp: ufd_set_def split: if_splits)
  show "x \<in> fs_open ?s" if "fs_objects ?s b = Some x" "0 \<le> x" for b x
    using that D(3) by (auto simp: ufd_set_def split: if_splits)
  show "x \<notin> fs_loose ?s" if "fs_objects ?s b = Some x" for b x
  proof (cases "b = a")
    case True
    then show ?thesis using that D(5) [of "- 1"] assms(3) by (auto simp: ufd_set_def)
  next
    case False
    then show ?thesis using that D(4) [of b x] D(2) [OF assms(2), of b] assms(3) by (auto simp: ufd_set_def)
  qed
  show "0 \<le> x \<and> x \<in> fs_open ?s" if "x \<in> fs_loose ?s" for x
    using that D(5) [of x] D(3) [OF assms(2,3)] assms(3) by (auto simp: ufd_set_def)
  show "\<exists>b. fs_objects ?s b = Some x" if x: "x \<in> fs_open ?s" "x \<notin> fs_loose ?s" for x
  proof -
    obtain b where "fs_objects s b = Some x" using x D(6) [of x] by (auto simp: ufd_set_def)
    moreover have "x \<noteq> fd" using x by (auto simp: ufd_set_def)
    ultimately have "fs_objects ?s b = Some x" using assms(2) by (auto simp: ufd_set_def)
    then show ?thesis ..
  qed
  show "0 \<le> x" if "x \<in> fs_open ?s" for x using that D(7) by (simp add: ufd_set_def)
qed

lemma fd_owned_adopt:
  assumes "fd_owned s" and "fd \<in> fs_loose s \<or> fd < 0" and "\<And>x. fs_objects s a = Some x \<Longrightarrow> x < 0"
  shows "fd_owned (ufd_set a fd (s\<lparr>fs_loose := fs_loose s - {fd}\<rparr>))" (is "fd_owned ?s")
proof (rule fd_ownedI)
  note D = fd_ownedD [OF assms(1)]
  have no: "fs_objects s b \<noteq> Some fd" if "0 \<le> fd" for b using assms(2) D(4) [of b fd] that by auto
  show "fs_bad_closes ?s = 0" using D(1) by (simp add: ufd_set_def)
  show "b = c" if "fs_objects ?s b = Some x" "fs_objects ?s c = Some x" "0 \<le> x" for b c x
    using that D(2) [of b x c] no by (auto simp: ufd_set_def split: if_splits)
  show "x \<in> fs_open ?s" if "fs_objects ?s b = Some x" "0 \<le> x" for b x
    using that D(3) [of b x] D(5) [of x] assms(2) by (auto simp: ufd_set_def split: if_splits)
  show "x \<notin> fs_loose ?s" if "fs_objects ?s b = Some x" for b x
    using that D(4) [of b x] by (auto simp: ufd_set_def split: if_splits)
  show "0 \<le> x \<and> x \<in> fs_open ?s" if "x \<in> fs_loose ?s" for x
    using that D(5) [of x] by (auto simp: ufd_set_def)
  show "\<exists>b. fs_objects ?s b = Some x" if x: "x \<in> fs_open ?s" "x \<notin> fs_loose ?s" for x
  proof (cases "x = fd")
    case True
    then show ?thesis by (auto simp: ufd_set_def)
  next
    case False
    then obtain b where b: "fs_objects s b = Some x" using x D(6) [of x] by (auto simp: ufd_set_def)
    have "b \<noteq> a"
    proof
      assume "b = a"
      then have "x < 0" using b assms(3) by simp
      then show False using x(1) D(7) [of x] by (simp add: ufd_set_def)
    qed
    then show ?thesis using b by (auto simp: ufd_set_def)
  qed
  show "0 \<le> x" if "x \<in> fs_open ?s" for x using that D(7) by (simp add: ufd_set_def)
qed

lemma fd_owned_close:
  assumes "fd_owned s" and "fd \<in> fs_loose s"
  shows "fd_owned (close_fd fd (s\<lparr>fs_loose := fs_loose s - {fd}\<rparr>))" (is "fd_owned ?s")
proof (rule fd_ownedI)
  note D = fd_ownedD [OF assms(1)]
  have open_fd: "fd \<in> fs_open s" using D(5) [OF assms(2)] by simp
  then show "fs_bad_closes ?s = 0" using D(1) by (simp add: close_fd_def)
  show "x \<in> fs_open ?s" if "fs_objects ?s b = Some x" "0 \<le> x" for b x
    using that open_fd D(3,4) [of b x] assms(2) by (auto simp: close_fd_def)
  have same: "fs_objects ?s = fs_objects s" "fs_loose ?s = fs_loose s - {fd}" "fs_open ?s = fs_open s - {fd}"
    using open_fd by (simp_all add: close_fd_def)
  show "b = c" if "fs_objects ?s b = Some x" "fs_objects ?s c = Some x" "0 \<le> x" for b c x
    using that D(2) same(1) by simp
  show "x \<notin> fs_loose ?s" if "fs_objects ?s b = Some x" for b x using that D(4) same by simp
  show "0 \<le> x \<and> x \<in> fs_open ?s" if "x \<in> fs_loose ?s" for x using that D(5) [of x] same by simp
  show "\<exists>b. fs_objects ?s b = Some x" if "x \<in> fs_open ?s" "x \<notin> fs_loose ?s" for x
    using that D(6) [of x] same by simp
  show "0 \<le> x" if "x \<in> fs_open ?s" for x using that D(7) same by simp
qed

lemma fd_owned_forget:
  assumes "fd_owned s" and "fs_objects s a = Some (- 1)"
  shows "fd_owned (s\<lparr>fs_objects := (fs_objects s)(a := None)\<rparr>)" (is "fd_owned ?s")
proof (rule fd_ownedI)
  note D = fd_ownedD [OF assms(1)]
  show "\<exists>b. fs_objects ?s b = Some x" if x: "x \<in> fs_open ?s" "x \<notin> fs_loose ?s" for x
  proof -
    obtain b where b: "fs_objects s b = Some x" using x D(6) [of x] by auto
    show ?thesis using b assms(2) x D(7) [of x] by (cases "b = a") auto
  qed
  show "b = c" if "fs_objects ?s b = Some x" "fs_objects ?s c = Some x" "0 \<le> x" for b c x
    using that D(2) [of b x c] by (auto split: if_splits)
  show "x \<in> fs_open ?s" if "fs_objects ?s b = Some x" "0 \<le> x" for b x
    using that D(3) [of b x] by (auto split: if_splits)
  show "x \<notin> fs_loose ?s" if "fs_objects ?s b = Some x" for b x using that D(4) [of b x] by (auto split: if_splits)
  show "0 \<le> x" if "x \<in> fs_open ?s" for x using that D(7) by simp
qed (use fd_ownedD(1,5) [OF assms(1)] in simp_all)

text \<open>The operations as compositions of these moves.\<close>

lemma fd_owned_release:
  assumes "fd_owned s" and "fs_objects s a = Some fd"
  shows "fd_owned (ufd_set a (- 1) (loose_add fd s))"
proof (cases "0 \<le> fd")
  case True
  then show ?thesis using fd_owned_give [OF assms] by (simp add: loose_add_def)
next
  case False
  have "- 1 \<notin> fs_loose s" using fd_ownedD(5) [OF assms(1), of "- 1"] by auto
  then show ?thesis using False fd_owned_adopt [OF assms(1), of "- 1" a] assms(2) by (simp add: loose_add_def)
qed

lemma fd_owned_reset:
  assumes "fd_owned s" and old: "fs_objects s a = Some old" and fd: "fd \<in> fs_loose s \<or> fd < 0"
  shows "fd_owned (ufd_reset a fd (s\<lparr>fs_loose := fs_loose s - {fd}\<rparr>))"
proof -
  let ?s1 = "ufd_set a (- 1) (loose_add old s)"
  let ?s2 = "if 0 \<le> old then close_fd old (?s1\<lparr>fs_loose := fs_loose ?s1 - {old}\<rparr>) else ?s1"
  have loose: "old \<notin> fs_loose s" by (rule fd_ownedD(4) [OF assms(1) old])
  have s1: "fd_owned ?s1" by (rule fd_owned_release [OF assms(1,2)])
  have s2: "fd_owned ?s2"
    using s1 fd_owned_close [OF s1, of old] by (auto simp: loose_add_def ufd_set_def)
  have same: "fs_loose ?s2 = fs_loose s" "fs_objects ?s2 a = Some (- 1)"
    using loose by (auto simp: loose_add_def ufd_set_def close_fd_def)
  have "fd_owned (ufd_set a fd (?s2\<lparr>fs_loose := fs_loose ?s2 - {fd}\<rparr>))"
    by (rule fd_owned_adopt [OF s2]) (use fd same in auto)
  moreover have "ufd_reset a fd (s\<lparr>fs_loose := fs_loose s - {fd}\<rparr>) = ufd_set a fd (?s2\<lparr>fs_loose := fs_loose ?s2 - {fd}\<rparr>)"
    using old same(1) by (auto simp: ufd_reset_def ufd_set_def loose_add_def close_fd_def)
  ultimately show ?thesis by simp
qed

lemma fd_step_owned:
  assumes "fd_step s s'" and "fd_owned s"
  shows "fd_owned s'"
  using assms
proof (induction rule: fd_step.induct)
  case (sys_open fd s)
  then show ?case by (intro fd_ownedI) (auto dest: fd_ownedD)
next
  case (default s a)
  have "- 1 \<notin> fs_loose s" using fd_ownedD(5) [OF default(2), of "- 1"] by auto
  then show ?case using fd_owned_adopt [OF default(2), of "- 1" a] default(1) by (simp add: ufd_default_def)
next
  case (construct s a fd)
  then show ?case using fd_owned_adopt [of s fd a] by (simp add: ufd_construct_def)
next
  case (move_construct s a b)
  then obtain fd where fd: "fs_objects s b = Some fd" and ne: "a \<noteq> b" by fastforce
  have "fd_owned (ufd_set a fd ((ufd_set b (- 1) (loose_add fd s))\<lparr>fs_loose := fs_loose (loose_add fd s) - {fd}\<rparr>))"
    using fd_owned_adopt [OF fd_owned_release [OF move_construct(3) fd], of fd a] move_construct(1) ne
    by (cases "0 \<le> fd") (auto simp: loose_add_def ufd_set_def)
  moreover have "fd \<notin> fs_loose s" by (rule fd_ownedD(4) [OF move_construct(3) fd])
  ultimately show ?case using fd by (simp add: ufd_move_construct_def ufd_release_def ufd_set_def loose_add_def split: if_splits)
next
  case (move_assign s a b)
  then obtain fd old where fd: "fs_objects s b = Some fd" and old: "fs_objects s a = Some old" by auto
  show ?case
  proof (cases "a = b")
    case True
    then show ?thesis using move_assign by (simp add: ufd_move_assign_def)
  next
    case False
    have "fd_owned (ufd_reset a fd ((ufd_set b (- 1) (loose_add fd s))\<lparr>fs_loose := fs_loose (loose_add fd s) - {fd}\<rparr>))"
      using fd_owned_reset [OF fd_owned_release [OF move_assign(3) fd], of a old fd] old False
      by (cases "0 \<le> fd") (auto simp: loose_add_def ufd_set_def)
    moreover have "fd \<notin> fs_loose s" by (rule fd_ownedD(4) [OF move_assign(3) fd])
    ultimately show ?thesis using fd False
      by (simp add: ufd_move_assign_def ufd_release_def ufd_set_def loose_add_def split: if_splits)
  qed
next
  case (release s a fd s')
  then obtain x where x: "fs_objects s a = Some x" by auto
  then have "s' = ufd_set a (- 1) (loose_add x s)"
    using release(2) by (auto simp: ufd_release_def ufd_get_def loose_add_def split: if_splits)
  then show ?case using fd_owned_release [OF release(3) x] by simp
next
  case (reset s a fd)
  then show ?case using fd_owned_reset by blast
next
  case (destroy s a)
  then obtain fd where fd: "fs_objects s a = Some fd" by auto
  have "- 1 \<notin> fs_loose s" using fd_ownedD(5) [OF destroy(2), of "- 1"] by auto
  then have "fd_owned (ufd_reset a (- 1) s)" using fd_owned_reset [OF destroy(2) fd, of "- 1"] by simp
  moreover have "fs_objects (ufd_reset a (- 1) s) a = Some (- 1)" using fd by (simp add: ufd_reset_def ufd_set_def)
  ultimately show ?case using fd_owned_forget by (simp add: ufd_destroy_def Let_def)
qed

section \<open>Properties\<close>

text \<open>
  C21. Every descriptor has exactly one owner. In every state a program can reach through the class:
  no \<^verbatim>\<open>close\<close> was ever called on a descriptor that was not open; two objects never hold the same
  descriptor; a descriptor is open exactly if one object holds it or it is loose, never both. So
  when no object is left and nothing is loose, nothing is open: no leak and no double close, also
  when the kernel hands a closed number out again and for assignments of an object to itself.
\<close>

theorem ufd_single_owner:
  assumes "fd_reachable s"
  shows "fs_bad_closes s = 0 \<and>
    (\<forall>a b fd. fs_objects s a = Some fd \<and> fs_objects s b = Some fd \<and> 0 \<le> fd \<longrightarrow> a = b) \<and>
    (\<forall>fd. fd \<in> fs_open s \<longleftrightarrow> fd \<in> fs_loose s \<or> 0 \<le> fd \<and> (\<exists>a. fs_objects s a = Some fd)) \<and>
    (\<forall>a fd. fs_objects s a = Some fd \<longrightarrow> fd \<notin> fs_loose s) \<and>
    (fs_objects s = Map.empty \<and> fs_loose s = {} \<longrightarrow> fs_open s = {})"
proof -
  have "fd_step\<^sup>*\<^sup>* fd_store_empty s" using assms by (simp add: fd_reachable_def)
  then have owned: "fd_owned s"
    by (induction rule: rtranclp_induct) (simp_all add: fd_owned_empty fd_step_owned)
  note D = fd_ownedD [OF owned]
  have "fd \<in> fs_open s \<longleftrightarrow> fd \<in> fs_loose s \<or> 0 \<le> fd \<and> (\<exists>a. fs_objects s a = Some fd)" for fd
    using D(3,5,6,7) by blast
  moreover have "fs_open s = {}" if "fs_objects s = Map.empty" "fs_loose s = {}" using that D(6) by fastforce
  ultimately show ?thesis using D(1,2,4) by blast
qed

text \<open>A descriptor is opened, wrapped, moved to a second object, moved onto itself and closed.\<close>

definition ufd_example :: "nat \<Rightarrow> fd_store" where
  "ufd_example n =
     (let s0 = fd_store_empty\<lparr>fs_open := {3}, fs_loose := {3}\<rparr>;
          s1 = ufd_construct 0 3 (s0\<lparr>fs_loose := {}\<rparr>);
          s2 = ufd_move_construct 1 0 s1;
          s3 = ufd_move_assign 1 1 s2;
          s4 = ufd_destroy 0 s3
      in if n = 0 then s0 else if n = 1 then s1 else if n = 2 then s2 else if n = 3 then s3 else s4)"

lemma ufd_example_reachable: "fd_reachable (ufd_example 4)"
proof -
  have "fd_step fd_store_empty (ufd_example 0)"
    using fd_step.sys_open [of 3 fd_store_empty] by (simp add: ufd_example_def fd_store_empty_def)
  moreover have "fd_step (ufd_example 0) (ufd_example 1)"
    using fd_step.construct [of "ufd_example 0" 0 3] by (simp add: ufd_example_def fd_store_empty_def)
  moreover have "fd_step (ufd_example 1) (ufd_example 2)"
    using fd_step.move_construct [of "ufd_example 1" 1 0] by (simp add: ufd_example_def fd_store_empty_def ufd_defs)
  moreover have "fd_step (ufd_example 2) (ufd_example 3)"
    using fd_step.move_assign [of "ufd_example 2" 1 1] by (simp add: ufd_example_def fd_store_empty_def ufd_defs)
  moreover have "fd_step (ufd_example 3) (ufd_example 4)"
    using fd_step.destroy [of "ufd_example 3" 0] by (simp add: ufd_example_def fd_store_empty_def ufd_defs)
  ultimately show ?thesis unfolding fd_reachable_def by (meson rtranclp.rtrancl_into_rtrancl rtranclp.rtrancl_refl)
qed

theorem ufd_single_owner_witness:
  "fd_reachable (ufd_example 4) \<and> fs_objects (ufd_example 4) 1 = Some 3 \<and> fs_bad_closes (ufd_example 4) = 0 \<and>
   3 \<in> fs_open (ufd_example 4)"
proof -
  have "fs_objects (ufd_example 4) 1 = Some 3" by (simp add: ufd_example_def fd_store_empty_def ufd_defs)
  with ufd_single_owner [OF ufd_example_reachable] ufd_example_reachable show ?thesis by auto
qed

end
