(* ===== verification/Mersenne_Twister.thy ===== *)
theory Mersenne_Twister
  imports Netfault_Prelude
begin

text \<open>
  The generator \<^verbatim>\<open>std::mt19937_64\<close> of the C++ standard library, with the parameters the standard fixes
  for it: the load client fills its requests with the low bytes of its output. The state is the
  window of the last 312 words; each call appends the next word of the recurrence, drops the oldest
  and returns the new word tempered.
\<close>

unbundle bit_operations_syntax

type_synonym mt_state = "u64 list"

fun mt_seed_words :: "nat \<Rightarrow> nat \<Rightarrow> u64 \<Rightarrow> u64 list" where
  "mt_seed_words 0 i x = []"
| "mt_seed_words (Suc n) i x =
     x # mt_seed_words n (Suc i) (6364136223846793005 * (x XOR drop_bit 62 x) + of_nat (Suc i))"

definition mt_seed :: "u64 \<Rightarrow> mt_state" where
  "mt_seed seed = mt_seed_words 312 0 seed"

definition mt_temper :: "u64 \<Rightarrow> u64" where
  "mt_temper x0 =
     (let x = x0 XOR (drop_bit 29 x0 AND 0x5555555555555555);
          x = x XOR (push_bit 17 x AND 0x71D67FFFEDA60000);
          x = x XOR (push_bit 37 x AND 0xFFF7EEE000000000)
      in x XOR drop_bit 43 x)"

definition mt_next :: "mt_state \<Rightarrow> u64 \<times> mt_state" where
  "mt_next s =
     (let y = (s ! 0 AND 0xFFFFFFFF80000000) OR (s ! 1 AND 0x7FFFFFFF);
          x = s ! 156 XOR drop_bit 1 y XOR (if y AND 1 = 0 then 0 else 0xB5026F5AA96619E9)
      in (mt_temper x, tl s @ [x]))"

text \<open>Bytes for a buffer: the low eight bits of each output, in order.\<close>

fun mt_bytes :: "nat \<Rightarrow> mt_state \<Rightarrow> byte list \<times> mt_state" where
  "mt_bytes 0 s = ([], s)"
| "mt_bytes (Suc n) s =
     (let (x, s) = mt_next s; (bytes, s) = mt_bytes n s in (ucast (x AND 0xFF) # bytes, s))"

lemma mt_bytes_length [simp]: "length (fst (mt_bytes n s)) = n"
  by (induction n arbitrary: s) (simp_all add: case_prod_unfold Let_def)

lemma mt_bytes_add:
  "mt_bytes (m + n) s = (fst (mt_bytes m s) @ fst (mt_bytes n (snd (mt_bytes m s))), snd (mt_bytes n (snd (mt_bytes m s))))"
  by (induction m arbitrary: s) (simp_all add: case_prod_unfold Let_def)

end
