(* ===== verification/Client_Transfer.thy ===== *)
theory Client_Transfer
  imports Socket_Io Endpoint Mersenne_Twister
begin

text \<open>
  The two workloads of \<^verbatim>\<open>src/client/main.cpp\<close>: \<^verbatim>\<open>run_connection\<close>, which streams a payload while a second
  thread reads the echo, and \<^verbatim>\<open>run_request_response\<close>, which exchanges fixed-size messages. The
  operating system is a parameter. The two threads of \<^verbatim>\<open>run_connection\<close> share only the socket: they
  are interleaved call by call under a schedule, an arbitrary sequence of choices.
\<close>

section \<open>Results and system calls\<close>

datatype client_mode = Bulk | RequestResponse

record client_result =
  cr_success :: bool
  cr_error :: string
  cr_duration_us :: int
  cr_bytes :: nat
  cr_latency_samples_us :: "int list"

definition client_result_new :: client_result where
  "client_result_new = \<lparr>cr_success = False, cr_error = [], cr_duration_us = 0, cr_bytes = 0, cr_latency_samples_us = []\<rparr>"

text \<open>
  \<^verbatim>\<open>socket\<close> and \<^verbatim>\<open>connect\<close> return a result and \<^verbatim>\<open>errno\<close>; what the client ignores of the other calls is
  not part of their type.
\<close>

record 'w client_os =
  co_kernel :: "'w kernel"
  co_socket :: "'w \<Rightarrow> (int \<times> int) \<times> 'w"
  co_setsockopt :: "int \<Rightarrow> socket_option \<Rightarrow> 'w \<Rightarrow> 'w"
  co_connect :: "int \<Rightarrow> 32 word \<times> 16 word \<Rightarrow> 'w \<Rightarrow> (int \<times> int) \<times> 'w"
  co_shutdown_both :: "int \<Rightarrow> 'w \<Rightarrow> 'w"
  co_close :: "int \<Rightarrow> 'w \<Rightarrow> 'w"
  co_now :: "'w \<Rightarrow> time \<times> 'w"
  co_strerror :: "int \<Rightarrow> string"

section \<open>Sending a whole buffer\<close>

text \<open>The result is the error text, or nothing when everything was sent.\<close>

definition client_send_step ::
  "'w client_os \<Rightarrow> int \<Rightarrow> byte list \<Rightarrow> nat \<times> 'w \<Rightarrow> (nat \<times> 'w, string option \<times> 'w) loop_outcome option" where
  "client_send_step os fd payload = (\<lambda>(offset, w).
     if offset < length payload
     then (let ((count, errno), w) = k_send (co_kernel os) fd (drop offset payload) w in
           if count > 0 then Some (Again (offset + nat count, w))
           else if count < 0 \<and> errno = EINTR then Some (Again (offset, w))
           else Some (Halt (Some (''send='' @ co_strerror os errno), w)))
     else Some (Halt (None, w)))"

definition client_send_all :: "'w client_os \<Rightarrow> int \<Rightarrow> byte list \<Rightarrow> 'w \<Rightarrow> (string option \<times> 'w) option" where
  "client_send_all os fd payload w = run_loop (client_send_step os fd payload) (0, w)"

section \<open>Streaming with a concurrent reader\<close>

text \<open>The phases of the main thread after the reader was started, and the state the threads keep.\<close>

datatype sender_phase = Sending nat | HalfClosing | Aborting string | Joining "string option"

record transfer =
  tr_sender :: sender_phase
  tr_reading :: bool
  tr_buffer :: "byte list"
  tr_received :: "byte list"
  tr_receive_error :: string

definition transfer_start :: transfer where
  "transfer_start = \<lparr>tr_sender = Sending 0, tr_reading = True, tr_buffer = replicate 16384 0,
     tr_received = [], tr_receive_error = []\<rparr>"

definition reader_step :: "'w client_os \<Rightarrow> int \<Rightarrow> byte list \<Rightarrow> transfer \<Rightarrow> 'w \<Rightarrow> transfer \<times> 'w" where
  "reader_step os fd payload t w =
     (let ((count, errno, buffer), w) = k_recv (co_kernel os) fd (tr_buffer t) w; t = t\<lparr>tr_buffer := buffer\<rparr> in
      if count > 0
      then (let t = t\<lparr>tr_received := tr_received t @ take (nat count) buffer\<rparr>
            in if length (tr_received t) > length payload
               then (t\<lparr>tr_receive_error := ''received_more_bytes_than_sent'', tr_reading := False\<rparr>, w)
               else (t, w))
      else if count = 0 then (t\<lparr>tr_reading := False\<rparr>, w)
      else if errno = EINTR then (t, w)
      else (t\<lparr>tr_receive_error := ''recv='' @ co_strerror os errno, tr_reading := False\<rparr>, w))"

definition sender_step :: "'w client_os \<Rightarrow> int \<Rightarrow> byte list \<Rightarrow> transfer \<Rightarrow> 'w \<Rightarrow> transfer \<times> 'w" where
  "sender_step os fd payload t w =
     (case tr_sender t of
        Sending offset \<Rightarrow>
          (case client_send_step os fd payload (offset, w) of
             Some (Again (offset, w)) \<Rightarrow> (t\<lparr>tr_sender := Sending offset\<rparr>, w)
           | Some (Halt (None, w)) \<Rightarrow> (t\<lparr>tr_sender := HalfClosing\<rparr>, w)
           | Some (Halt (Some e, w)) \<Rightarrow> (t\<lparr>tr_sender := Aborting e\<rparr>, w)
           | None \<Rightarrow> (t, w))
      | HalfClosing \<Rightarrow>
          (let ((res, errno), w) = k_shutdown_wr (co_kernel os) fd w
           in if res < 0 then (t\<lparr>tr_sender := Aborting (''shutdown='' @ co_strerror os errno)\<rparr>, w)
              else (t\<lparr>tr_sender := Joining None\<rparr>, w))
      | Aborting e \<Rightarrow> (t\<lparr>tr_sender := Joining (Some e)\<rparr>, co_shutdown_both os fd w)
      | Joining e \<Rightarrow> (t, w))"

definition joining :: "transfer \<Rightarrow> bool" where
  "joining t = (case tr_sender t of Joining _ \<Rightarrow> True | _ \<Rightarrow> False)"

text \<open>One system call of one of the threads. While both run, the schedule chooses.\<close>

definition transfer_step ::
  "'w client_os \<Rightarrow> int \<Rightarrow> byte list \<Rightarrow> (nat \<Rightarrow> bool) \<Rightarrow> nat \<times> transfer \<times> 'w \<Rightarrow>
   (nat \<times> transfer \<times> 'w, transfer \<times> 'w) loop_outcome option" where
  "transfer_step os fd payload schedule = (\<lambda>(n, t, w).
     if tr_reading t \<and> (schedule n \<or> joining t) then Some (Again (Suc n, reader_step os fd payload t w))
     else if \<not> joining t then Some (Again (Suc n, sender_step os fd payload t w))
     else Some (Halt (t, w)))"

definition finish_connection ::
  "'w client_os \<Rightarrow> byte list \<Rightarrow> time \<Rightarrow> client_result \<Rightarrow> transfer \<times> 'w \<Rightarrow> client_result \<times> 'w" where
  "finish_connection os payload start result = (\<lambda>(t, w).
     case tr_sender t of
       Joining (Some e) \<Rightarrow> (result\<lparr>cr_error := e\<rparr>, w)
     | _ \<Rightarrow>
         if tr_receive_error t \<noteq> [] then (result\<lparr>cr_error := tr_receive_error t\<rparr>, w)
         else (let (now, w) = co_now os w; result = result\<lparr>cr_duration_us := duration_cast 1000 (now - start)\<rparr>
               in if tr_received t \<noteq> payload then (result\<lparr>cr_error := ''payload_mismatch''\<rparr>, w)
                  else (result\<lparr>cr_success := True\<rparr>, w)))"

definition run_connection ::
  "'w client_os \<Rightarrow> inet_pton \<Rightarrow> endpoint \<Rightarrow> nat \<Rightarrow> u64 \<Rightarrow> (nat \<Rightarrow> bool) \<Rightarrow> 'w \<Rightarrow> (exn + client_result \<times> 'w) option" where
  "run_connection os pton endpoint payload_bytes seed schedule w =
     (let result = client_result_new\<lparr>cr_bytes := payload_bytes\<rparr>;
          payload = fst (mt_bytes payload_bytes (mt_seed seed));
          ((fd, errno), w) = co_socket os w
      in if fd < 0 then Some (Inr (result\<lparr>cr_error := ''socket='' @ co_strerror os errno\<rparr>, w))
         else let w = co_setsockopt os fd (ReceiveTimeout 10) w; w = co_setsockopt os fd (SendTimeout 10) w
              in case ep_to_sockaddr pton endpoint of
                   Inl e \<Rightarrow> Some (Inl e)
                 | Inr address \<Rightarrow>
                     (let (start, w) = co_now os w; ((res, errno), w) = co_connect os fd address w
                      in if res < 0
                         then Some (Inr (result\<lparr>cr_error := ''connect='' @ co_strerror os errno\<rparr>, co_close os fd w))
                         else (case run_loop (transfer_step os fd payload schedule) (0, transfer_start, w) of
                                 None \<Rightarrow> None
                               | Some tw \<Rightarrow>
                                   (let (result, w) = finish_connection os payload start result tw
                                    in Some (Inr (result, co_close os fd w))))))"

section \<open>Requests and responses\<close>

definition receive_exact_step ::
  "'w client_os \<Rightarrow> int \<Rightarrow> nat \<Rightarrow> byte list \<times> nat \<times> 'w \<Rightarrow>
   (byte list \<times> nat \<times> 'w, string option \<times> byte list \<times> 'w) loop_outcome option" where
  "receive_exact_step os fd expected = (\<lambda>(buffer, received, w).
     if received < expected
     then (let ((count, errno, part), w) = k_recv (co_kernel os) fd (take (expected - received) (drop received buffer)) w;
               buffer = take received buffer @ part @ drop expected buffer
           in if count > 0 then Some (Again (buffer, received + nat count, w))
              else if count = 0 then Some (Halt (Some ''unexpected_eof_mid_response'', buffer, w))
              else if errno = EINTR then Some (Again (buffer, received, w))
              else Some (Halt (Some (''recv='' @ co_strerror os errno), buffer, w)))
     else Some (Halt (None, buffer, w)))"

definition receive_exact ::
  "'w client_os \<Rightarrow> int \<Rightarrow> byte list \<Rightarrow> nat \<Rightarrow> 'w \<Rightarrow> (string option \<times> byte list \<times> 'w) option" where
  "receive_exact os fd buffer expected w = run_loop (receive_exact_step os fd expected) (buffer, 0, w)"

text \<open>One request: what the loop carries is the index, the generator, the response buffer and the samples.\<close>

type_synonym 'w exchange = "nat \<times> mt_state \<times> byte list \<times> int list \<times> 'w"

definition exchange_step ::
  "'w client_os \<Rightarrow> int \<Rightarrow> nat \<Rightarrow> nat \<Rightarrow> nat \<Rightarrow> 'w exchange \<Rightarrow>
   ('w exchange, string option \<times> int list \<times> 'w) loop_outcome option" where
  "exchange_step os fd requests warmup request_bytes = (\<lambda>(index, generator, response, samples, w).
     if index < add64 warmup requests
     then (let (request, generator) = mt_bytes request_bytes generator; (request_start, w) = co_now os w in
           case client_send_all os fd request w of
             None \<Rightarrow> None
           | Some (Some e, w) \<Rightarrow> Some (Halt (Some e, samples, w))
           | Some (None, w) \<Rightarrow>
               (case receive_exact os fd response request_bytes w of
                  None \<Rightarrow> None
                | Some (Some e, response, w) \<Rightarrow> Some (Halt (Some e, samples, w))
                | Some (None, response, w) \<Rightarrow>
                    if response \<noteq> request then Some (Halt (Some ''response_mismatch'', samples, w))
                    else if index \<ge> warmup
                    then (let (now, w) = co_now os w
                          in Some (Again (Suc index, generator, response,
                               samples @ [duration_cast 1000 (now - request_start)], w)))
                    else Some (Again (Suc index, generator, response, samples, w))))
     else Some (Halt (None, samples, w)))"

definition client_drain_step ::
  "'w client_os \<Rightarrow> int \<Rightarrow> byte list \<times> 'w \<Rightarrow> (byte list \<times> 'w, string option \<times> 'w) loop_outcome option" where
  "client_drain_step os fd = (\<lambda>(drain, w).
     let ((count, errno, drain), w) = k_recv (co_kernel os) fd drain w in
     if count > 0 then Some (Halt (Some ''unexpected_data_after_final_response'', w))
     else if count = 0 then Some (Halt (None, w))
     else if errno = EINTR then Some (Again (drain, w))
     else Some (Halt (Some (''drain_recv='' @ co_strerror os errno), w)))"

definition finish_requests ::
  "'w client_os \<Rightarrow> int \<Rightarrow> nat \<Rightarrow> nat \<Rightarrow> nat \<Rightarrow> time \<Rightarrow> client_result \<Rightarrow> 'w \<Rightarrow> (client_result \<times> 'w) option" where
  "finish_requests os fd requests warmup request_bytes start result w =
     (let (_, w) = k_shutdown_wr (co_kernel os) fd w in
      case run_loop (client_drain_step os fd) (replicate 4096 0, w) of
        None \<Rightarrow> None
      | Some (Some e, w) \<Rightarrow> Some (result\<lparr>cr_error := e\<rparr>, w)
      | Some (None, w) \<Rightarrow>
          (let (now, w) = co_now os w
           in Some (result\<lparr>cr_duration_us := duration_cast 1000 (now - start),
                           cr_bytes := mul64 (add64 warmup requests) request_bytes, cr_success := True\<rparr>, w)))"

definition run_request_response ::
  "'w client_os \<Rightarrow> inet_pton \<Rightarrow> endpoint \<Rightarrow> nat \<Rightarrow> nat \<Rightarrow> nat \<Rightarrow> u64 \<Rightarrow> 'w \<Rightarrow> (exn + client_result \<times> 'w) option" where
  "run_request_response os pton endpoint requests warmup request_bytes seed w =
     (let result = client_result_new; ((fd, errno), w) = co_socket os w
      in if fd < 0 then Some (Inr (result\<lparr>cr_error := ''socket='' @ co_strerror os errno\<rparr>, w))
         else let w = co_setsockopt os fd (ReceiveTimeout 30) w; w = co_setsockopt os fd (SendTimeout 30) w;
                  w = co_setsockopt os fd NoDelay w
              in case ep_to_sockaddr pton endpoint of
                   Inl e \<Rightarrow> Some (Inl e)
                 | Inr address \<Rightarrow>
                     (let (start, w) = co_now os w; ((res, errno), w) = co_connect os fd address w
                      in if res < 0
                         then Some (Inr (result\<lparr>cr_error := ''connect='' @ co_strerror os errno\<rparr>, co_close os fd w))
                         else (case run_loop (exchange_step os fd requests warmup request_bytes)
                                      (0, mt_seed seed, replicate request_bytes 0, [], w) of
                                 None \<Rightarrow> None
                               | Some (Some e, samples, w) \<Rightarrow>
                                   Some (Inr (result\<lparr>cr_error := e, cr_latency_samples_us := samples\<rparr>, co_close os fd w))
                               | Some (None, samples, w) \<Rightarrow>
                                   map_option (\<lambda>(result, w). Inr (result, co_close os fd w))
                                     (finish_requests os fd requests warmup request_bytes start
                                        (result\<lparr>cr_latency_samples_us := samples\<rparr>) w))))"

end
