(* ===== verification/Client_Theorems.thy ===== *)
theory Client_Theorems
  imports Client_Transfer
begin

text \<open>
  Correctness of the client's workloads for an operating system whose socket calls behave as
  documented: whatever the partial transfers, interruptions, failures and thread interleavings, a
  workload ends and its verdict is right.
\<close>

section \<open>The transfer's invariant\<close>

text \<open>
  What each phase of the sender says of the bytes sent so far, what the reader's state says of
  those received, and what is left to do.
\<close>

fun sender_rank :: "nat \<Rightarrow> sender_phase \<Rightarrow> nat" where
  "sender_rank n (Sending offset) = n - offset + 3"
| "sender_rank n HalfClosing = 2"
| "sender_rank n (Aborting e) = 1"
| "sender_rank n (Joining e) = 0"

fun sender_inv :: "nat \<Rightarrow> nat \<Rightarrow> sender_phase \<Rightarrow> bool" where
  "sender_inv len n (Sending offset) = (n = offset)"
| "sender_inv len n HalfClosing = (n = len)"
| "sender_inv len n (Joining None) = (n = len)"
| "sender_inv len n (Aborting e) = (\<exists>x. e = ''send='' @ x \<or> e = ''shutdown='' @ x)"
| "sender_inv len n (Joining (Some e)) = (\<exists>x. e = ''send='' @ x \<or> e = ''shutdown='' @ x)"

definition reader_inv :: "nat \<Rightarrow> transfer \<Rightarrow> bool" where
  "reader_inv len t \<longleftrightarrow> length (tr_buffer t) = 16384 \<and> length (tr_received t) \<le> len + 16384 \<and>
     (tr_receive_error t = [] \<and> length (tr_received t) \<le> len \<or>
      \<not> tr_reading t \<and> tr_receive_error t = ''received_more_bytes_than_sent'' \<and> len < length (tr_received t) \<or>
      \<not> tr_reading t \<and> (\<exists>x. tr_receive_error t = ''recv='' @ x))"

definition transfer_left :: "nat \<Rightarrow> transfer \<Rightarrow> nat" where
  "transfer_left len t = sender_rank len (tr_sender t) + (if tr_reading t then len + 2 - length (tr_received t) else 0)"

section \<open>The calls\<close>

text \<open>
  A new socket has carried no bytes, and only \<^verbatim>\<open>send\<close> and \<^verbatim>\<open>recv\<close> move any.
\<close>

locale client_calls = posix_kernel "co_kernel os" received sent interruptions
  for os :: "'w client_os" and received :: "'w \<Rightarrow> int \<Rightarrow> byte list" and sent :: "'w \<Rightarrow> int \<Rightarrow> byte list"
    and interruptions :: "'w \<Rightarrow> nat" +
  assumes socket_fresh: "co_socket os w = ((fd, e), w') \<Longrightarrow> 0 \<le> fd \<Longrightarrow> received w' fd = [] \<and> sent w' fd = []"
    and setsockopt_quiet: "received (co_setsockopt os fd opt w) = received w \<and> sent (co_setsockopt os fd opt w) = sent w"
    and connect_quiet: "co_connect os fd address w = (res, w') \<Longrightarrow> received w' = received w \<and> sent w' = sent w"
    and shutdown_both_quiet: "received (co_shutdown_both os fd w) = received w \<and> sent (co_shutdown_both os fd w) = sent w"
    and close_quiet: "received (co_close os fd w) = received w \<and> sent (co_close os fd w) = sent w"
    and now_quiet: "co_now os w = (t, w') \<Longrightarrow> received w' = received w \<and> sent w' = sent w"
begin

lemma send_call:
  assumes "k_send (co_kernel os) fd (drop offset payload) w = ((count, errno), w')" and "offset \<le> length payload"
    and "sent w = (sent w0)(fd := sent w0 fd @ take offset payload)"
  shows "0 < count \<Longrightarrow> offset + nat count \<le> length payload \<and>
      sent w' = (sent w0)(fd := sent w0 fd @ take (offset + nat count) payload)"
    and "count \<le> 0 \<Longrightarrow> sent w' = sent w" and "received w' = received w"
    and "count < 0 \<Longrightarrow> errno = EINTR \<Longrightarrow> interruptions w' < interruptions w"
  using ksend_ok [OF assms(1)] send_interrupted [of fd "drop offset payload" w count w'] assms by (auto simp: take_add)

lemma client_send_all_ok:
  "\<exists>e w'. client_send_all os fd payload w = Some (e, w') \<and> received w' = received w \<and>
     (\<exists>n \<le> length payload. sent w' = (sent w)(fd := sent w fd @ take n payload) \<and> (e = None \<longrightarrow> n = length payload)) \<and>
     e \<noteq> Some []"
proof -
  let ?I = "\<lambda>(offset, v). offset \<le> length payload \<and> received v = received w \<and>
    sent v = (sent w)(fd := sent w fd @ take offset payload)"
  let ?Q = "\<lambda>(e, v). received v = received w \<and> e \<noteq> Some [] \<and>
    (\<exists>n \<le> length payload. sent v = (sent w)(fd := sent w fd @ take n payload) \<and> (e = None \<longrightarrow> n = length payload))"
  let ?R = "measures [\<lambda>(offset, v). length payload - offset, \<lambda>(offset, v). interruptions v]"
  have "\<exists>r. run_loop (client_send_step os fd payload) (0, w) = Some r \<and> ?Q r"
  proof (rule run_loop_progress [where R = ?R and I = ?I])
    fix s assume I: "?I s"
    obtain offset v where s: "s = (offset, v)" by (cases s)
    obtain count errno v' where call: "k_send (co_kernel os) fd (drop offset payload) v = ((count, errno), v')"
      by (metis prod.collapse)
    have I': "offset \<le> length payload" "received v = received w" "sent v = (sent w)(fd := sent w fd @ take offset payload)"
      using I by (simp_all add: s)
    note c = send_call [OF call I'(1,3)]
    show "loop_progress ?I ?R ?Q s (client_send_step os fd payload s)"
    proof (cases "offset < length payload")
      case True
      show ?thesis using c call True I' by (auto simp: s client_send_step_def intro!: exI [of _ offset])
    next
      case False
      then show ?thesis using I' by (auto simp: s client_send_step_def intro!: exI [of _ "length payload"])
    qed
  qed simp_all
  then show ?thesis unfolding client_send_all_def by blast
qed


lemma receive_call:
  assumes "k_recv (co_kernel os) fd (take (expected - n) (drop n buffer)) w = ((count, errno, part), w')"
    and "length buffer = expected" and "n \<le> expected"
    and "received w = (received w0)(fd := received w0 fd @ take n buffer)"
  shows "length (take n buffer @ part @ drop expected buffer) = expected" and "sent w' = sent w"
    and "0 < count \<Longrightarrow> n + nat count \<le> expected \<and>
      received w' = (received w0)(fd := received w0 fd @ take (n + nat count) (take n buffer @ part @ drop expected buffer))"
    and "count \<le> 0 \<Longrightarrow> received w' = (received w0)(fd := received w0 fd @ take n (take n buffer @ part @ drop expected buffer))"
    and "count < 0 \<Longrightarrow> errno = EINTR \<Longrightarrow> interruptions w' < interruptions w"
  using recv_ok [OF assms(1)] recv_interrupted [of fd "take (expected - n) (drop n buffer)" w count part w'] assms
  by auto

lemma receive_exact_ok:
  assumes "length buffer = expected"
  shows "\<exists>e buffer' w'. receive_exact os fd buffer expected w = Some (e, buffer', w') \<and> length buffer' = expected \<and>
     sent w' = sent w \<and> e \<noteq> Some [] \<and>
     (\<exists>n \<le> expected. received w' = (received w)(fd := received w fd @ take n buffer') \<and> (e = None \<longrightarrow> n = expected))"
proof -
  let ?I = "\<lambda>(b, n, v). length b = expected \<and> n \<le> expected \<and> sent v = sent w \<and>
    received v = (received w)(fd := received w fd @ take n b)"
  let ?Q = "\<lambda>(e, b, v). length b = expected \<and> sent v = sent w \<and> e \<noteq> Some [] \<and>
    (\<exists>n \<le> expected. received v = (received w)(fd := received w fd @ take n b) \<and> (e = None \<longrightarrow> n = expected))"
  let ?R = "measures [\<lambda>(b, n, v). expected - n, \<lambda>(b, n, v). interruptions v]"
  have "\<exists>r. run_loop (receive_exact_step os fd expected) (buffer, 0, w) = Some r \<and> ?Q r"
  proof (rule run_loop_progress [where R = ?R and I = ?I])
    fix s assume I: "?I s"
    obtain b n v where s: "s = (b, n, v)" by (cases s)
    have I': "length b = expected" "n \<le> expected" "sent v = sent w" "received v = (received w)(fd := received w fd @ take n b)"
      using I by (simp_all add: s)
    obtain count errno part v' where call:
      "k_recv (co_kernel os) fd (take (expected - n) (drop n b)) v = ((count, errno, part), v')"
      by (metis prod.collapse)
    note c = receive_call [OF call I'(1,2,4)]
    show "loop_progress ?I ?R ?Q s (receive_exact_step os fd expected s)"
    proof (cases "n < expected")
      case True
      consider "0 < count" | "count = 0" | "count < 0" "errno = EINTR" | "count < 0" "errno \<noteq> EINTR" by linarith
      then show ?thesis
      proof cases
        case 1
        then show ?thesis using c call True I' by (auto simp: s receive_exact_step_def)
      next
        case 2
        then show ?thesis using c call True I' by (auto simp: s receive_exact_step_def intro!: exI [of _ n])
      next
        case 3
        then show ?thesis using c call True I' by (simp add: s receive_exact_step_def)
      next
        case 4
        then show ?thesis using c call True I' by (auto simp: s receive_exact_step_def intro!: exI [of _ n])
      qed
    next
      case False
      then show ?thesis using I' by (auto simp: s receive_exact_step_def intro!: exI [of _ expected])
    qed
  qed (use assms in simp_all)
  then show ?thesis unfolding receive_exact_def by blast
qed


definition transferring :: "byte list \<Rightarrow> int \<Rightarrow> 'w \<Rightarrow> transfer \<Rightarrow> 'w \<Rightarrow> bool" where
  "transferring payload fd w0 t w \<longleftrightarrow> reader_inv (length payload) t \<and>
     received w = (received w0)(fd := received w0 fd @ tr_received t) \<and>
     (\<exists>n \<le> length payload. sent w = (sent w0)(fd := sent w0 fd @ take n payload) \<and>
        sender_inv (length payload) n (tr_sender t))"

lemma reader_step_ok:
  assumes "transferring payload fd w0 t w" and "tr_reading t" and "reader_step os fd payload t w = (t', w')"
  shows "transferring payload fd w0 t' w' \<and>
    (transfer_left (length payload) t' < transfer_left (length payload) t \<or>
     transfer_left (length payload) t' = transfer_left (length payload) t \<and> interruptions w' < interruptions w)"
proof -
  obtain count errno buffer v where call: "k_recv (co_kernel os) fd (tr_buffer t) w = ((count, errno, buffer), v)"
    by (metis prod.collapse)
  note c = recv_ok [OF call] recv_interrupted [of fd "tr_buffer t" w count buffer v]
  have inv: "reader_inv (length payload) t" "received w = (received w0)(fd := received w0 fd @ tr_received t)"
    "\<exists>n \<le> length payload. sent w = (sent w0)(fd := sent w0 fd @ take n payload) \<and> sender_inv (length payload) n (tr_sender t)"
    using assms(1) by (auto simp: transferring_def)
  consider "0 < count" | "count = 0" | "count < 0" "errno = EINTR" | "count < 0" "errno \<noteq> EINTR" by linarith
  then show ?thesis
  proof cases
    case 1
    then show ?thesis using assms(2,3) call c inv
      by (auto simp: reader_step_def Let_def transferring_def reader_inv_def transfer_left_def split: if_splits)
  next
    case 2
    then show ?thesis using assms(2,3) call c inv
      by (auto simp: reader_step_def transferring_def reader_inv_def transfer_left_def)
  next
    case 3
    then show ?thesis using assms(2,3) call c inv
      by (auto simp: reader_step_def transferring_def reader_inv_def transfer_left_def)
  next
    case 4
    then show ?thesis using assms(2,3) call c inv
      by (auto simp: reader_step_def transferring_def reader_inv_def transfer_left_def)
  qed
qed

lemma sending_step_ok:
  assumes "transferring payload fd w0 t w" and Sending: "tr_sender t = Sending offset"
    and step: "sender_step os fd payload t w = (t', w')"
  shows "transferring payload fd w0 t' w' \<and>
    (transfer_left (length payload) t' < transfer_left (length payload) t \<or>
     transfer_left (length payload) t' = transfer_left (length payload) t \<and> interruptions w' < interruptions w)"
proof -
  have inv: "reader_inv (length payload) t" "received w = (received w0)(fd := received w0 fd @ tr_received t)"
    "offset \<le> length payload" "sent w = (sent w0)(fd := sent w0 fd @ take offset payload)"
    using assms(1,2) by (auto simp: transferring_def)
  have keep: "reader_inv (length payload) (t\<lparr>tr_sender := p\<rparr>)" for p
    using inv(1) by (simp add: reader_inv_def)
  obtain count errno v where call: "k_send (co_kernel os) fd (drop offset payload) w = ((count, errno), v)"
    by (metis prod.collapse)
  note c = send_call [OF call inv(3,4)]
  consider "offset < length payload" "0 < count" | "offset < length payload" "errno = EINTR" "count < 0"
    | "offset < length payload" "count \<le> 0" "\<not> (count < 0 \<and> errno = EINTR)" | "\<not> offset < length payload"
    by linarith
  then show ?thesis
  proof cases
    case 3
    then have "t' = t\<lparr>tr_sender := Aborting (''send='' @ co_strerror os errno)\<rparr>" "w' = v"
      using step Sending call by (auto simp: sender_step_def client_send_step_def)
    moreover have "\<exists>n \<le> length payload. (sent w0)(fd := sent w0 fd @ take offset payload) =
        (sent w0)(fd := sent w0 fd @ take n payload)" using inv(3) by blast
    ultimately show ?thesis using 3 Sending c inv keep
      by (auto simp: transferring_def transfer_left_def)
  qed (use step Sending call c inv keep in
    \<open>auto simp: sender_step_def client_send_step_def transferring_def transfer_left_def\<close>)
qed

lemma sender_step_ok:
  assumes "transferring payload fd w0 t w" and "\<not> joining t" and "sender_step os fd payload t w = (t', w')"
  shows "transferring payload fd w0 t' w' \<and>
    (transfer_left (length payload) t' < transfer_left (length payload) t \<or>
     transfer_left (length payload) t' = transfer_left (length payload) t \<and> interruptions w' < interruptions w)"
proof -
  obtain n where inv: "reader_inv (length payload) t" "received w = (received w0)(fd := received w0 fd @ tr_received t)"
    "n \<le> length payload" "sent w = (sent w0)(fd := sent w0 fd @ take n payload)" "sender_inv (length payload) n (tr_sender t)"
    using assms(1) by (auto simp: transferring_def)
  have keep: "reader_inv (length payload) (t\<lparr>tr_sender := p\<rparr>)" for p
    using inv(1) by (simp add: reader_inv_def)
  show ?thesis
  proof (cases "tr_sender t")
    case (Sending offset)
    with assms sending_step_ok show ?thesis by blast
  next
    case HalfClosing
    obtain res errno v where call: "k_shutdown_wr (co_kernel os) fd w = ((res, errno), v)" by (metis prod.collapse)
    from kshutdown_ok [OF call] show ?thesis using assms(3) HalfClosing call inv keep
      by (cases "res < 0") (auto simp: sender_step_def transferring_def transfer_left_def)
  next
    case (Aborting e)
    then show ?thesis using assms(3) inv keep shutdown_both_quiet [of fd w]
      by (auto simp: sender_step_def transferring_def transfer_left_def)
  next
    case (Joining e)
    then show ?thesis using assms(2) by (simp add: joining_def)
  qed
qed

lemma transfer_ok:
  "\<exists>t w'. run_loop (transfer_step os fd payload schedule) (0, transfer_start, w) = Some (t, w') \<and>
     transferring payload fd w t w' \<and> joining t"
proof -
  let ?I = "\<lambda>(n :: nat, t, v). transferring payload fd w t v"
  let ?Q = "\<lambda>(t, v). transferring payload fd w t v \<and> joining t"
  let ?R = "measures [\<lambda>(n, t, v). transfer_left (length payload) t, \<lambda>(n :: nat, t, v). interruptions v]"
  have "\<exists>r. run_loop (transfer_step os fd payload schedule) (0, transfer_start, w) = Some r \<and> ?Q r"
  proof (rule run_loop_progress [where R = ?R and I = ?I])
    fix s assume I: "?I s"
    obtain n t v where s: "s = (n, t, v)" by (cases s)
    obtain t1 v1 where r: "reader_step os fd payload t v = (t1, v1)" by fastforce
    obtain t2 v2 where m: "sender_step os fd payload t v = (t2, v2)" by fastforce
    have inv: "transferring payload fd w t v" using I by (simp add: s)
    show "loop_progress ?I ?R ?Q s (transfer_step os fd payload schedule s)"
      using reader_step_ok [OF inv _ r] sender_step_ok [OF inv _ m] inv
      by (auto simp: s transfer_step_def r m)
  next
    show "?I (0, transfer_start, w)"
      by (auto simp: transferring_def transfer_start_def reader_inv_def intro!: exI [of _ 0])
  qed simp
  then show ?thesis by auto
qed


text \<open>The descriptor of a connection, from the call that creates it to the start of the workload.\<close>

lemma connected_quiet:
  assumes "co_socket os w = ((fd, errno), w1)" and "0 \<le> fd"
    and "received w2 = received w1 \<and> sent w2 = sent w1" and "co_now os w2 = (start, w3)" and "co_connect os fd address w3 = (res, w4)"
  shows "received w4 fd = []" and "sent w4 fd = []"
  using socket_fresh [OF assms(1,2)] assms(3) now_quiet [OF assms(4)] connect_quiet [OF assms(5)] by simp_all

lemma finish_connection_ok:
  assumes "transferring payload fd w0 t w" and "joining t" and "finish_connection os payload start result (t, w) = (res, w')"
    and "\<not> cr_success result" and "cr_error result = []"
  shows "received w' = received w \<and> sent w' = sent w \<and> cr_bytes res = cr_bytes result \<and>
    (cr_success res \<longleftrightarrow> cr_error res = []) \<and>
    (cr_success res \<longrightarrow> tr_received t = payload \<and> sent w = (sent w0)(fd := sent w0 fd @ payload)) \<and>
    (cr_error res = ''payload_mismatch'' \<longrightarrow>
       tr_received t \<noteq> payload \<and> sent w = (sent w0)(fd := sent w0 fd @ payload)) \<and>
    (cr_error res = ''received_more_bytes_than_sent'' \<longrightarrow> length payload < length (tr_received t))"
proof -
  obtain e where e: "tr_sender t = Joining e" using assms(2) by (auto simp: joining_def split: sender_phase.splits)
  obtain n where inv: "reader_inv (length payload) t" "sent w = (sent w0)(fd := sent w0 fd @ take n payload)"
    "sender_inv (length payload) n (tr_sender t)" using assms(1) by (auto simp: transferring_def)
  obtain now w1 where now: "co_now os w = (now, w1)" by fastforce
  note quiet = now_quiet [OF now]
  show ?thesis
  proof (cases e)
    case (Some x)
    then show ?thesis using e inv assms by (auto simp: finish_connection_def)
  next
    case None
    then show ?thesis using e inv assms now quiet
      by (auto simp: finish_connection_def reader_inv_def Let_def split: if_splits)
  qed
qed

lemma run_connection_ok:
  assumes "ep_to_sockaddr pton endpoint = Inr address" and "co_socket os w = ((fd, errno), w1)"
  shows "\<exists>result w'. run_connection os pton endpoint n seed schedule w = Some (Inr (result, w')) \<and>
    cr_bytes result = n \<and> (cr_success result \<longleftrightarrow> cr_error result = []) \<and>
    (cr_success result \<longrightarrow> received w' fd = fst (mt_bytes n (mt_seed seed)) \<and> sent w' fd = fst (mt_bytes n (mt_seed seed))) \<and>
    (0 \<le> fd \<longrightarrow> (\<exists>k. sent w' fd = take k (fst (mt_bytes n (mt_seed seed)))) \<and> length (received w' fd) \<le> n + 16384) \<and>
    (cr_error result = ''payload_mismatch'' \<longrightarrow>
       sent w' fd = fst (mt_bytes n (mt_seed seed)) \<and> received w' fd \<noteq> sent w' fd) \<and>
    (cr_error result = ''received_more_bytes_than_sent'' \<longrightarrow> n < length (received w' fd))"
proof (cases "0 \<le> fd")
  case False
  then show ?thesis using assms by (simp add: run_connection_def client_result_new_def Let_def)
next
  case True
  let ?payload = "fst (mt_bytes n (mt_seed seed))"
  define w2 where "w2 = co_setsockopt os fd (SendTimeout 10) (co_setsockopt os fd (ReceiveTimeout 10) w1)"
  obtain start w3 where now: "co_now os w2 = (start, w3)" by fastforce
  obtain res err w4 where con: "co_connect os fd address w3 = ((res, err), w4)" by (metis prod.collapse)
  have w2: "received w2 = received w1 \<and> sent w2 = sent w1" by (simp add: w2_def setsockopt_quiet)
  note fresh = connected_quiet [OF assms(2) True w2 now con]
  show ?thesis
  proof (cases "res < 0")
    case res: True
    then show ?thesis using True assms now con w2_def fresh close_quiet [of fd w4]
      by (simp add: run_connection_def client_result_new_def)
  next
    case False
    obtain t w5 where run: "run_loop (transfer_step os fd ?payload schedule) (0, transfer_start, w4) = Some (t, w5)"
      "transferring ?payload fd w4 t w5" "joining t" using transfer_ok by blast
    let ?result = "client_result_new\<lparr>cr_bytes := n\<rparr>"
    obtain result w6 where fin: "finish_connection os ?payload start ?result (t, w5) = (result, w6)" by fastforce
    have fields: "\<not> cr_success ?result" "cr_error ?result = []" "cr_bytes ?result = n" by (simp_all add: client_result_new_def)
    note ok = finish_connection_ok [OF run(2,3) fin fields(1,2)]
    have whole: "run_connection os pton endpoint n seed schedule w = Some (Inr (result, co_close os fd w6))"
      using True False assms now con w2_def run(1) fin by (simp add: run_connection_def)
    have rec: "received w6 fd = tr_received t" "length (tr_received t) \<le> n + 16384"
      using ok run(2) fresh by (auto simp: transferring_def reader_inv_def)
    obtain k where "sent w5 = (sent w4)(fd := sent w4 fd @ take k ?payload)" using run(2) by (auto simp: transferring_def)
    then have sub: "\<exists>k. sent w6 fd = take k ?payload" using ok fresh by auto
    have all: "sent w6 fd = ?payload" if "sent w5 = (sent w4)(fd := sent w4 fd @ ?payload)" using that ok fresh by simp
    have closed: "received (co_close os fd w6) = received w6" "sent (co_close os fd w6) = sent w6" using close_quiet by auto
    show ?thesis unfolding whole
      by (rule exI [of _ result], rule exI [of _ "co_close os fd w6"], unfold closed) (use sub all ok rec fields(3) fresh(2) in simp)
  qed
qed


text \<open>The stream both directions carry after a number of exchanges.\<close>

definition exchanged :: "u64 \<Rightarrow> nat \<Rightarrow> int \<Rightarrow> 'w \<Rightarrow> nat \<Rightarrow> 'w \<Rightarrow> bool" where
  "exchanged seed size_each fd w0 n w \<longleftrightarrow>
     sent w = (sent w0)(fd := sent w0 fd @ fst (mt_bytes (n * size_each) (mt_seed seed))) \<and>
     received w = (received w0)(fd := received w0 fd @ fst (mt_bytes (n * size_each) (mt_seed seed)))"

lemma exchanged_Suc:
  assumes "exchanged seed size_each fd w0 n w" and "mt_bytes size_each (snd (mt_bytes (n * size_each) (mt_seed seed))) = (request, g)"
    and "sent w' = (sent w)(fd := sent w fd @ request)" and "received w' = (received w)(fd := received w fd @ request)"
  shows "exchanged seed size_each fd w0 (Suc n) w'" and "g = snd (mt_bytes (Suc n * size_each) (mt_seed seed))"
proof -
  have "Suc n * size_each = n * size_each + size_each" by simp
  with assms show "exchanged seed size_each fd w0 (Suc n) w'" "g = snd (mt_bytes (Suc n * size_each) (mt_seed seed))"
    by (simp_all only: exchanged_def mt_bytes_add) simp_all
qed

lemma exchanged_quiet: "exchanged seed size_each fd w0 n w \<Longrightarrow> received w' = received w \<and> sent w' = sent w \<Longrightarrow>
    exchanged seed size_each fd w0 n w'"
  by (simp add: exchanged_def)

lemma exchange_ok:
  assumes "length response = request_bytes" and "exchanged seed request_bytes fd w0 index w"
    and g: "generator = snd (mt_bytes (index * request_bytes) (mt_seed seed))" and more: "index < add64 warmup requests"
  shows "\<exists>out. exchange_step os fd requests warmup request_bytes (index, generator, response, samples, w) = Some out \<and>
    (\<exists>e samples' w'. out = Halt (Some e, samples', w') \<and> e \<noteq> [] \<or>
     (\<exists>g' response' samples' w'. out = Again (Suc index, g', response', samples', w') \<and> length response' = request_bytes \<and>
        length samples' = length samples + (if index \<ge> warmup then 1 else 0) \<and>
        exchanged seed request_bytes fd w0 (Suc index) w' \<and> g' = snd (mt_bytes (Suc index * request_bytes) (mt_seed seed))))"
proof -
  obtain request g' where req: "mt_bytes request_bytes generator = (request, g')" by fastforce
  have len: "length request = request_bytes" using mt_bytes_length [of request_bytes generator] req by simp
  obtain t0 w1 where now: "co_now os w = (t0, w1)" by fastforce
  have e1: "exchanged seed request_bytes fd w0 index w1" by (rule exchanged_quiet [OF assms(2) now_quiet [OF now]])
  obtain e w2 n where send: "client_send_all os fd request w1 = Some (e, w2)" "received w2 = received w1" "e \<noteq> Some []"
    "sent w2 = (sent w1)(fd := sent w1 fd @ take n request)" "e = None \<longrightarrow> n = length request"
    using client_send_all_ok [of fd request w1] by blast
  show ?thesis
  proof (cases e)
    case (Some x)
    then show ?thesis using req now send more by (auto simp: exchange_step_def)
  next
    case None
    obtain e' response' w3 k where recv: "receive_exact os fd response request_bytes w2 = Some (e', response', w3)"
      "length response' = request_bytes" "sent w3 = sent w2" "e' \<noteq> Some []"
      "received w3 = (received w2)(fd := received w2 fd @ take k response')" "e' = None \<longrightarrow> k = request_bytes"
      using receive_exact_ok [OF assms(1), of fd w2] by blast
    obtain t1 w4 where now': "co_now os w3 = (t1, w4)" by fastforce
    show ?thesis
    proof (cases "e' = None \<and> response' = request")
      case True
      have e3: "exchanged seed request_bytes fd w0 (Suc index) w3" "g' = snd (mt_bytes (Suc index * request_bytes) (mt_seed seed))"
        by (rule exchanged_Suc [OF e1 req [unfolded g]]; use True None send recv len in simp)+
      have e4: "exchanged seed request_bytes fd w0 (Suc index) w4" by (rule exchanged_quiet [OF e3(1) now_quiet [OF now']])
      show ?thesis using True None req now send(1) recv(1,2) now' more e3 e4 len
        by (cases "warmup \<le> index") (auto simp: exchange_step_def)
    next
      case False
      then show ?thesis using None req now send(1) recv(1,4) more
        by (cases e') (auto simp: exchange_step_def)
    qed
  qed
qed

lemma exchanges_ok:
  "\<exists>e samples w'. run_loop (exchange_step os fd requests warmup request_bytes)
       (0, mt_seed seed, replicate request_bytes 0, [], w) = Some (e, samples, w') \<and> e \<noteq> Some [] \<and>
     (e = None \<longrightarrow> length samples = add64 warmup requests - warmup \<and>
        exchanged seed request_bytes fd w (add64 warmup requests) w')"
proof -
  let ?N = "add64 warmup requests"
  let ?I = "\<lambda>(index, generator, response :: byte list, samples :: int list, v). index \<le> ?N \<and> length response = request_bytes \<and>
    generator = snd (mt_bytes (index * request_bytes) (mt_seed seed)) \<and> length samples = index - warmup \<and>
    exchanged seed request_bytes fd w index v"
  let ?Q = "\<lambda>(e, samples, v). e \<noteq> Some [] \<and> (e = None \<longrightarrow> length (samples :: int list) = ?N - warmup \<and>
    exchanged seed request_bytes fd w ?N v)"
  have "\<exists>r. run_loop (exchange_step os fd requests warmup request_bytes)
      (0, mt_seed seed, replicate request_bytes 0, [], w) = Some r \<and> ?Q r"
  proof (rule run_loop_total [where I = ?I and m = "\<lambda>(index, _). ?N - index"])
    fix s assume I: "?I s"
    obtain index generator response samples v where s: "s = (index, generator, response, samples, v)" by (cases s)
    show "loop_ok ?I (\<lambda>(index, _). ?N - index) ?Q s (exchange_step os fd requests warmup request_bytes s)"
    proof (cases "index < ?N")
      case True
      obtain out where "exchange_step os fd requests warmup request_bytes s = Some out"
        "\<exists>e samples' w'. out = Halt (Some e, samples', w') \<and> e \<noteq> [] \<or>
         (\<exists>g' response' samples' w'. out = Again (Suc index, g', response', samples', w') \<and> length response' = request_bytes \<and>
            length samples' = length samples + (if index \<ge> warmup then 1 else 0) \<and>
            exchanged seed request_bytes fd w (Suc index) w' \<and> g' = snd (mt_bytes (Suc index * request_bytes) (mt_seed seed)))"
        using exchange_ok [OF _ _ _ True, of response request_bytes seed fd w v generator samples] I
        unfolding s by (auto simp del: ex_simps)
      then show ?thesis using True I by (auto simp: s)
    next
      case False
      then show ?thesis using I by (auto simp: s exchange_step_def)
    qed
  qed (auto simp: exchanged_def)
  then show ?thesis by blast
qed

lemma client_drain_ok:
  "\<exists>e w'. run_loop (client_drain_step os fd) (buffer, w) = Some (e, w') \<and> e \<noteq> Some [] \<and>
     (e = None \<longrightarrow> received w' = received w \<and> sent w' = sent w)"
proof -
  let ?I = "\<lambda>(b :: byte list, v). received v = received w \<and> sent v = sent w"
  let ?Q = "\<lambda>(e, v). e \<noteq> Some [] \<and> (e = None \<longrightarrow> received v = received w \<and> sent v = sent w)"
  have "\<exists>r. run_loop (client_drain_step os fd) (buffer, w) = Some r \<and> ?Q r"
  proof (rule run_loop_total [where I = ?I and m = "\<lambda>(b, v). interruptions v"])
    fix s assume I: "?I s"
    obtain b v where s: "s = (b, v)" by (cases s)
    obtain count errno b' v' where call: "k_recv (co_kernel os) fd b v = ((count, errno, b'), v')" by (metis prod.collapse)
    from recv_ok [OF call] recv_interrupted [of fd b v count b' v'] I call
    show "loop_ok ?I (\<lambda>(b, v). interruptions v) ?Q s (client_drain_step os fd s)"
      by (auto simp: s client_drain_step_def)
  qed simp
  then show ?thesis by blast
qed

lemma finish_requests_ok:
  "\<exists>res w'. finish_requests os fd requests warmup request_bytes start result w = Some (res, w') \<and>
     cr_latency_samples_us res = cr_latency_samples_us result \<and>
     (if cr_error res = cr_error result
      then cr_success res \<and> cr_bytes res = mul64 (add64 warmup requests) request_bytes \<and>
        received w' = received w \<and> sent w' = sent w
      else cr_success res = cr_success result \<and> cr_error res \<noteq> [])" if "cr_error result = []"
proof -
  obtain res w1 where sd: "k_shutdown_wr (co_kernel os) fd w = (res, w1)" by fastforce
  obtain e w2 where dr: "run_loop (client_drain_step os fd) (replicate 4096 0, w1) = Some (e, w2)" "e \<noteq> Some []"
    "e = None \<longrightarrow> received w2 = received w1 \<and> sent w2 = sent w1" using client_drain_ok [of fd] by blast
  obtain now w3 where now: "co_now os w2 = (now, w3)" by fastforce
  show ?thesis using that sd dr now kshutdown_ok [OF sd] now_quiet [OF now]
    by (cases e) (auto simp: finish_requests_def)
qed

lemma run_request_response_ok:
  assumes "ep_to_sockaddr pton endpoint = Inr address" and "co_socket os w = ((fd, errno), w1)"
  shows "\<exists>result w'. run_request_response os pton endpoint requests warmup request_bytes seed w = Some (Inr (result, w')) \<and>
    (cr_success result \<longleftrightarrow> cr_error result = []) \<and>
    (cr_success result \<longrightarrow> length (cr_latency_samples_us result) = add64 warmup requests - warmup \<and>
       cr_bytes result = mul64 (add64 warmup requests) request_bytes \<and>
       received w' fd = fst (mt_bytes (add64 warmup requests * request_bytes) (mt_seed seed)) \<and>
       sent w' fd = received w' fd)"
proof (cases "0 \<le> fd")
  case False
  then show ?thesis using assms by (simp add: run_request_response_def client_result_new_def Let_def)
next
  case True
  define w2 where "w2 = co_setsockopt os fd NoDelay (co_setsockopt os fd (SendTimeout 30) (co_setsockopt os fd (ReceiveTimeout 30) w1))"
  obtain start w3 where now: "co_now os w2 = (start, w3)" by fastforce
  obtain res err w4 where con: "co_connect os fd address w3 = ((res, err), w4)" by (metis prod.collapse)
  have w2: "received w2 = received w1 \<and> sent w2 = sent w1" by (simp add: w2_def setsockopt_quiet)
  note fresh = connected_quiet [OF assms(2) True w2 now con]
  obtain e samples w5 where ex: "run_loop (exchange_step os fd requests warmup request_bytes)
      (0, mt_seed seed, replicate request_bytes 0, [], w4) = Some (e, samples, w5)" "e \<noteq> Some []"
    "e = None \<longrightarrow> length samples = add64 warmup requests - warmup \<and> exchanged seed request_bytes fd w4 (add64 warmup requests) w5"
    using exchanges_ok by blast
  let ?result = "client_result_new\<lparr>cr_latency_samples_us := samples\<rparr>"
  have new: "cr_error ?result = []" "\<not> cr_success ?result" "cr_latency_samples_us ?result = samples" by (simp_all add: client_result_new_def)
  obtain result w6 where fin: "finish_requests os fd requests warmup request_bytes start ?result w5 = Some (result, w6)"
    "cr_latency_samples_us result = samples"
    "if cr_error result = [] then cr_success result \<and> cr_bytes result = mul64 (add64 warmup requests) request_bytes \<and>
        received w6 = received w5 \<and> sent w6 = sent w5 else \<not> cr_success result"
    using finish_requests_ok [OF new(1), of fd requests warmup request_bytes start w5] new by (auto split: if_splits)
  show ?thesis
  proof (cases "0 \<le> res \<and> e = None")
    case ok: True
    then show ?thesis
      using True assms now con w2_def ex fin fresh close_quiet [of fd w6]
      by (auto simp: run_request_response_def exchanged_def split: if_splits)
  next
    case False
    then show ?thesis using True assms now con w2_def ex(1,2)
      by (cases e) (auto simp: run_request_response_def client_result_new_def Let_def)
  qed
qed

end

section \<open>A scripted client\<close>

definition scripted_client :: "script_world client_os" where
  "scripted_client =
     \<lparr>co_kernel = scripted_kernel,
      co_socket = (\<lambda>w. ((3, 0), w\<lparr>sw_received := (sw_received w)(3 := []), sw_sent := (sw_sent w)(3 := [])\<rparr>)),
      co_setsockopt = (\<lambda>fd opt w. w), co_connect = (\<lambda>fd address w. ((0, 0), w)), co_shutdown_both = (\<lambda>fd w. w),
      co_close = (\<lambda>fd w. w), co_now = (\<lambda>w. (0, w)), co_strerror = (\<lambda>errno. [])\<rparr>"

lemma scripted_fields [simp]:
  "co_kernel scripted_client = scripted_kernel" "co_setsockopt scripted_client fd opt w = w"
  "co_socket scripted_client w = ((3, 0), w\<lparr>sw_received := (sw_received w)(3 := []), sw_sent := (sw_sent w)(3 := [])\<rparr>)"
  "co_connect scripted_client fd address w = ((0, 0), w)" "co_shutdown_both scripted_client fd w = w"
  "co_close scripted_client fd w = w" "co_now scripted_client w = (0, w)"
  "k_recv scripted_kernel = scripted_recv" "k_send scripted_kernel = scripted_send"
  "k_shutdown_wr scripted_kernel fd w = ((0, 0), w\<lparr>sw_shutdowns := sw_shutdowns w @ [fd]\<rparr>)"
  by (simp_all add: scripted_client_def scripted_kernel_def)

interpretation scripted_calls: client_calls scripted_client sw_received sw_sent sw_steps
proof -
  have "co_kernel scripted_client = scripted_kernel" by (simp add: scripted_client_def)
  then have "posix_kernel (co_kernel scripted_client) sw_received sw_sent sw_steps"
    using scripted.posix_kernel_axioms by simp
  then show "client_calls scripted_client sw_received sw_sent sw_steps"
    by (rule client_calls.intro) (unfold_locales, auto simp: scripted_client_def)
qed

definition echo_world :: "byte list \<Rightarrow> script_world" where
  "echo_world bytes = \<lparr>sw_recv_script = [Deliver bytes, EndOfStream], sw_send_script = [], sw_received = (\<lambda>_. []),
     sw_sent = (\<lambda>_. []), sw_shutdowns = []\<rparr>"

definition echo_pton :: inet_pton where
  "echo_pton host = Some 0x7F000001"

abbreviation echo_endpoint :: endpoint where
  "echo_endpoint \<equiv> \<lparr>ep_host = ''127.0.0.1'', ep_port = 8080\<rparr>"

text \<open>The steps on explicit states, for evaluation.\<close>

lemma transfer_step_eq: "transfer_step os fd payload schedule (n, t, w) =
    (if tr_reading t \<and> (schedule n \<or> joining t) then Some (Again (Suc n, reader_step os fd payload t w))
     else if \<not> joining t then Some (Again (Suc n, sender_step os fd payload t w))
     else Some (Halt (t, w)))"
  by (simp add: transfer_step_def)

lemma client_send_step_eq: "client_send_step os fd payload (offset, w) =
    (if offset < length payload
     then (let ((count, errno), w) = k_send (co_kernel os) fd (drop offset payload) w in
           if count > 0 then Some (Again (offset + nat count, w))
           else if count < 0 \<and> errno = EINTR then Some (Again (offset, w))
           else Some (Halt (Some (''send='' @ co_strerror os errno), w)))
     else Some (Halt (None, w)))"
  by (simp add: client_send_step_def)

lemma receive_exact_step_eq: "receive_exact_step os fd expected (buffer, n, w) =
    (if n < expected
     then (let ((count, errno, part), w) = k_recv (co_kernel os) fd (take (expected - n) (drop n buffer)) w;
               buffer = take n buffer @ part @ drop expected buffer
           in if count > 0 then Some (Again (buffer, n + nat count, w))
              else if count = 0 then Some (Halt (Some ''unexpected_eof_mid_response'', buffer, w))
              else if errno = EINTR then Some (Again (buffer, n, w))
              else Some (Halt (Some (''recv='' @ co_strerror os errno), buffer, w)))
     else Some (Halt (None, buffer, w)))"
  by (simp add: receive_exact_step_def)

lemma echo_run:
  assumes "length payload = 2"
  shows "\<exists>t w. run_loop (transfer_step scripted_client 3 payload (\<lambda>_. False)) (0, transfer_start, echo_world payload) = Some (t, w) \<and>
     tr_sender t = Joining None \<and> tr_receive_error t = [] \<and> tr_received t = payload"
  using assms
  by (simp add: run_loop.simps [of "transfer_step scripted_client 3 payload (\<lambda>_. False)"] transfer_step_eq transfer_start_def
      joining_def sender_step_def reader_step_def client_send_step_def scripted_send_def scripted_recv_def echo_world_def Let_def)

section \<open>Properties\<close>

text \<open>
  C20. The bulk workload's verdict is right under every interleaving. Whatever the schedule of the
  two threads and the partial transfers, interruptions and failures of the calls, the workload
  returns; it reports success exactly if it reports no error; on success the peer was sent exactly
  the seeded payload and the same bytes came back; a mismatch is reported only when everything was
  sent and something else came back, and surplus only when more bytes came back than were sent. In
  every case a prefix of the payload was sent and at most one buffer beyond the payload was kept.
\<close>

theorem client_stream_verified:
  assumes "client_calls os received sent interruptions" and "ep_to_sockaddr pton endpoint = Inr address"
    and "co_socket os w = ((fd, errno), w1)"
  shows "\<exists>result w' payload. payload = fst (mt_bytes n (mt_seed seed)) \<and>
    run_connection os pton endpoint n seed schedule w = Some (Inr (result, w')) \<and>
    cr_bytes result = n \<and> (cr_success result \<longleftrightarrow> cr_error result = []) \<and>
    (cr_success result \<longrightarrow> received w' fd = payload \<and> sent w' fd = payload) \<and>
    (0 \<le> fd \<longrightarrow> (\<exists>k. sent w' fd = take k payload) \<and> length (received w' fd) \<le> n + 16384) \<and>
    (cr_error result = ''payload_mismatch'' \<longrightarrow> sent w' fd = payload \<and> received w' fd \<noteq> payload) \<and>
    (cr_error result = ''received_more_bytes_than_sent'' \<longrightarrow> n < length (received w' fd))"
  using client_calls.run_connection_ok [OF assms, of n seed schedule] by auto

lemma echo_connection:
  "\<exists>result w'. run_connection scripted_client echo_pton echo_endpoint 2 7 (\<lambda>_. False)
     (echo_world (fst (mt_bytes 2 (mt_seed 7)))) = Some (Inr (result, w')) \<and> cr_success result"
proof -
  let ?payload = "fst (mt_bytes 2 (mt_seed 7))"
  have w: "(echo_world ?payload)\<lparr>sw_received := (\<lambda>_. [])(3 := []), sw_sent := (\<lambda>_. [])(3 := [])\<rparr> = echo_world ?payload"
    by (simp add: echo_world_def fun_eq_iff)
  obtain t w where "run_loop (transfer_step scripted_client 3 ?payload (\<lambda>_. False)) (0, transfer_start, echo_world ?payload) = Some (t, w)"
    "tr_sender t = Joining None" "tr_receive_error t = []" "tr_received t = ?payload"
    using echo_run [of ?payload] by auto
  with w show ?thesis
    by (simp add: run_connection_def ep_to_sockaddr_def echo_pton_def finish_connection_def Let_def echo_world_def)
qed

theorem client_stream_verified_witness:
  "\<exists>result w'. run_connection scripted_client echo_pton echo_endpoint 2 7 (\<lambda>_. False)
     (echo_world (fst (mt_bytes 2 (mt_seed 7)))) = Some (Inr (result, w')) \<and> cr_success result \<and>
     sw_received w' 3 = fst (mt_bytes 2 (mt_seed 7)) \<and> sw_sent w' 3 = fst (mt_bytes 2 (mt_seed 7))"
proof -
  have "ep_to_sockaddr echo_pton echo_endpoint = Inr (0x7F000001, 8080)" by (simp add: ep_to_sockaddr_def echo_pton_def)
  from client_stream_verified [OF scripted_calls.client_calls_axioms this scripted_fields(3),
      of 2 7 "\<lambda>_. False" "echo_world (fst (mt_bytes 2 (mt_seed 7)))"] echo_connection
  show ?thesis by auto
qed

text \<open>
  C38. The request-response workload's verdict is right. Within the limits the command line enforces
  on the workload, it returns; it reports success exactly if it reports no error; on success exactly
  the requested number of latencies was recorded, the warm-up not among them, the byte count is
  exact, and the stream of all requests, in order, is what was sent and what came back.
\<close>

theorem client_requests_verified:
  assumes "client_calls os received sent interruptions" and "ep_to_sockaddr pton endpoint = Inr address"
    and "co_socket os w = ((fd, errno), w1)"
    and "requests \<le> 100000" and "warmup \<le> 1000" and "request_bytes \<le> 1048576"
  shows "\<exists>result w'. run_request_response os pton endpoint requests warmup request_bytes seed w = Some (Inr (result, w')) \<and>
    (cr_success result \<longleftrightarrow> cr_error result = []) \<and>
    (cr_success result \<longrightarrow> length (cr_latency_samples_us result) = requests \<and>
       cr_bytes result = (warmup + requests) * request_bytes \<and>
       received w' fd = fst (mt_bytes ((warmup + requests) * request_bytes) (mt_seed seed)) \<and> sent w' fd = received w' fd)"
proof -
  have n: "add64 warmup requests = warmup + requests" using assms(4,5) by (simp add: u64_modulus_def)
  have "(warmup + requests) * request_bytes \<le> 101000 * 1048576" using assms(4-6) by (intro mult_mono) simp_all
  then have "mul64 (warmup + requests) request_bytes = (warmup + requests) * request_bytes" by (simp add: u64_modulus_def)
  with n client_calls.run_request_response_ok [OF assms(1-3), of requests warmup request_bytes seed] show ?thesis by simp
qed

lemma scripted_send_all:
  "sw_send_script w = [] \<Longrightarrow> xs \<noteq> [] \<Longrightarrow>
   client_send_all scripted_client 3 xs w = Some (None, w\<lparr>sw_sent := (sw_sent w)(3 := sw_sent w 3 @ xs)\<rparr>)"
  by (simp add: client_send_all_def run_loop.simps [of "client_send_step scripted_client 3 xs"] client_send_step_eq
      scripted_send_def)

lemma scripted_receive_two:
  "sw_recv_script w = Deliver (x # y # later) # rest \<Longrightarrow> length buffer = 2 \<Longrightarrow>
   receive_exact scripted_client 3 buffer 2 w = Some (None, [x, y],
     w\<lparr>sw_recv_script := (if later = [] then rest else Deliver later # rest),
       sw_received := (sw_received w)(3 := sw_received w 3 @ [x, y])\<rparr>)"
  by (simp add: receive_exact_def run_loop.simps [of "receive_exact_step scripted_client 3 2"] receive_exact_step_eq
      scripted_recv_def Let_def min_def)

lemma echo_requests:
  "\<exists>result w'. run_request_response scripted_client echo_pton echo_endpoint 1 1 2 7
     (echo_world (fst (mt_bytes 4 (mt_seed 7)))) = Some (Inr (result, w')) \<and> cr_success result"
proof -
  obtain xs g1 where 1: "mt_bytes 2 (mt_seed 7) = (xs, g1)" by fastforce
  obtain ys g2 where 2: "mt_bytes 2 g1 = (ys, g2)" by fastforce
  have "length xs = 2" "length ys = 2" using mt_bytes_length [of 2] 1 2 by (metis fst_conv)+
  then obtain a b c d where xy: "xs = [a, b]" "ys = [c, d]" by (auto simp: numeral_2_eq_2 length_Suc_conv)
  have all: "fst (mt_bytes 4 (mt_seed 7)) = [a, b, c, d]"
    using mt_bytes_add [of 2 2 "mt_seed 7"] 1 2 xy by simp
  have n: "add64 1 1 = 2" by (simp add: u64_modulus_def)
  define w0 where "w0 = echo_world [a, b, c, d]"
  have w0: "w0\<lparr>sw_received := (sw_received w0)(3 := []), sw_sent := (sw_sent w0)(3 := [])\<rparr> = w0"
    "sw_recv_script w0 = [Deliver [a, b, c, d], EndOfStream]" "sw_send_script w0 = []"
    by (simp_all add: w0_def echo_world_def fun_eq_iff)
  obtain w1 where w1: "exchange_step scripted_client 3 1 1 2 (0, mt_seed 7, [0, 0], [], w0) = Some (Again (1, g1, [a, b], [], w1))"
    "sw_recv_script w1 = [Deliver [c, d], EndOfStream]" "sw_send_script w1 = []"
    using 1 xy w0 n by (simp add: exchange_step_def scripted_send_all scripted_receive_two)
  obtain w2 where w2: "exchange_step scripted_client 3 1 1 2 (1, g1, [a, b], [], w1) = Some (Again (2, g2, [c, d], [0], w2))"
    "sw_recv_script w2 = [EndOfStream]" "sw_send_script w2 = []"
    using 2 xy w1 n by (simp add: exchange_step_def scripted_send_all scripted_receive_two duration_cast_def)
  have "run_loop (exchange_step scripted_client 3 1 1 2) (0, mt_seed 7, [0, 0], [], w0) = Some (None, [0], w2)"
    using run_loop_Again [of "exchange_step scripted_client 3 1 1 2", OF w1(1)]
      run_loop_Again [of "exchange_step scripted_client 3 1 1 2", OF w2(1)] n
    by (simp add: run_loop.simps [of _ "(2, g2, [c, d], [0], w2)"] exchange_step_def)
  moreover have "\<exists>res w'. finish_requests scripted_client 3 1 1 2 0 r w2 = Some (res, w') \<and> cr_success res" for r
  proof -
    have "client_drain_step scripted_client 3 (replicate 4096 0, w2\<lparr>sw_shutdowns := sw_shutdowns w2 @ [3]\<rparr>) =
        Some (Halt (None, w2\<lparr>sw_recv_script := [], sw_shutdowns := sw_shutdowns w2 @ [3]\<rparr>))"
      using w2(2) by (simp add: client_drain_step_def scripted_recv_def)
    from run_loop_Halt [of "client_drain_step scripted_client 3", OF this] show ?thesis by (simp add: finish_requests_def)
  qed
  ultimately show ?thesis
    using w0(1) by (simp add: all run_request_response_def ep_to_sockaddr_def echo_pton_def numeral_2_eq_2 flip: w0_def)
qed

theorem client_requests_verified_witness:
  "\<exists>result w'. run_request_response scripted_client echo_pton echo_endpoint 1 1 2 7
     (echo_world (fst (mt_bytes 4 (mt_seed 7)))) = Some (Inr (result, w')) \<and> cr_success result \<and>
     length (cr_latency_samples_us result) = 1 \<and> cr_bytes result = 4 \<and> sw_received w' 3 = fst (mt_bytes 4 (mt_seed 7))"
proof -
  have "ep_to_sockaddr echo_pton echo_endpoint = Inr (0x7F000001, 8080)" by (simp add: ep_to_sockaddr_def echo_pton_def)
  from client_requests_verified [OF scripted_calls.client_calls_axioms this scripted_fields(3),
      of 1 1 2 7 "echo_world (fst (mt_bytes 4 (mt_seed 7)))"] echo_requests
  show ?thesis by auto
qed

end
