(* ===== verification/Client_Report.thy ===== *)
theory Client_Report
  imports Client_Transfer Complex_Main "HOL-Library.Log_Nat" "HOL-Library.Signed_Division"
begin

text \<open>
  The rest of \<^verbatim>\<open>src/client/main.cpp\<close>: the command line with its safety limits, the aggregation of the
  workers' results, the nearest-rank percentiles and the JSON summary. \<^verbatim>\<open>uname\<close> and \<^verbatim>\<open>inet_pton\<close> are
  parameters; the workloads are in theory \<open>Client_Transfer\<close>, their threads in \<open>Client_Program\<close>.
\<close>

section \<open>Doubles\<close>

text \<open>
  IEEE arithmetic on positive doubles in the normal range: the exact result rounded to 53 binary
  digits, to nearest with ties to even. \<open>binary_exponent x\<close> is the exponent with
  \<open>2 ^ (e - 1) \<le> x < 2 ^ e\<close>.
\<close>

definition binary_exponent :: "rat \<Rightarrow> int" where
  "binary_exponent x =
     (if x \<ge> 1 then int (floorlog 2 (nat \<lfloor>x\<rfloor>)) else 1 - int (floorlog 2 (nat (\<lceil>1 / x\<rceil> - 1))))"

definition round_half_even :: "rat \<Rightarrow> int" where
  "round_half_even x =
     (let f = \<lfloor>x\<rfloor>; d = x - of_int f
      in if d < 1 / 2 then f else if d > 1 / 2 then f + 1 else if even f then f else f + 1)"

definition double_round :: "rat \<Rightarrow> rat" where
  "double_round x =
     (if x = 0 then 0
      else let e = binary_exponent x; scale = (if e \<le> 53 then 2 ^ nat (53 - e) else 1 / 2 ^ nat (e - 53))
           in of_int (round_half_even (x * scale)) / scale)"

section \<open>Percentiles\<close>

definition percentile_rank :: "nat \<Rightarrow> rat \<Rightarrow> nat" where
  "percentile_rank n p =
     nat (max 1 \<lceil>double_round (double_round (p / 100) * double_round (of_nat n))\<rceil>)"

definition percentile :: "int list \<Rightarrow> rat \<Rightarrow> exn + int" where
  "percentile samples p =
     (let rank = percentile_rank (length samples) p
      in if rank - 1 < length samples then Inr (samples ! (rank - 1))
         else Inl (UndefinedBehavior ''index past the end of the samples''))"

section \<open>Command line\<close>

record client_options =
  cl_endpoint :: endpoint
  cl_mode :: client_mode
  cl_connection_count :: nat
  cl_payload_bytes :: nat
  cl_requests :: nat
  cl_warmup :: nat
  cl_request_bytes :: nat
  cl_seed :: u64

definition client_parse_size :: "string \<Rightarrow> string \<Rightarrow> exn + nat" where
  "client_parse_size text name =
     (case from_chars 18446744073709551615 text of
        Inl _ \<Rightarrow> Inl (InvalidArgument (name @ '' must be a positive integer''))
      | Inr (parsed, rest) \<Rightarrow>
          if rest \<noteq> [] \<or> parsed = 0 then Inl (InvalidArgument (name @ '' must be a positive integer''))
          else Inr parsed)"

definition parse_seed :: "string \<Rightarrow> exn + u64" where
  "parse_seed text =
     (case from_chars 18446744073709551615 text of
        Inl _ \<Rightarrow> Inl (InvalidArgument ''seed must be an unsigned integer'')
      | Inr (parsed, rest) \<Rightarrow>
          if rest \<noteq> [] then Inl (InvalidArgument ''seed must be an unsigned integer'') else Inr (of_nat parsed))"

definition parse_client_mode :: "string \<Rightarrow> exn + client_mode" where
  "parse_client_mode text =
     (if text = ''bulk'' then Inr Bulk
      else if text = ''request-response'' then Inr RequestResponse
      else Inl (InvalidArgument ''mode must be bulk or request-response''))"

definition client_set_option :: "inet_pton \<Rightarrow> string \<Rightarrow> string \<Rightarrow> client_options \<Rightarrow> (exn + client_options) option" where
  "client_set_option pton argument v opts =
     (if argument = ''--connect'' then Some (bind_sum (ep_parse pton v) (\<lambda>e. Inr (opts\<lparr>cl_endpoint := e\<rparr>)))
      else if argument = ''--connections''
      then Some (bind_sum (client_parse_size v ''connections'') (\<lambda>n. Inr (opts\<lparr>cl_connection_count := n\<rparr>)))
      else if argument = ''--payload-bytes''
      then Some (bind_sum (client_parse_size v ''payload_bytes'') (\<lambda>n. Inr (opts\<lparr>cl_payload_bytes := n\<rparr>)))
      else if argument = ''--mode'' then Some (bind_sum (parse_client_mode v) (\<lambda>m. Inr (opts\<lparr>cl_mode := m\<rparr>)))
      else if argument = ''--requests''
      then Some (bind_sum (client_parse_size v ''requests'') (\<lambda>n. Inr (opts\<lparr>cl_requests := n\<rparr>)))
      else if argument = ''--warmup''
      then Some (bind_sum (client_parse_size v ''warmup'') (\<lambda>n. Inr (opts\<lparr>cl_warmup := n\<rparr>)))
      else if argument = ''--request-bytes''
      then Some (bind_sum (client_parse_size v ''request_bytes'') (\<lambda>n. Inr (opts\<lparr>cl_request_bytes := n\<rparr>)))
      else if argument = ''--seed'' then Some (bind_sum (parse_seed v) (\<lambda>s. Inr (opts\<lparr>cl_seed := s\<rparr>)))
      else None)"

datatype client_command = ClientHelp | RunClient client_options

fun client_parse_args :: "inet_pton \<Rightarrow> string list \<Rightarrow> client_options \<Rightarrow> exn + client_command" where
  "client_parse_args pton [] opts = Inr (RunClient opts)"
| "client_parse_args pton (argument # rest) opts =
     (if argument = ''--help'' then Inr ClientHelp
      else if client_set_option pton argument [] opts = None
      then Inl (InvalidArgument (''unknown argument: '' @ argument))
      else (case rest of
              [] \<Rightarrow> Inl (InvalidArgument (argument @ '' requires a value''))
            | v # rest' \<Rightarrow>
                (case client_set_option pton argument v opts of
                   Some (Inr opts') \<Rightarrow> client_parse_args pton rest' opts'
                 | Some (Inl e) \<Rightarrow> Inl e
                 | None \<Rightarrow> Inl (InvalidArgument (''unknown argument: '' @ argument)))))"

definition client_options_new :: "endpoint \<Rightarrow> client_options" where
  "client_options_new endpoint = \<lparr>cl_endpoint = endpoint, cl_mode = Bulk, cl_connection_count = 1, cl_payload_bytes = 4096,
     cl_requests = 100, cl_warmup = 5, cl_request_bytes = 1024, cl_seed = 12345\<rparr>"

definition client_check_limits :: "inet_pton \<Rightarrow> client_options \<Rightarrow> exn + client_options" where
  "client_check_limits pton opts =
     bind_sum (ep_is_loopback pton (cl_endpoint opts)) (\<lambda>loopback.
       if \<not> loopback then Inl (InvalidArgument ''the client only permits loopback destinations'')
       else if cl_connection_count opts > 1024 \<or> cl_payload_bytes opts > 64 * 1024 * 1024
       then Inl (InvalidArgument ''requested workload exceeds the safety limit'')
       else if cl_requests opts > 100000 \<or> cl_warmup opts > 1000 \<or> cl_request_bytes opts > 1 * 1024 * 1024 \<or>
               mul64 (cl_connection_count opts) (cl_requests opts) > 1000000
       then Inl (InvalidArgument ''requested benchmark exceeds the sample safety limit'')
       else Inr opts)"

definition client_setup :: "inet_pton \<Rightarrow> string list \<Rightarrow> exn + client_command" where
  "client_setup pton arguments =
     bind_sum (ep_parse pton ''127.0.0.1:8080'') (\<lambda>endpoint.
     bind_sum (client_parse_args pton arguments (client_options_new endpoint)) (\<lambda>command.
       case command of
         ClientHelp \<Rightarrow> Inr ClientHelp
       | RunClient opts \<Rightarrow> bind_sum (client_check_limits pton opts) (\<lambda>opts. Inr (RunClient opts))))"

section \<open>Aggregation and report\<close>

definition connection_seed :: "client_options \<Rightarrow> nat \<Rightarrow> u64" where
  "connection_seed opts index = cl_seed opts + of_nat index"

record client_summary =
  su_successful :: nat
  su_maximum_duration_us :: int
  su_first_error :: string
  su_pooled_samples :: "int list"

definition client_summary_new :: client_summary where
  "client_summary_new = \<lparr>su_successful = 0, su_maximum_duration_us = 0, su_first_error = [], su_pooled_samples = []\<rparr>"

definition add_result :: "client_summary \<Rightarrow> client_result \<Rightarrow> client_summary" where
  "add_result s r =
     (if cr_success r
      then s\<lparr>su_successful := su_successful s + 1,
             su_maximum_duration_us := max (su_maximum_duration_us s) (cr_duration_us r),
             su_pooled_samples := su_pooled_samples s @ cr_latency_samples_us r\<rparr>
      else if su_first_error s = [] then s\<lparr>su_first_error := cr_error r\<rparr> else s)"

definition summarize :: "client_result list \<Rightarrow> client_summary" where
  "summarize results = foldl add_result client_summary_new results"

definition latency_json :: "int list \<Rightarrow> exn + string" where
  "latency_json pooled =
     (let samples = sort pooled; total = sum_list samples in
      bind_sum (percentile samples 50) (\<lambda>p50. bind_sum (percentile samples 90) (\<lambda>p90.
      bind_sum (percentile samples 99) (\<lambda>p99.
        Inr ('',\"latency_us\":{\"count\":'' @ nat_to_string (length samples) @ '',\"min\":'' @ int_to_string (hd samples) @
             '',\"mean\":'' @ int_to_string (total sdiv int (length samples)) @ '',\"p50\":'' @ int_to_string p50 @
             '',\"p90\":'' @ int_to_string p90 @ '',\"p99\":'' @ int_to_string p99 @
             '',\"max\":'' @ int_to_string (last samples) @ ''}'')))))"

text \<open>\<^verbatim>\<open>uname\<close> gives the names of the system, its release and the machine, or fails.\<close>

definition client_report ::
  "(string \<times> string \<times> string) option \<Rightarrow> client_options \<Rightarrow> client_result list \<Rightarrow> exn + string \<times> int" where
  "client_report uname opts results =
     (let s = summarize results;
          header = ''{\"mode\":\"'' @ (if cl_mode opts = Bulk then ''bulk'' else ''request-response'') @ ''\"'' @
            '',\"connections\":'' @ nat_to_string (cl_connection_count opts) @ '',\"successful\":'' @ nat_to_string (su_successful s) @
            '',\"seed\":'' @ u64_to_string (cl_seed opts);
          workload = (if cl_mode opts = Bulk then '',\"payload_bytes_each\":'' @ nat_to_string (cl_payload_bytes opts)
            else '',\"requests_per_connection\":'' @ nat_to_string (cl_requests opts) @
                 '',\"warmup_per_connection\":'' @ nat_to_string (cl_warmup opts) @
                 '',\"request_bytes\":'' @ nat_to_string (cl_request_bytes opts));
          environment = (case uname of None \<Rightarrow> []
            | Some (sysname, release, machine) \<Rightarrow>
                '',\"environment\":{\"sysname\":\"'' @ sysname @ ''\",\"release\":\"'' @ release @
                ''\",\"machine\":\"'' @ machine @ ''\"}'');
          maximum = '',\"max_duration_us\":'' @ int_to_string (su_maximum_duration_us s)
      in bind_sum (if cl_mode opts = RequestResponse \<and> su_pooled_samples s \<noteq> []
                   then latency_json (su_pooled_samples s) else Inr []) (\<lambda>latency.
           Inr (header @ workload @ environment @ maximum @ latency @
                (if su_first_error s \<noteq> [] then '',\"first_error\":\"'' @ su_first_error s @ ''\"'' else []) @ ''}'' @ [CHR 0x0A],
                if su_successful s = cl_connection_count opts then 0 else 1)))"

section \<open>Rounding\<close>

lemma round_half_even_near: "\<bar>of_int (round_half_even x) - x\<bar> \<le> 1 / 2"
proof -
  have "of_int \<lfloor>x\<rfloor> \<le> x" "x < of_int \<lfloor>x\<rfloor> + 1" by linarith+
  then show ?thesis by (simp add: round_half_even_def Let_def)
qed

lemma round_half_even_unique:
  assumes "\<bar>x - of_int k\<bar> < 1 / 2"
  shows "round_half_even x = k"
proof -
  have "\<bar>(of_int (round_half_even x) :: rat) - of_int k\<bar> < 1"
    using round_half_even_near [of x] assms by linarith
  then have "\<bar>of_int (round_half_even x - k) :: rat\<bar> < of_int 1" by simp
  then show ?thesis by linarith
qed

lemma double_round_unit:
  assumes "1 / 2 \<le> x" and "x < 1"
  shows "double_round x = of_int (round_half_even (x * 2 ^ 53)) / 2 ^ 53"
proof -
  have "1 < 1 / x" "1 / x \<le> 2" using assms by (simp_all add: field_simps)
  then have "\<lceil>1 / x\<rceil> = 2" by linarith
  moreover have "floorlog 2 1 = 1" by (simp add: floorlog_def)
  ultimately have "binary_exponent x = 0" using assms(2) by (simp add: binary_exponent_def)
  then show ?thesis using assms(1) by (simp add: double_round_def Let_def)
qed

lemma double_round_scaled:
  assumes "1 / 2 \<le> x" and "x < 2 ^ 20"
  shows "\<exists>j. 33 \<le> j \<and> double_round x = of_int (round_half_even (x * 2 ^ j)) / 2 ^ j \<and> x * 2 ^ j < 2 ^ 53"
proof (cases "1 \<le> x")
  case True
  define m where "m = nat \<lfloor>x\<rfloor>"
  define f where "f = floorlog 2 m"
  have m: "0 < m" "of_nat m \<le> x" "x < of_nat m + 1"
    using True by (auto simp: m_def) linarith+
  have "of_nat m < (2 :: rat) ^ 20" using m(2) assms(2) by linarith
  then have "(of_nat m :: rat) < of_nat (2 ^ 20)" by simp
  then have "m < 2 ^ 20" by (simp only: of_nat_less_iff)
  moreover have f: "2 ^ (f - 1) \<le> m" "m < 2 ^ f" using floorlog_bounds [of m 2] m(1) by (simp_all add: f_def)
  ultimately have "(2 :: nat) ^ (f - 1) < 2 ^ 20" by linarith
  then have "f - 1 < 20" by (rule power_less_imp_less_exp [rotated]) simp
  then have le: "f \<le> 20" by simp
  have "(of_nat m :: rat) + 1 \<le> 2 ^ f" using f(2) by (metis Suc_leI of_nat_Suc of_nat_le_iff of_nat_numeral of_nat_power add.commute)
  then have "x * 2 ^ (53 - f) < 2 ^ f * 2 ^ (53 - f)" using m(3) by (intro mult_strict_right_mono) simp_all
  also have "\<dots> = 2 ^ 53" using le by (simp flip: power_add)
  finally have "x * 2 ^ (53 - f) < 2 ^ 53" .
  moreover have "double_round x = of_int (round_half_even (x * 2 ^ (53 - f))) / 2 ^ (53 - f)"
    using True le by (simp add: double_round_def Let_def binary_exponent_def flip: m_def f_def) (simp add: nat_diff_distrib')
  ultimately show ?thesis using le by (intro exI [of _ "53 - f"]) simp
next
  case False
  then have "double_round x = of_int (round_half_even (x * 2 ^ 53)) / 2 ^ 53" using double_round_unit assms(1) by simp
  moreover have "x * 2 ^ 53 < 2 ^ 53" using False assms(1) by simp
  ultimately show ?thesis by (intro exI [of _ 53]) simp
qed

text \<open>
  A factor close enough to a fraction with denominator 100 gives, multiplied with a count of samples
  and rounded, a number with the same ceiling as the exact product.
\<close>

lemma hundredths_far:
  fixes m :: nat and q :: rat
  assumes q: "q = of_nat m / 100" and frac: "\<nexists>k. q = of_int k"
  shows "q \<le> of_int \<lceil>q\<rceil> - 1 / 100" and "of_int \<lceil>q\<rceil> - 1 + 1 / 100 \<le> q"
proof -
  define k where "k = \<lceil>q\<rceil>"
  have k: "of_int k - 1 < q" "q \<le> of_int k" unfolding k_def by linarith+
  have "q \<noteq> of_int k" using frac by blast
  then have "(of_int (int m) :: rat) < of_int (100 * k)" "of_int (100 * (k - 1)) < (of_int (int m) :: rat)"
    using k by (simp_all add: q)
  then have "int m < 100 * k" "100 * (k - 1) < int m" by (simp_all only: of_int_less_iff)
  then have "int m \<le> 100 * k - 1" "100 * (k - 1) + 1 \<le> int m" by linarith+
  then have "(of_int (int m) :: rat) \<le> of_int (100 * k - 1)" "(of_int (100 * (k - 1) + 1) :: rat) \<le> of_int (int m)"
    by (simp_all only: of_int_le_iff)
  then show "q \<le> of_int \<lceil>q\<rceil> - 1 / 100" and "of_int \<lceil>q\<rceil> - 1 + 1 / 100 \<le> q"
    unfolding k_def [symmetric] by (simp_all add: q)
qed

lemma double_round_ceiling:
  assumes c: "1 / 2 \<le> c" "c \<le> 1" "\<bar>c - of_nat p / 100\<bar> * 2 ^ 53 \<le> 1 / 5" and n: "0 < n" "n \<le> 1000000"
  shows "\<lceil>double_round (c * of_nat n)\<rceil> = \<lceil>of_nat (p * n) / (100 :: rat)\<rceil>"
proof -
  define x where "x = c * of_nat n"
  define q where "q = (of_nat (p * n) / 100 :: rat)"
  have "(of_nat 1 :: rat) \<le> of_nat n" "(of_nat n :: rat) \<le> of_nat 1000000" using n by (simp_all only: of_nat_le_iff)
  then have N: "1 \<le> (of_nat n :: rat)" "(of_nat n :: rat) \<le> 1000000" by simp_all
  have "1 / 2 * 1 \<le> c * of_nat n" using c(1) N by (intro mult_mono) simp_all
  then have lo: "1 / 2 \<le> x" by (simp add: x_def)
  have "c * of_nat n \<le> 1 * 1000000" using c N by (intro mult_mono) simp_all
  then have hi: "x < 2 ^ 20" by (simp add: x_def)
  obtain j where j: "33 \<le> j" "double_round x = of_int (round_half_even (x * 2 ^ j)) / 2 ^ j" "x * 2 ^ j < 2 ^ 53"
    using double_round_scaled [OF lo hi] by blast
  define S where "S = (2 :: rat) ^ j"
  have S: "8589934592 \<le> S" using power_increasing [OF j(1), of "2 :: rat"] by (simp add: S_def)
  define D where "D = \<bar>c - of_nat p / 100\<bar>"
  have "x - q = of_nat n * (c - of_nat p / 100)" by (simp add: x_def q_def algebra_simps)
  then have diff: "\<bar>x - q\<bar> = of_nat n * D" by (simp add: D_def abs_mult)
  have "of_nat n * S * (1 / 2) \<le> of_nat n * S * c" using c(1) S by (intro mult_left_mono) simp_all
  then have "of_nat n * S \<le> 2 * 2 ^ 53" using j(3) by (simp add: x_def S_def mult.assoc mult.commute mult.left_commute)
  then have "of_nat n * S * D \<le> 2 * 2 ^ 53 * D" by (rule mult_right_mono) (simp add: D_def)
  then have E: "\<bar>x - q\<bar> * S \<le> 2 / 5" using c(3) by (simp add: diff D_def mult.assoc mult.commute mult.left_commute)
  show ?thesis
  proof (cases "\<exists>k. q = of_int k")
    case True
    then obtain k where k: "q = of_int k" by blast
    have "\<bar>x * S - of_int (k * 2 ^ j)\<bar> = \<bar>x - q\<bar> * S" using S by (simp add: k S_def abs_mult left_diff_distrib [symmetric])
    then have "round_half_even (x * S) = k * 2 ^ j" using E by (intro round_half_even_unique) simp
    then have "double_round x = q" using j(2) S by (simp add: k S_def)
    then show ?thesis unfolding x_def q_def by (rule arg_cong)
  next
    case False
    define k where "k = \<lceil>q\<rceil>"
    have far: "q \<le> of_int k - 1 / 100" "of_int k - 1 + 1 / 100 \<le> q"
      using hundredths_far [OF q_def False] by (simp_all add: k_def)
    have "(double_round x - x) * S = of_int (round_half_even (x * S)) - x * S"
      using S j(2) by (simp add: left_diff_distrib flip: S_def)
    then have "\<bar>double_round x - x\<bar> * S = \<bar>of_int (round_half_even (x * S)) - x * S\<bar>"
      using S abs_mult [of "double_round x - x" S] by simp
    then have "\<bar>double_round x - x\<bar> * S \<le> 1 / 2" using round_half_even_near by simp
    then have "(\<bar>double_round x - x\<bar> + \<bar>x - q\<bar>) * S \<le> 9 / 10" using E by (simp add: distrib_right)
    moreover have "(1 / 100) * 8589934592 \<le> (1 / 100) * S" using S by simp
    ultimately have "(\<bar>double_round x - x\<bar> + \<bar>x - q\<bar>) * S < (1 / 100) * S" by linarith
    then have "\<bar>double_round x - x\<bar> + \<bar>x - q\<bar> < 1 / 100" using S by (simp only: mult_less_cancel_right)
    then have "of_int k - 1 < double_round x" "double_round x \<le> of_int k" using far by linarith+
    then have "\<lceil>double_round x\<rceil> = k" by (simp add: ceiling_eq_iff)
    then show ?thesis by (simp add: k_def x_def q_def)
  qed
qed

lemma double_round_count:
  assumes "0 < n" "n \<le> 1000000"
  shows "double_round (of_nat n) = of_nat n"
proof -
  have "(of_nat 1 :: rat) \<le> of_nat n" "(of_nat n :: rat) \<le> of_nat 1000000" using assms by (simp_all only: of_nat_le_iff)
  then have "1 / 2 \<le> (of_nat n :: rat)" "(of_nat n :: rat) < 2 ^ 20" by simp_all
  then obtain j where j: "double_round (of_nat n) = of_int (round_half_even (of_nat n * 2 ^ j)) / 2 ^ j"
    using double_round_scaled by blast
  have "round_half_even (of_nat n * 2 ^ j) = int n * 2 ^ j" by (rule round_half_even_unique) simp
  with j show ?thesis by simp
qed

lemma ceiling_hundredth: "\<lceil>of_nat m / (100 :: rat)\<rceil> = int ((m + 99) div 100)"
proof -
  let ?k = "(m + 99) div 100"
  have "m \<le> 100 * ?k" "100 * ?k < m + 100" by linarith+
  then have "(of_nat m :: rat) \<le> of_nat (100 * ?k)" "(of_nat (100 * ?k) :: rat) < of_nat (m + 100)" by (simp_all only: of_nat_le_iff of_nat_less_iff)
  then show ?thesis by (intro ceiling_unique) simp_all
qed

lemma percent_factors:
  "double_round (50 / 100) = 1 / 2"
  "double_round (90 / 100) = 8106479329266893 / 2 ^ 53"
  "double_round (99 / 100) = 8917127262193582 / 2 ^ 53"
proof -
  have "round_half_even (50 / 100 * 2 ^ 53) = 4503599627370496" "round_half_even (90 / 100 * 2 ^ 53) = 8106479329266893"
    "round_half_even (99 / 100 * 2 ^ 53) = 8917127262193582"
    by (rule round_half_even_unique; simp)+
  then show "double_round (50 / 100) = 1 / 2" "double_round (90 / 100) = 8106479329266893 / 2 ^ 53"
    "double_round (99 / 100) = 8917127262193582 / 2 ^ 53"
    using double_round_unit [of "50 / 100"] double_round_unit [of "90 / 100"] double_round_unit [of "99 / 100"] by simp_all
qed

lemma percentile_rank_exact:
  assumes "0 < n" "n \<le> 1000000" and "p = 50 \<or> p = 90 \<or> p = 99"
  shows "percentile_rank n (of_nat p) = (p * n + 99) div 100"
proof -
  define c where "c = double_round (of_nat p / 100)"
  have c: "1 / 2 \<le> c" "c \<le> 1" "\<bar>c - of_nat p / 100\<bar> * 2 ^ 53 \<le> 1 / 5"
    using assms(3) percent_factors by (auto simp: c_def)
  have "1 \<le> (p * n + 99) div 100" using assms by auto
  moreover have "\<lceil>double_round (c * of_nat n)\<rceil> = int ((p * n + 99) div 100)"
    using double_round_ceiling [OF c assms(1,2)] ceiling_hundredth [of "p * n"] by simp
  ultimately show ?thesis by (simp add: percentile_rank_def double_round_count [OF assms(1,2)] max_def flip: c_def)
qed

lemma sorted_counts:
  fixes xs :: "'a :: linorder list"
  assumes "sorted xs" and "i < length xs"
  shows "Suc i \<le> length (filter (\<lambda>x. x \<le> xs ! i) xs)" and "length (filter (\<lambda>x. x < xs ! i) xs) \<le> i"
proof -
  have le: "x \<le> xs ! i" if "x \<in> set (take (Suc i) xs)" for x
    using that assms by (auto simp: in_set_conv_nth intro!: sorted_nth_mono)
  have ge: "xs ! i \<le> x" if "x \<in> set (drop i xs)" for x
    using that assms by (auto simp: in_set_conv_nth intro: sorted_nth_mono)
  have "filter (\<lambda>x. x \<le> xs ! i) (take (Suc i) xs) = take (Suc i) xs" using le by (simp add: filter_id_conv)
  then have "length (filter (\<lambda>x. x \<le> xs ! i) (take (Suc i) xs @ drop (Suc i) xs)) \<ge> Suc i"
    using assms(2) by (simp only: filter_append length_append) simp
  then show "Suc i \<le> length (filter (\<lambda>x. x \<le> xs ! i) xs)" by simp
  have "filter (\<lambda>x. x < xs ! i) (drop i xs) = []" using ge by (auto simp: filter_empty_conv not_less)
  then have "length (filter (\<lambda>x. x < xs ! i) (take i xs @ drop i xs)) \<le> i"
    by (simp only: filter_append length_append) (metis add.right_neutral length_filter_le length_take list.size(3) min.bounded_iff)
  then show "length (filter (\<lambda>x. x < xs ! i) xs) \<le> i" by simp
qed

section \<open>Summaries\<close>

lemma add_result_fold:
  "su_successful (foldl add_result s rs) = su_successful s + length (filter cr_success rs)"
  "su_maximum_duration_us (foldl add_result s rs) = foldl max (su_maximum_duration_us s) (map cr_duration_us (filter cr_success rs))"
  "su_pooled_samples (foldl add_result s rs) = su_pooled_samples s @ concat (map cr_latency_samples_us (filter cr_success rs))"
  "su_first_error (foldl add_result s rs) =
     (if su_first_error s \<noteq> [] then su_first_error s
      else case find (\<lambda>r. \<not> cr_success r \<and> cr_error r \<noteq> []) rs of None \<Rightarrow> [] | Some r \<Rightarrow> cr_error r)"
  by (induction rs arbitrary: s) (simp_all add: add_result_def)

lemma client_set_option_endpoint:
  assumes "client_set_option pton argument v opts = Some (Inr opts')"
    and "0 < cl_connection_count opts" "0 < cl_payload_bytes opts" "0 < cl_requests opts" "0 < cl_warmup opts" "0 < cl_request_bytes opts"
  shows "0 < cl_connection_count opts' \<and> 0 < cl_payload_bytes opts' \<and> 0 < cl_requests opts' \<and> 0 < cl_warmup opts' \<and> 0 < cl_request_bytes opts'"
  using assms unfolding client_set_option_def
  by (auto simp: bind_sum_Inr client_parse_size_def split: if_splits sum.splits)

lemma client_parse_args_positive:
  assumes "client_parse_args pton arguments opts = Inr (RunClient opts')"
    and "0 < cl_connection_count opts" "0 < cl_payload_bytes opts" "0 < cl_requests opts" "0 < cl_warmup opts" "0 < cl_request_bytes opts"
  shows "0 < cl_connection_count opts' \<and> 0 < cl_payload_bytes opts' \<and> 0 < cl_requests opts' \<and> 0 < cl_warmup opts' \<and> 0 < cl_request_bytes opts'"
  using assms
proof (induction pton arguments opts rule: client_parse_args.induct)
  case (2 pton argument rest opts)
  from 2(2) obtain v rest' o' where step: "rest = v # rest'" "client_set_option pton argument v opts = Some (Inr o')"
    "client_parse_args pton rest' o' = Inr (RunClient opts')" "argument \<noteq> ''--help''" "client_set_option pton argument [] opts \<noteq> None"
    by (auto split: if_splits list.splits option.splits sum.splits)
  from client_set_option_endpoint [OF step(2) 2(3-7)] 2(1) step show ?case by simp
qed simp

lemma foldl_max_Max: "foldl max (m :: int) xs = Max (insert m (set xs))"
proof (induction xs arbitrary: m)
  case (Cons a xs)
  then show ?case by (cases "xs = []") (simp_all add: max.assoc max.commute max.left_commute)
qed simp

lemma summarize_exact:
  "summarize results =
     \<lparr>su_successful = length (filter cr_success results),
      su_maximum_duration_us = Max (insert 0 (cr_duration_us ` {r \<in> set results. cr_success r})),
      su_first_error = (case find (\<lambda>r. \<not> cr_success r \<and> cr_error r \<noteq> []) results of None \<Rightarrow> [] | Some r \<Rightarrow> cr_error r),
      su_pooled_samples = concat (map cr_latency_samples_us (filter cr_success results))\<rparr>"
  by (rule client_summary.equality)
    (simp_all add: summarize_def add_result_fold client_summary_new_def foldl_max_Max)

lemma percentile_value:
  assumes "samples \<noteq> []" and "length samples \<le> 1000000" and "p = 50 \<or> p = 90 \<or> p = 99"
    and r_def: "r = (p * length samples + 99) div 100"
  shows "percentile samples (of_nat p) = Inr (samples ! (r - 1))" and "1 \<le> r" and "r - 1 < length samples"
    and "p * length samples \<le> 100 * r" and "100 * r < p * length samples + 100"
proof -
  have n: "0 < length samples" using assms(1) by simp
  show r: "1 \<le> r" "r - 1 < length samples" "p * length samples \<le> 100 * r" "100 * r < p * length samples + 100"
    using assms(3) n unfolding r_def by (elim disjE; simp; linarith)+
  show "percentile samples (of_nat p) = Inr (samples ! (r - 1))"
    using r percentile_rank_exact [OF n assms(2,3)] by (simp add: percentile_def r_def)
qed

lemma latency_json_returns:
  assumes "pooled \<noteq> []" and "length pooled \<le> 1000000"
  shows "\<exists>line. latency_json pooled = Inr line"
proof -
  have "sort pooled \<noteq> []" using assms(1) by (metis length_0_conv length_sort)
  with percentile_value(1) [of "sort pooled" 50] percentile_value(1) [of "sort pooled" 90] percentile_value(1) [of "sort pooled" 99] assms(2)
  show ?thesis by (simp add: latency_json_def bind_sum_def Let_def)
qed

lemma client_report_returns:
  assumes "cl_mode opts = RequestResponse \<Longrightarrow> length (su_pooled_samples (summarize results)) \<le> 1000000"
  shows "\<exists>text. client_report uname opts results =
    Inr (text, if su_successful (summarize results) = cl_connection_count opts then 0 else 1)"
proof (cases "cl_mode opts = RequestResponse \<and> su_pooled_samples (summarize results) \<noteq> []")
  case True
  then obtain line where "latency_json (su_pooled_samples (summarize results)) = Inr line"
    using latency_json_returns assms by blast
  with True show ?thesis unfolding client_report_def Let_def bind_sum_def by simp
next
  case False
  then show ?thesis unfolding client_report_def Let_def bind_sum_def if_not_P [OF False] by simp
qed

lemma client_check_limits_same: "client_check_limits pton opts = Inr opts' \<Longrightarrow> opts' = opts"
  by (auto simp: client_check_limits_def bind_sum_Inr split: if_splits)

lemma client_limits:
  assumes "client_setup pton arguments = Inr (RunClient opts)"
  shows "ep_is_loopback pton (cl_endpoint opts) = Inr True" and "cl_connection_count opts \<in> {1..1024}"
    and "cl_payload_bytes opts \<in> {1..67108864}" and "cl_requests opts \<in> {1..100000}" and "cl_warmup opts \<in> {1..1000}"
    and "cl_request_bytes opts \<in> {1..1048576}" and "cl_connection_count opts * cl_requests opts \<le> 1000000"
proof -
  obtain e where parsed: "client_parse_args pton arguments (client_options_new e) = Inr (RunClient opts)"
    and ok: "client_check_limits pton opts = Inr opts"
    using assms unfolding client_setup_def bind_sum_Inr
    by (elim exE conjE, split client_command.split_asm) (auto simp: bind_sum_Inr dest: client_check_limits_same)
  have pos: "0 < cl_connection_count opts" "0 < cl_payload_bytes opts" "0 < cl_requests opts" "0 < cl_warmup opts" "0 < cl_request_bytes opts"
    using client_parse_args_positive [OF parsed] by (simp_all add: client_options_new_def)
  have lim: "cl_connection_count opts \<le> 1024" "cl_requests opts \<le> 100000"
    using ok by (auto simp: client_check_limits_def bind_sum_Inr split: if_splits)
  then have "cl_connection_count opts * cl_requests opts \<le> 1024 * 100000" by (intro mult_mono) simp_all
  then have "mul64 (cl_connection_count opts) (cl_requests opts) = cl_connection_count opts * cl_requests opts"
    by (simp add: u64_modulus_def)
  then show "ep_is_loopback pton (cl_endpoint opts) = Inr True" "cl_connection_count opts \<in> {1..1024}"
    "cl_payload_bytes opts \<in> {1..67108864}" "cl_requests opts \<in> {1..100000}" "cl_warmup opts \<in> {1..1000}"
    "cl_request_bytes opts \<in> {1..1048576}" "cl_connection_count opts * cl_requests opts \<le> 1000000"
    using ok pos by (auto simp: client_check_limits_def bind_sum_Inr split: if_splits)
qed

section \<open>Properties\<close>

text \<open>
  C22. The reported percentiles are nearest-rank percentiles, in spite of floating-point rounding.
  For every sample count the limits allow, the rank computed in double arithmetic is exactly
  \<open>\<lceil>p n / 100\<rceil>\<close>; the value is within the samples, at least p percent of the samples are not above
  it, and fewer than p percent are below it.
\<close>

theorem percentile_nearest_rank:
  assumes "sorted samples" and "samples \<noteq> []" and "length samples \<le> 1000000" and "p \<in> {50, 90, 99 :: nat}"
  shows "\<exists>v. percentile samples (of_nat p) = Inr v \<and> v = samples ! ((p * length samples + 99) div 100 - 1) \<and> v \<in> set samples \<and>
    p * length samples \<le> 100 * length (filter (\<lambda>x. x \<le> v) samples) \<and>
    100 * length (filter (\<lambda>x. x < v) samples) < p * length samples"
proof -
  define r where "r = (p * length samples + 99) div 100"
  have p: "p = 50 \<or> p = 90 \<or> p = 99" using assms(4) by simp
  note r = percentile_value [OF assms(2,3) p r_def]
  have "r \<le> length (filter (\<lambda>x. x \<le> samples ! (r - 1)) samples)" "length (filter (\<lambda>x. x < samples ! (r - 1)) samples) \<le> r - 1"
    using sorted_counts [OF assms(1) r(3)] r(2) by simp_all
  then have "p * length samples \<le> 100 * length (filter (\<lambda>x. x \<le> samples ! (r - 1)) samples)"
    "100 * length (filter (\<lambda>x. x < samples ! (r - 1)) samples) < p * length samples" using r(2,4,5) by linarith+
  with r(1) nth_mem [OF r(3)] show ?thesis unfolding r_def by blast
qed

theorem percentile_nearest_rank_witness:
  "\<exists>v. percentile [3, 5, 8, 9] (of_nat 90) = Inr v \<and> v = 9 \<and> 90 * 4 \<le> 100 * length (filter (\<lambda>x. x \<le> v) [3, 5, 8, 9])"
  using percentile_nearest_rank [of "[3, 5, 8, 9]" 90] by simp

end
