(* ===== verification/Client_Program.thy ===== *)
theory Client_Program
  imports Client_Theorems Client_Report Process_Exit "HOL-Library.Multiset"
begin

text \<open>
  \<^verbatim>\<open>main\<close> of \<^verbatim>\<open>src/client/main.cpp\<close>: one worker thread per connection, the vector of their results and the
  exit. Each worker writes its own element of the vector and nothing else, so what the threads do
  together is given by the order in which they finish and, for each, the world its calls see (the
  other workers are part of it) and the schedule of its own reader thread.
\<close>

section \<open>Model\<close>

definition run_worker ::
  "'w client_os \<Rightarrow> inet_pton \<Rightarrow> client_options \<Rightarrow> (nat \<Rightarrow> bool) \<Rightarrow> nat \<Rightarrow> 'w \<Rightarrow> (exn + client_result \<times> 'w) option" where
  "run_worker os pton opts schedule index w =
     (if cl_mode opts = Bulk
      then run_connection os pton (cl_endpoint opts) (cl_payload_bytes opts) (connection_seed opts index) schedule w
      else run_request_response os pton (cl_endpoint opts) (cl_requests opts) (cl_warmup opts) (cl_request_bytes opts)
             (connection_seed opts index) w)"

text \<open>The workers in the order in which they finish; an exception that leaves a thread terminates the program.\<close>

fun run_workers ::
  "(nat \<Rightarrow> (exn + client_result \<times> 'w) option) \<Rightarrow> nat list \<Rightarrow> client_result list \<Rightarrow> (exn + client_result list) option" where
  "run_workers run [] results = Some (Inr results)"
| "run_workers run (index # order) results =
     (case run index of
        None \<Rightarrow> None
      | Some (Inl e) \<Rightarrow> Some (Inl e)
      | Some (Inr (result, _)) \<Rightarrow> run_workers run order (results[index := result]))"

definition client_help :: string where
  "client_help = text_lines
     [''NetFault Lab deterministic client (Milestone 4)'',
      '''',
      ''Usage:'',
      ''  netfault-client [--connect 127.0.0.1:8080] [--connections N]'',
      ''                  [--payload-bytes N] [--seed N]'',
      ''                  [--mode bulk|request-response]'',
      ''                  [--requests N] [--warmup N] [--request-bytes N]'',
      '''',
      ''bulk (default): each connection streams --payload-bytes full duplex and'',
      ''verifies the echo. request-response: each connection performs --warmup'',
      ''unrecorded then --requests recorded sequential exchanges of --request-bytes'',
      ''and reports pooled nearest-rank latency percentiles.'',
      '''',
      ''Output is one machine-readable JSON summary recording the configuration,'',
      ''seed, and environment so runs are reproducible. Only loopback destinations'',
      ''are allowed.'']"

definition client_main ::
  "'w client_os \<Rightarrow> inet_pton \<Rightarrow> (string \<times> string \<times> string) option \<Rightarrow> (nat \<Rightarrow> nat \<Rightarrow> bool) \<Rightarrow> (nat \<Rightarrow> 'w) \<Rightarrow> nat list \<Rightarrow>
   string list \<Rightarrow> (exn + process_exit) option" where
  "client_main os pton uname schedules worlds order arguments =
     (case client_setup pton arguments of
        Inl e \<Rightarrow> Some (catch_exception ''netfault-client'' [] [] e)
      | Inr ClientHelp \<Rightarrow> Some (Inr \<lparr>px_status = EXIT_SUCCESS, px_stdout = client_help, px_stderr = []\<rparr>)
      | Inr (RunClient opts) \<Rightarrow>
          (case run_workers (\<lambda>index. run_worker os pton opts (schedules index) index (worlds index)) order
                  (replicate (cl_connection_count opts) client_result_new) of
             None \<Rightarrow> None
           | Some (Inl e) \<Rightarrow> Some (Inl e)
           | Some (Inr results) \<Rightarrow>
               (case client_report uname opts results of
                  Inl e \<Rightarrow> Some (catch_exception ''netfault-client'' [] [] e)
                | Inr (text, status) \<Rightarrow> Some (Inr \<lparr>px_status = status, px_stdout = text, px_stderr = []\<rparr>))))"

section \<open>Lemmas\<close>

text \<open>Whatever the order of the workers, element \<open>i\<close> of the vector is what worker \<open>i\<close> returned.\<close>

lemma run_workers_results:
  assumes "\<And>i. i \<in> set order \<Longrightarrow> run i = Some (Inr (f i, g i))" and "distinct order"
  shows "run_workers run order results =
    Some (Inr (map (\<lambda>i. if i \<in> set order then f i else results ! i) [0..<length results]))"
  using assms
proof (induction order arbitrary: results)
  case Nil
  then show ?case by (simp add: map_nth)
next
  case (Cons i order)
  have "run i = Some (Inr (f i, g i))" using Cons.prems(1) by simp
  moreover have "run_workers run order (results[i := f i]) =
      Some (Inr (map (\<lambda>j. if j \<in> set order then f j else results[i := f i] ! j) [0..<length results]))"
    using Cons by simp
  moreover have "map (\<lambda>j. if j \<in> set order then f j else results[i := f i] ! j) [0..<length results] =
      map (\<lambda>j. if j \<in> set (i # order) then f j else results ! j) [0..<length results]"
    using Cons.prems(2) by (auto simp: nth_list_update)
  ultimately show ?case by simp
qed

lemma filter_map_all: "length (filter P (map f [0..<n])) = n \<longleftrightarrow> (\<forall>i < n. P (f i))"
  using length_filter_less [of _ "map f [0..<n]" P] by (auto simp: filter_id_conv) fastforce+

lemma loopback_sockaddr: "ep_is_loopback pton e = Inr b \<Longrightarrow> \<exists>address. ep_to_sockaddr pton e = Inr address"
  by (auto simp: ep_is_loopback_def split: sum.splits)

context client_calls
begin

text \<open>What a worker's result says of its own connection.\<close>

definition worker_verified :: "client_options \<Rightarrow> nat \<Rightarrow> int \<Rightarrow> client_result \<Rightarrow> 'w \<Rightarrow> bool" where
  "worker_verified opts index fd result w' \<longleftrightarrow>
     (cr_success result \<longrightarrow>
        (let n = (if cl_mode opts = Bulk then cl_payload_bytes opts
                  else (cl_warmup opts + cl_requests opts) * cl_request_bytes opts);
             stream = fst (mt_bytes n (mt_seed (connection_seed opts index)))
         in sent w' fd = stream \<and> received w' fd = stream) \<and>
        (cl_mode opts = RequestResponse \<longrightarrow> length (cr_latency_samples_us result) = cl_requests opts))"

lemma run_worker_ok:
  assumes "client_setup pton arguments = Inr (RunClient opts)" and "co_socket os w = ((fd, errno), w1)"
  shows "\<exists>result w'. run_worker os pton opts schedule index w = Some (Inr (result, w')) \<and>
    (cr_success result \<longleftrightarrow> cr_error result = []) \<and> worker_verified opts index fd result w'"
proof -
  note limits = client_limits [OF assms(1)]
  obtain address where address: "ep_to_sockaddr pton (cl_endpoint opts) = Inr address"
    using loopback_sockaddr [OF limits(1)] by blast
  show ?thesis
  proof (cases "cl_mode opts = Bulk")
    case True
    with run_connection_ok [OF address assms(2), of "cl_payload_bytes opts" "connection_seed opts index" schedule]
    show ?thesis by (auto simp: run_worker_def worker_verified_def)
  next
    case False
    have n: "add64 (cl_warmup opts) (cl_requests opts) = cl_warmup opts + cl_requests opts"
      using limits(4,5) by (simp add: u64_modulus_def)
    have "(cl_warmup opts + cl_requests opts) * cl_request_bytes opts \<le> 101000 * 1048576"
      using limits(4-6) by (intro mult_mono) simp_all
    then have "mul64 (cl_warmup opts + cl_requests opts) (cl_request_bytes opts) =
        (cl_warmup opts + cl_requests opts) * cl_request_bytes opts" by (simp add: u64_modulus_def)
    with False n run_request_response_ok [OF address assms(2), of "cl_requests opts" "cl_warmup opts" "cl_request_bytes opts"
        "connection_seed opts index"]
    show ?thesis by (auto simp: run_worker_def worker_verified_def)
  qed
qed

lemma worker_samples:
  assumes "\<And>i. i < cl_connection_count opts \<Longrightarrow> worker_verified opts i (fd i) (f i) (g i)" and "cl_mode opts = RequestResponse"
    and "cl_connection_count opts * cl_requests opts \<le> 1000000"
  shows "length (concat (map cr_latency_samples_us (filter cr_success (map f [0..<cl_connection_count opts])))) \<le> 1000000"
proof -
  let ?ok = "filter cr_success (map f [0..<cl_connection_count opts])"
  have "map (length \<circ> cr_latency_samples_us) ?ok = map (\<lambda>_. cl_requests opts) ?ok"
    using assms(1,2) by (intro map_cong) (auto simp: worker_verified_def)
  then have "length (concat (map cr_latency_samples_us ?ok)) = sum_list (map (\<lambda>_. cl_requests opts) ?ok)"
    by (simp only: length_concat map_map)
  then have "length (concat (map cr_latency_samples_us ?ok)) = length ?ok * cl_requests opts"
    by (simp only: sum_list_triv of_nat_id)
  also have "\<dots> \<le> cl_connection_count opts * cl_requests opts"
    using length_filter_le [of cr_success "map f [0..<cl_connection_count opts]"] by (intro mult_right_mono) simp_all
  finally show ?thesis using assms(3) by linarith
qed

end

lemma client_main_ok:
  assumes "client_calls os received sent interruptions" and accepted: "client_setup pton arguments = Inr (RunClient opts)"
    and order: "mset order = mset [0..<cl_connection_count opts]"
  shows "\<exists>text f g. client_main os pton uname schedules worlds order arguments =
      Some (Inr \<lparr>px_status = (if \<forall>i < cl_connection_count opts. cr_success (f i) then 0 else 1), px_stdout = text, px_stderr = []\<rparr>) \<and>
    (\<forall>i < cl_connection_count opts. run_worker os pton opts (schedules i) i (worlds i) = Some (Inr (f i, g i)) \<and>
       client_calls.worker_verified received sent opts i (fst (fst (co_socket os (worlds i)))) (f i) (g i))"
proof -
  let ?run = "\<lambda>i. run_worker os pton opts (schedules i) i (worlds i)"
  let ?n = "cl_connection_count opts"
  let ?fd = "\<lambda>i. fst (fst (co_socket os (worlds i)))"
  have "\<exists>p. ?run i = Some (Inr p) \<and> client_calls.worker_verified received sent opts i (?fd i) (fst p) (snd p)" for i
  proof -
    obtain fd errno w1 where "co_socket os (worlds i) = ((fd, errno), w1)" by (metis prod.collapse)
    from client_calls.run_worker_ok [OF assms(1) accepted this, of "schedules i" i] this show ?thesis by auto
  qed
  then have "\<forall>i. \<exists>p. ?run i = Some (Inr p) \<and> client_calls.worker_verified received sent opts i (?fd i) (fst p) (snd p)" by blast
  from choice [OF this] obtain h where h: "\<forall>i. ?run i = Some (Inr (h i)) \<and>
      client_calls.worker_verified received sent opts i (?fd i) (fst (h i)) (snd (h i))" ..
  define f g where "f i = fst (h i)" and "g i = snd (h i)" for i
  have run: "\<And>i. ?run i = Some (Inr (f i, g i))"
    and verified: "\<And>i. client_calls.worker_verified received sent opts i (?fd i) (f i) (g i)"
    using h by (simp_all add: f_def g_def)
  have "distinct order" by (simp only: mset_eq_imp_distinct_iff [OF order] distinct_upt)
  moreover have set: "set order = {0..<?n}" using mset_eq_setD [OF order] by (simp only: set_upt)
  ultimately have "run_workers ?run order (replicate ?n client_result_new) = Some (Inr (map f [0..<?n]))"
    using run_workers_results [of order ?run f g "replicate ?n client_result_new", OF run]
    by (simp add: set cong: map_cong)
  moreover obtain line where "client_report uname opts (map f [0..<?n]) =
      Inr (line, if length (filter cr_success (map f [0..<?n])) = ?n then 0 else 1)"
    using client_report_returns [of opts "map f [0..<?n]" uname]
      client_calls.worker_samples [OF assms(1) verified _ client_limits(7) [OF accepted]]
    by (auto simp: summarize_exact)
  ultimately have "client_main os pton uname schedules worlds order arguments =
      Some (Inr \<lparr>px_status = (if \<forall>i < ?n. cr_success (f i) then 0 else 1), px_stdout = line, px_stderr = []\<rparr>)"
    unfolding client_main_def accepted filter_map_all by simp
  with run verified show ?thesis by blast
qed

section \<open>Properties\<close>

text \<open>
  C24. The client's exit status can be trusted, whatever the threads do. Options that pass the checks
  name a loopback peer and stay within every limit, their product included. With such options, in
  whatever order the workers finish, the client ends with a report and without undefined
  behaviour. It exits with 0 or 1, and with 0 only if on every connection exactly the seeded stream
  of that connection was sent and the same bytes came back.
\<close>

theorem client_exit_status:
  assumes "client_calls os received sent interruptions" and "client_setup pton arguments = Inr (RunClient opts)"
    and "mset order = mset [0..<cl_connection_count opts]"
  shows "ep_is_loopback pton (cl_endpoint opts) = Inr True \<and>
    cl_connection_count opts \<in> {1..1024} \<and> cl_payload_bytes opts \<in> {1..67108864} \<and> cl_requests opts \<in> {1..100000} \<and>
    cl_warmup opts \<in> {1..1000} \<and> cl_request_bytes opts \<in> {1..1048576} \<and>
    cl_connection_count opts * cl_requests opts \<le> 1000000 \<and>
    (\<exists>text status. client_main os pton uname schedules worlds order arguments =
         Some (Inr \<lparr>px_status = status, px_stdout = text, px_stderr = []\<rparr>) \<and> status \<in> {0, 1} \<and>
       (status = 0 \<longrightarrow> (\<forall>i < cl_connection_count opts.
          \<exists>result w'. run_worker os pton opts (schedules i) i (worlds i) = Some (Inr (result, w')) \<and> cr_success result \<and>
            (let fd = fst (fst (co_socket os (worlds i)));
                 n = (if cl_mode opts = Bulk then cl_payload_bytes opts
                      else (cl_warmup opts + cl_requests opts) * cl_request_bytes opts);
                 stream = fst (mt_bytes n (mt_seed (cl_seed opts + of_nat i)))
             in sent w' fd = stream \<and> received w' fd = stream))) \<and>
       (status = 1 \<longrightarrow> (\<exists>i < cl_connection_count opts. \<exists>result w'.
          run_worker os pton opts (schedules i) i (worlds i) = Some (Inr (result, w')) \<and> \<not> cr_success result)))"
proof -
  let ?n = "cl_connection_count opts"
  obtain line f g where main: "client_main os pton uname schedules worlds order arguments =
      Some (Inr \<lparr>px_status = (if \<forall>i < ?n. cr_success (f i) then 0 else 1), px_stdout = line, px_stderr = []\<rparr>)"
    and each: "\<And>i. i < ?n \<Longrightarrow> run_worker os pton opts (schedules i) i (worlds i) = Some (Inr (f i, g i))"
      "\<And>i. i < ?n \<Longrightarrow> client_calls.worker_verified received sent opts i (fst (fst (co_socket os (worlds i)))) (f i) (g i)"
    using client_main_ok [OF assms, of uname schedules worlds] by blast
  note verified = each(2) [unfolded client_calls.worker_verified_def [OF assms(1)] connection_seed_def]
  show ?thesis
  proof (cases "\<forall>i < ?n. cr_success (f i)")
    case True
    then show ?thesis using main each(1) verified client_limits [OF assms(2)] by auto
  next
    case False
    then show ?thesis using main each(1) client_limits [OF assms(2)] by auto
  qed
qed

definition client_pton_example :: inet_pton where
  "client_pton_example host = (if host = ''127.0.0.1'' then Some 0x7F000001 else None)"

lemma client_setup_example:
  "client_setup client_pton_example [''--connections'', ''2'', ''--mode'', ''request-response''] =
     Inr (RunClient ((client_options_new \<lparr>ep_host = ''127.0.0.1'', ep_port = 8080\<rparr>)\<lparr>cl_connection_count := 2, cl_mode := RequestResponse\<rparr>))"
proof -
  have "ep_parse client_pton_example ''127.0.0.1:8080'' = Inr \<lparr>ep_host = ''127.0.0.1'', ep_port = 8080\<rparr>"
    by (simp add: ep_parse_def from_chars_def is_digit_char_def digits_value_def c_str_def client_pton_example_def)
  moreover have "from_chars 18446744073709551615 ''2'' = Inr (2, [])"
    by (simp add: from_chars_def is_digit_char_def digits_value_def)
  ultimately show ?thesis
    by (simp add: client_setup_def bind_sum_def client_set_option_def client_parse_size_def parse_client_mode_def
        client_check_limits_def client_options_new_def ep_is_loopback_def ep_to_sockaddr_def c_str_def
        client_pton_example_def mul64_def u64_modulus_def)
qed

theorem client_exit_status_witness:
  "\<exists>text status. client_main scripted_client client_pton_example None (\<lambda>_ _. False) (\<lambda>_. echo_world []) [1, 0]
     [''--connections'', ''2'', ''--mode'', ''request-response''] =
     Some (Inr \<lparr>px_status = status, px_stdout = text, px_stderr = []\<rparr>) \<and> status \<in> {0, 1}"
proof -
  let ?opts = "(client_options_new \<lparr>ep_host = ''127.0.0.1'', ep_port = 8080\<rparr>)\<lparr>cl_connection_count := 2, cl_mode := RequestResponse\<rparr>"
  have "mset [1, 0] = mset [0..<cl_connection_count ?opts]" by (simp add: numeral_2_eq_2)
  from client_exit_status [OF scripted_calls.client_calls_axioms client_setup_example this, of None "\<lambda>_ _. False" "\<lambda>_. echo_world []"]
  show ?thesis by blast
qed

end
