(* ===== verification/Echo_Server.thy ===== *)
theory Echo_Server
  imports Socket_Io Endpoint Process_Exit
begin

text \<open>
  \<^verbatim>\<open>src/server/main.cpp\<close>: the controlled peer the proxy is tested against. A worker thread serves one
  connection in one of five modes until the peer ends it, a call fails or a stop is requested; the
  main thread accepts connections, reaps finished workers and joins all of them before it exits.
  System calls, the stop tokens and the threads are parameters; a query of a stop token or of a
  completion flag is a step of the world, since another thread may change it at any time.
\<close>

unbundle bit_operations_syntax

section \<open>Configuration\<close>

datatype server_mode = Echo | SlowReader | SlowWriter | ReadUntilEof | SendThenHalfClose

record server_config =
  sc_mode :: server_mode
  sc_delay :: int \<comment> \<open>milliseconds\<close>
  sc_chunk_bytes :: nat
  sc_send_bytes :: nat

definition server_config_default :: server_config where
  "server_config_default = \<lparr>sc_mode = Echo, sc_delay = 0, sc_chunk_bytes = 16384, sc_send_bytes = 65536\<rparr>"

record 'w server_os =
  so_kernel :: "'w kernel"
  so_stop_requested :: "'w \<Rightarrow> bool \<times> 'w" \<comment> \<open>the worker's stop token\<close>
  so_sleep_for :: "int \<Rightarrow> 'w \<Rightarrow> 'w" \<comment> \<open>milliseconds\<close>
  so_setsockopt :: "int \<Rightarrow> socket_option \<Rightarrow> 'w \<Rightarrow> 'w"
  so_close :: "int \<Rightarrow> 'w \<Rightarrow> 'w"

section \<open>Workers\<close>

definition delay_step :: "'w server_os \<Rightarrow> int \<times> 'w \<Rightarrow> (int \<times> 'w, 'w) loop_outcome option" where
  "delay_step os = (\<lambda>(remaining, w).
     if remaining > 0
     then (let (stop, w) = so_stop_requested os w in
           if \<not> stop then (let current = min remaining 10 in Some (Again (remaining - current, so_sleep_for os current w)))
           else Some (Halt w))
     else Some (Halt w))"

definition interruptible_delay :: "'w server_os \<Rightarrow> int \<Rightarrow> 'w \<Rightarrow> (bool \<times> 'w) option" where
  "interruptible_delay os delay w =
     (case run_loop (delay_step os) (delay, w) of
        None \<Rightarrow> None
      | Some w \<Rightarrow> (let (stop, w) = so_stop_requested os w in Some (\<not> stop, w)))"

definition server_send_step ::
  "'w server_os \<Rightarrow> server_config \<Rightarrow> int \<Rightarrow> byte list \<Rightarrow> nat \<times> 'w \<Rightarrow> (nat \<times> 'w, bool \<times> 'w) loop_outcome option" where
  "server_send_step os config fd data = (\<lambda>(offset, w).
     if offset < length data
     then (let (stop, w) = so_stop_requested os w in
           if stop then Some (Halt (offset = length data, w))
           else (case (if sc_mode config = SlowWriter then interruptible_delay os (sc_delay config) w else Some (True, w)) of
                   None \<Rightarrow> None
                 | Some (proceed, w) \<Rightarrow>
                     if \<not> proceed then Some (Halt (False, w))
                     else (let request_bytes = min (length data - offset) (sc_chunk_bytes config);
                               ((count, errno), w) = k_send (so_kernel os) fd (take request_bytes (drop offset data)) w
                           in if count > 0 then Some (Again (offset + nat count, w))
                              else if count < 0 \<and> errno = EINTR then Some (Again (offset, w))
                              else Some (Halt (False, w)))))
     else Some (Halt (offset = length data, w)))"

definition server_send_all ::
  "'w server_os \<Rightarrow> server_config \<Rightarrow> int \<Rightarrow> byte list \<Rightarrow> 'w \<Rightarrow> (bool \<times> 'w) option" where
  "server_send_all os config fd data w = run_loop (server_send_step os config fd data) (0, w)"

definition drain_until_eof_step ::
  "'w server_os \<Rightarrow> int \<Rightarrow> byte list \<times> 'w \<Rightarrow> (byte list \<times> 'w, 'w) loop_outcome option" where
  "drain_until_eof_step os fd = (\<lambda>(buffer, w).
     let (stop, w) = so_stop_requested os w in
     if stop then Some (Halt w)
     else (let ((count, errno, buffer), w) = k_recv (so_kernel os) fd buffer w in
           if count > 0 then Some (Again (buffer, w))
           else if count = 0 \<or> (errno \<noteq> EINTR \<and> errno \<noteq> EAGAIN \<and> errno \<noteq> EWOULDBLOCK) then Some (Halt w)
           else Some (Again (buffer, w))))"

definition drain_until_eof :: "'w server_os \<Rightarrow> int \<Rightarrow> byte list \<Rightarrow> 'w \<Rightarrow> 'w option" where
  "drain_until_eof os fd buffer w = run_loop (drain_until_eof_step os fd) (buffer, w)"

definition server_pattern :: "nat \<Rightarrow> byte list" where
  "server_pattern n = map (\<lambda>index. of_nat (index AND 0xFF)) [0..<n]"

definition pattern_step ::
  "'w server_os \<Rightarrow> server_config \<Rightarrow> int \<Rightarrow> byte list \<Rightarrow> nat \<times> 'w \<Rightarrow> (nat \<times> 'w, bool \<times> 'w) loop_outcome option" where
  "pattern_step os config fd buffer = (\<lambda>(remaining, w).
     if remaining > 0
     then (let (stop, w) = so_stop_requested os w in
           if stop then Some (Halt (True, w))
           else (let request_bytes = min remaining (length buffer) in
                 case server_send_all os config fd (take request_bytes buffer) w of
                   None \<Rightarrow> None
                 | Some (sent_all, w) \<Rightarrow>
                     if \<not> sent_all then Some (Halt (False, w)) else Some (Again (remaining - request_bytes, w))))
     else Some (Halt (True, w)))"

definition send_then_half_close :: "'w server_os \<Rightarrow> int \<Rightarrow> byte list \<Rightarrow> server_config \<Rightarrow> 'w \<Rightarrow> 'w option" where
  "send_then_half_close os fd buffer config w =
     (let buffer = server_pattern (length buffer) in
      case run_loop (pattern_step os config fd buffer) (sc_send_bytes config, w) of
        None \<Rightarrow> None
      | Some (completed, w) \<Rightarrow>
          if \<not> completed then Some w
          else (let (_, w) = k_shutdown_wr (so_kernel os) fd w in drain_until_eof os fd buffer w))"

definition serve_step ::
  "'w server_os \<Rightarrow> server_config \<Rightarrow> int \<Rightarrow> byte list \<times> 'w \<Rightarrow> (byte list \<times> 'w, 'w) loop_outcome option" where
  "serve_step os config fd = (\<lambda>(buffer, w).
     let (stop, w) = so_stop_requested os w in
     if stop then Some (Halt w)
     else (case (if sc_mode config = SlowReader then interruptible_delay os (sc_delay config) w else Some (True, w)) of
             None \<Rightarrow> None
           | Some (proceed, w) \<Rightarrow>
               if \<not> proceed then Some (Halt w)
               else (let ((count, errno, buffer), w) = k_recv (so_kernel os) fd buffer w in
                     if count > 0
                     then (case server_send_all os config fd (take (nat count) buffer) w of
                             None \<Rightarrow> None
                           | Some (sent_all, w) \<Rightarrow> if \<not> sent_all then Some (Halt w) else Some (Again (buffer, w)))
                     else if count = 0 then (let (_, w) = k_shutdown_wr (so_kernel os) fd w in Some (Halt w))
                     else if errno = EINTR then Some (Again (buffer, w))
                     else if errno = EAGAIN \<or> errno = EWOULDBLOCK then Some (Again (buffer, w))
                     else Some (Halt w))))"

definition serve_connection :: "'w server_os \<Rightarrow> server_config \<Rightarrow> int \<Rightarrow> 'w \<Rightarrow> 'w option" where
  "serve_connection os config fd w =
     (let buffer = replicate (sc_chunk_bytes config) 0 in
      if sc_mode config = ReadUntilEof
      then (case drain_until_eof os fd buffer w of
              None \<Rightarrow> None
            | Some w \<Rightarrow> (let (_, w) = k_shutdown_wr (so_kernel os) fd w in Some w))
      else if sc_mode config = SendThenHalfClose then send_then_half_close os fd buffer config w
      else run_loop (serve_step os config fd) (buffer, w))"

text \<open>The whole worker; its completion flag is the fact that it returned.\<close>

definition serve_client :: "'w server_os \<Rightarrow> server_config \<Rightarrow> int \<Rightarrow> 'w \<Rightarrow> 'w option" where
  "serve_client os config fd w =
     (let w = so_setsockopt os fd (ReceiveTimeout 1) w; w = so_setsockopt os fd (SendTimeout 1) w
      in map_option (so_close os fd) (serve_connection os config fd w))"

section \<open>Command line\<close>

definition server_parse_size :: "string \<Rightarrow> string \<Rightarrow> bool \<Rightarrow> exn + nat" where
  "server_parse_size text name allow_zero =
     (case from_chars 18446744073709551615 text of
        Inl _ \<Rightarrow> Inl (InvalidArgument (name @ '' must be a valid integer''))
      | Inr (parsed, rest) \<Rightarrow>
          if rest \<noteq> [] \<or> (\<not> allow_zero \<and> parsed = 0) then Inl (InvalidArgument (name @ '' must be a valid integer''))
          else Inr parsed)"

definition parse_mode :: "string \<Rightarrow> exn + server_mode" where
  "parse_mode mode =
     (if mode = ''echo'' then Inr Echo
      else if mode = ''slow-reader'' then Inr SlowReader
      else if mode = ''slow-writer'' then Inr SlowWriter
      else if mode = ''read-until-eof'' then Inr ReadUntilEof
      else if mode = ''send-then-half-close'' then Inr SendThenHalfClose
      else Inl (InvalidArgument
        ''mode must be echo, slow-reader, slow-writer, read-until-eof, or send-then-half-close''))"

fun mode_name :: "server_mode \<Rightarrow> string" where
  "mode_name Echo = ''echo''"
| "mode_name SlowReader = ''slow-reader''"
| "mode_name SlowWriter = ''slow-writer''"
| "mode_name ReadUntilEof = ''read-until-eof''"
| "mode_name SendThenHalfClose = ''send-then-half-close''"

definition server_set_option ::
  "inet_pton \<Rightarrow> string \<Rightarrow> string \<Rightarrow> endpoint \<times> server_config \<Rightarrow> (exn + endpoint \<times> server_config) option" where
  "server_set_option pton argument v = (\<lambda>(listen, config).
     if argument = ''--listen'' then Some (bind_sum (ep_parse pton v) (\<lambda>e. Inr (e, config)))
     else if argument = ''--mode'' then Some (bind_sum (parse_mode v) (\<lambda>m. Inr (listen, config\<lparr>sc_mode := m\<rparr>)))
     else if argument = ''--delay-ms''
     then Some (bind_sum (server_parse_size v ''delay_ms'' True) (\<lambda>n. Inr (listen, config\<lparr>sc_delay := s64_of_size n\<rparr>)))
     else if argument = ''--chunk-bytes''
     then Some (bind_sum (server_parse_size v ''chunk_bytes'' False) (\<lambda>n. Inr (listen, config\<lparr>sc_chunk_bytes := n\<rparr>)))
     else if argument = ''--send-bytes''
     then Some (bind_sum (server_parse_size v ''send_bytes'' False) (\<lambda>n. Inr (listen, config\<lparr>sc_send_bytes := n\<rparr>)))
     else None)"

datatype server_command = ServerHelp | RunServer endpoint server_config

fun server_parse_args :: "inet_pton \<Rightarrow> string list \<Rightarrow> endpoint \<times> server_config \<Rightarrow> exn + server_command" where
  "server_parse_args pton [] settings = Inr (RunServer (fst settings) (snd settings))"
| "server_parse_args pton (argument # rest) settings =
     (if argument = ''--help'' then Inr ServerHelp
      else if server_set_option pton argument [] settings = None
      then Inl (InvalidArgument (''unknown argument: '' @ argument))
      else (case rest of
              [] \<Rightarrow> Inl (InvalidArgument (argument @ '' requires a value''))
            | v # rest' \<Rightarrow>
                (case server_set_option pton argument v settings of
                   Some (Inr settings') \<Rightarrow> server_parse_args pton rest' settings'
                 | Some (Inl e) \<Rightarrow> Inl e
                 | None \<Rightarrow> Inl (InvalidArgument (''unknown argument: '' @ argument)))))"

definition server_check_limits :: "inet_pton \<Rightarrow> endpoint \<Rightarrow> server_config \<Rightarrow> exn + server_command" where
  "server_check_limits pton listen config =
     bind_sum (ep_is_loopback pton listen) (\<lambda>loopback.
       if \<not> loopback then Inl (InvalidArgument ''the Milestone 1 server only permits loopback listeners'')
       else if sc_delay config > 60 * 1000 \<or> sc_chunk_bytes config > 1 * 1024 * 1024
       then Inl (InvalidArgument ''delay must be at most 60000 ms and chunk size at most 1048576 bytes'')
       else if sc_send_bytes config > 16 * 1024 * 1024
       then Inl (InvalidArgument ''send_bytes must be at most 16777216'')
       else Inr (RunServer listen config))"

definition server_setup :: "inet_pton \<Rightarrow> string list \<Rightarrow> exn + server_command" where
  "server_setup pton arguments =
     bind_sum (ep_parse pton ''127.0.0.1:9000'') (\<lambda>listen.
     bind_sum (server_parse_args pton arguments (listen, server_config_default)) (\<lambda>command.
       case command of
         ServerHelp \<Rightarrow> Inr ServerHelp
       | RunServer listen config \<Rightarrow> server_check_limits pton listen config))"

section \<open>The accept loop\<close>

text \<open>
  What the main thread calls. A thread is named by a number; \<open>so_done\<close> loads its completion flag,
  \<open>so_join\<close> is the destructor of its \<^verbatim>\<open>std::jthread\<close> (a stop request and the join).
\<close>

record 'w server_threads =
  st_signalled :: "'w \<Rightarrow> bool \<times> 'w" \<comment> \<open>the flag the signal handler sets\<close>
  st_accept :: "int \<Rightarrow> 'w \<Rightarrow> (int \<times> int) \<times> 'w"
  st_spawn :: "server_config \<Rightarrow> int \<Rightarrow> 'w \<Rightarrow> nat \<times> 'w"
  st_done :: "nat \<Rightarrow> 'w \<Rightarrow> bool \<times> 'w"
  st_request_stop :: "nat \<Rightarrow> 'w \<Rightarrow> 'w"
  st_join :: "nat \<Rightarrow> 'w \<Rightarrow> 'w"
  st_sleep_for :: "int \<Rightarrow> 'w \<Rightarrow> 'w"
  st_strerror :: "int \<Rightarrow> string"

fun partition_done :: "'w server_threads \<Rightarrow> nat list \<Rightarrow> 'w \<Rightarrow> (nat list \<times> nat list) \<times> 'w" where
  "partition_done os [] w = (([], []), w)"
| "partition_done os (t # ts) w =
     (let (finished, w) = st_done os t w; ((running, done), w) = partition_done os ts w
      in ((if finished then (running, t # done) else (t # running, done)), w))"

definition join_all :: "'w server_threads \<Rightarrow> nat list \<Rightarrow> 'w \<Rightarrow> 'w" where
  "join_all os ts w = fold (st_join os) ts w"

definition reap_finished :: "'w server_threads \<Rightarrow> nat list \<Rightarrow> 'w \<Rightarrow> nat list \<times> 'w" where
  "reap_finished os workers w =
     (let ((running, done), w) = partition_done os workers w in (running, join_all os done w))"

definition server_accept_step ::
  "'w server_threads \<Rightarrow> int \<Rightarrow> server_config \<Rightarrow> nat list \<times> 'w \<Rightarrow>
   (nat list \<times> 'w, (exn + unit) \<times> nat list \<times> 'w) loop_outcome option" where
  "server_accept_step os listener config = (\<lambda>(workers, w).
     let (stop, w) = st_signalled os w in
     if stop then Some (Halt (Inr (), workers, w))
     else (let ((client, errno), w) = st_accept os listener w in
           if client \<ge> 0
           then (let (workers, w) = reap_finished os workers w; (t, w) = st_spawn os config client w
                 in Some (Again (workers @ [t], w)))
           else if errno = EINTR \<or> errno = EAGAIN \<or> errno = EWOULDBLOCK
           then (let (workers, w) = reap_finished os workers w in Some (Again (workers, st_sleep_for os 10 w)))
           else Some (Halt (Inl (RuntimeError (''accept: '' @ st_strerror os errno)), workers, w))))"

text \<open>
  The loop and its end: stop requests to all workers and joins, in order; when the loop throws, the
  destructors join the workers all the same.
\<close>

definition server_accept_loop :: "'w server_threads \<Rightarrow> int \<Rightarrow> server_config \<Rightarrow> 'w \<Rightarrow> ((exn + int) \<times> 'w) option" where
  "server_accept_loop os listener config w =
     (case run_loop (server_accept_step os listener config) ([], w) of
        None \<Rightarrow> None
      | Some (Inl e, workers, w) \<Rightarrow> Some (Inl e, join_all os workers w)
      | Some (Inr _, workers, w) \<Rightarrow> Some (Inr EXIT_SUCCESS, join_all os workers (fold (st_request_stop os) workers w)))"

section \<open>The program\<close>

text \<open>
  What \<^verbatim>\<open>main\<close> calls besides the threads: the calls that make the listener, the installation of the signal
  handlers and the standard output. A failed call sets \<^verbatim>\<open>errno\<close>; the listener is a \<^verbatim>\<open>UniqueFd\<close>,
  whose close at the end of its scope the model writes out.
\<close>

record 'w server_sys =
  sy_threads :: "'w server_threads"
  sy_install_handlers :: "'w \<Rightarrow> 'w" \<comment> \<open>\<^verbatim>\<open>SIGINT\<close> and \<^verbatim>\<open>SIGTERM\<close>; \<^verbatim>\<open>SIGPIPE\<close> is ignored\<close>
  sy_socket :: "'w \<Rightarrow> (int \<times> int) \<times> 'w"
  sy_reuse_address :: "int \<Rightarrow> 'w \<Rightarrow> (int \<times> int) \<times> 'w"
  sy_bind :: "int \<Rightarrow> 32 word \<times> 16 word \<Rightarrow> 'w \<Rightarrow> (int \<times> int) \<times> 'w"
  sy_listen :: "int \<Rightarrow> int \<Rightarrow> 'w \<Rightarrow> (int \<times> int) \<times> 'w"
  sy_close :: "int \<Rightarrow> 'w \<Rightarrow> 'w"
  sy_print :: "string \<Rightarrow> 'w \<Rightarrow> 'w"

definition server_listener :: "'w server_sys \<Rightarrow> inet_pton \<Rightarrow> endpoint \<Rightarrow> 'w \<Rightarrow> (exn + int) \<times> 'w" where
  "server_listener os pton endpoint w =
     (let failed = (\<lambda>call errno. Inl (RuntimeError (call @ '': '' @ st_strerror (sy_threads os) errno)));
          ((listener, errno), w) = sy_socket os w
      in if listener < 0 then (failed ''socket'' errno, w)
         else
           let ((res, errno), w) = sy_reuse_address os listener w
           in if res < 0 then (failed ''setsockopt'' errno, sy_close os listener w)
              else
                (case ep_to_sockaddr pton endpoint of
                   Inl e \<Rightarrow> (Inl e, sy_close os listener w)
                 | Inr address \<Rightarrow>
                     let ((res, errno), w) = sy_bind os listener address w
                     in if res < 0 then (failed ''bind/listen'' errno, sy_close os listener w)
                        else
                          let ((res, errno), w) = sy_listen os listener 128 w
                          in if res < 0 then (failed ''bind/listen'' errno, sy_close os listener w)
                             else (Inr listener, w)))"

definition server_started_line :: "endpoint \<Rightarrow> server_config \<Rightarrow> string" where
  "server_started_line listen config =
     ''{\"event\":\"server_started\",\"listen\":\"'' @ ep_to_string listen @ ''\",\"mode\":\"'' @ mode_name (sc_mode config) @
     ''\",\"delay_ms\":'' @ int_to_string (sc_delay config) @ '',\"chunk_bytes\":'' @ nat_to_string (sc_chunk_bytes config) @
     ''}'' @ [CHR 0x0A]"

definition server_stopped_line :: string where
  "server_stopped_line = ''{\"event\":\"server_stopped\"}'' @ [CHR 0x0A]"

definition server_run ::
  "'w server_sys \<Rightarrow> inet_pton \<Rightarrow> endpoint \<Rightarrow> server_config \<Rightarrow> 'w \<Rightarrow> ((exn + int) \<times> 'w) option" where
  "server_run os pton listen config w =
     (case server_listener os pton listen (sy_install_handlers os w) of
        (Inl e, w) \<Rightarrow> Some (Inl e, w)
      | (Inr listener, w) \<Rightarrow>
          (case server_accept_loop (sy_threads os) listener config (sy_print os (server_started_line listen config) w) of
             None \<Rightarrow> None
           | Some (Inl e, w) \<Rightarrow> Some (Inl e, sy_close os listener w)
           | Some (Inr status, w) \<Rightarrow> Some (Inr status, sy_close os listener (sy_print os server_stopped_line w))))"

definition server_help :: string where
  "server_help = text_lines
     [''NetFault Lab controlled server (Milestone 2)'',
      '''',
      ''Usage:'',
      ''  netfault-server [--listen 127.0.0.1:9000]'',
      ''                  [--mode echo|slow-reader|slow-writer|read-until-eof|send-then-half-close]'',
      ''                  [--delay-ms N] [--chunk-bytes N] [--send-bytes N]'',
      '''',
      ''Slow modes delay every read or write operation. read-until-eof discards input and'',
      ''closes after the peer half-closes. send-then-half-close sends --send-bytes, half-closes'',
      ''its write side first, then drains input. Only loopback listeners are allowed.'']"

text \<open>
  The exit of the program beside the world it leaves; the lines \<^verbatim>\<open>main\<close> prints while it runs are in
  the world, the help and the message of the handler in the exit.
\<close>

definition server_main ::
  "'w server_sys \<Rightarrow> inet_pton \<Rightarrow> string list \<Rightarrow> 'w \<Rightarrow> ((exn + process_exit) \<times> 'w) option" where
  "server_main os pton arguments w =
     (case server_setup pton arguments of
        Inl e \<Rightarrow> Some (catch_exception ''netfault-server'' [] [] e, w)
      | Inr ServerHelp \<Rightarrow> Some (Inr \<lparr>px_status = EXIT_SUCCESS, px_stdout = server_help, px_stderr = []\<rparr>, w)
      | Inr (RunServer listen config) \<Rightarrow>
          (case server_run os pton listen config w of
             None \<Rightarrow> None
           | Some (Inl e, w) \<Rightarrow> Some (catch_exception ''netfault-server'' [] [] e, w)
           | Some (Inr status, w) \<Rightarrow> Some (Inr \<lparr>px_status = status, px_stdout = [], px_stderr = []\<rparr>, w)))"

end
