(* ===== verification/Server_Theorems.thy ===== *)
theory Server_Theorems
  imports Echo_Server "HOL-Library.Multiset"
begin

text \<open>
  Correctness of the server: what a worker sends in each mode and that it returns, given that a stop
  is requested eventually; that the main thread joins every worker exactly once on each way out; and
  the limits and the mode names of the command line.
\<close>

section \<open>Workers\<close>

text \<open>The stream a server in the last mode sends: its chunk pattern, repeated.\<close>

definition pattern_stream :: "nat \<Rightarrow> nat \<Rightarrow> byte list" where
  "pattern_stream chunk n = map (\<lambda>i. of_nat ((i mod chunk) AND 0xFF)) [0..<n]"

lemma pattern_stream_extend:
  assumes "chunk dvd k" and "n \<le> chunk" and "k + n \<le> amount_all"
  shows "take (k + n) (pattern_stream chunk amount_all) = take k (pattern_stream chunk amount_all) @ take n (server_pattern chunk)"
proof (rule nth_equalityI)
  show "length (take (k + n) (pattern_stream chunk amount_all)) = length (take k (pattern_stream chunk amount_all) @ take n (server_pattern chunk))"
    using assms by (simp add: pattern_stream_def server_pattern_def)
next
  fix i assume i: "i < length (take (k + n) (pattern_stream chunk amount_all))"
  have "i mod chunk = i - k" if "k \<le> i" "i < k + n"
  proof -
    have "i = k + (i - k)" using that by simp
    then have "i mod chunk = (i - k) mod chunk" using assms(1) by (metis dvd_imp_mod_0 mod_add_left_eq add_0)
    then show ?thesis using that assms(2) by simp
  qed
  then show "take (k + n) (pattern_stream chunk amount_all) ! i = (take k (pattern_stream chunk amount_all) @ take n (server_pattern chunk)) ! i"
    using i assms by (auto simp: pattern_stream_def server_pattern_def nth_append)
qed

text \<open>
  The calls of a worker as documented. Besides the byte streams the world has been shown: the
  descriptors whose write side was shut down, in order, and whether a stop request was seen. Only
  finitely many queries of the stop token are answered with no: the stop is requested eventually.
\<close>

locale server_calls = posix_kernel "so_kernel os" received sent interruptions
  for os :: "'w server_os" and received :: "'w \<Rightarrow> int \<Rightarrow> byte list" and sent :: "'w \<Rightarrow> int \<Rightarrow> byte list"
    and interruptions :: "'w \<Rightarrow> nat" +
  fixes patience :: "'w \<Rightarrow> nat" and shut :: "'w \<Rightarrow> int list" and stopped :: "'w \<Rightarrow> bool"
  assumes stop_query: "so_stop_requested os w = (b, w') \<Longrightarrow> received w' = received w \<and> sent w' = sent w \<and> shut w' = shut w \<and>
      stopped w' = (stopped w \<or> b) \<and> (if b then patience w' \<le> patience w else patience w' < patience w)"
    and sleep_quiet: "received (so_sleep_for os t w) = received w \<and> sent (so_sleep_for os t w) = sent w \<and>
      shut (so_sleep_for os t w) = shut w \<and> stopped (so_sleep_for os t w) = stopped w \<and> patience (so_sleep_for os t w) \<le> patience w"
    and option_quiet: "received (so_setsockopt os fd opt w) = received w \<and> sent (so_setsockopt os fd opt w) = sent w \<and>
      shut (so_setsockopt os fd opt w) = shut w \<and> stopped (so_setsockopt os fd opt w) = stopped w"
    and close_quiet: "received (so_close os fd w) = received w \<and> sent (so_close os fd w) = sent w \<and>
      shut (so_close os fd w) = shut w \<and> stopped (so_close os fd w) = stopped w"
    and recv_frame: "k_recv (so_kernel os) fd buffer w = (r, w') \<Longrightarrow>
      shut w' = shut w \<and> stopped w' = stopped w \<and> patience w' \<le> patience w"
    and send_frame: "k_send (so_kernel os) fd data w = (r', w') \<Longrightarrow>
      shut w' = shut w \<and> stopped w' = stopped w \<and> patience w' \<le> patience w"
    and shutdown_frame: "k_shutdown_wr (so_kernel os) fd w = (r', w') \<Longrightarrow>
      shut w' = shut w @ [fd] \<and> stopped w' = stopped w \<and> patience w' \<le> patience w"
begin

text \<open>A part of a worker that moves no bytes.\<close>

definition idle :: "'w \<Rightarrow> 'w \<Rightarrow> bool" where
  "idle w w' \<longleftrightarrow> received w' = received w \<and> sent w' = sent w \<and> shut w' = shut w \<and> (stopped w \<longrightarrow> stopped w') \<and>
     patience w' \<le> patience w"

lemma idle_refl [simp]: "idle w w"
  by (simp add: idle_def)

lemma idle_trans: "idle w v \<Longrightarrow> idle v u \<Longrightarrow> idle w u"
  by (simp add: idle_def)

lemma idle_stop: "so_stop_requested os w = (b, w') \<Longrightarrow> idle w w' \<and> (b \<longrightarrow> stopped w') \<and> (\<not> b \<longrightarrow> patience w' < patience w)"
  using stop_query by (fastforce simp: idle_def split: if_splits)

lemma idle_sleep: "idle w (so_sleep_for os t w)"
  using sleep_quiet by (simp add: idle_def)

lemma interruptible_delay_ok:
  "\<exists>go w'. interruptible_delay os delay w = Some (go, w') \<and> idle w w' \<and> (\<not> go \<longrightarrow> stopped w')"
proof -
  have "\<exists>r. run_loop (delay_step os) (delay, w) = Some r \<and> idle w r"
  proof (rule run_loop_total [where I = "\<lambda>(remaining :: int, v). idle w v" and m = "\<lambda>(remaining :: int, v). patience v"])
    fix s assume I: "case s of (remaining :: int, v) \<Rightarrow> idle w v"
    obtain remaining v where s: "s = (remaining, v)" by (cases s)
    obtain stop v' where q: "so_stop_requested os v = (stop, v')" by fastforce
    from idle_stop [OF q] idle_sleep [of v' "min remaining 10"] I q
    show "loop_ok (\<lambda>(remaining :: int, v). idle w v) (\<lambda>(remaining, v). patience v) (idle w) s (delay_step os s)"
      by (auto simp: s delay_step_def Let_def intro: idle_trans) (auto simp: idle_def)
  qed simp
  then obtain v where v: "run_loop (delay_step os) (delay, w) = Some v" "idle w v" by blast
  obtain stop v' where q: "so_stop_requested os v = (stop, v')" by fastforce
  from idle_stop [OF q] v q show ?thesis by (auto simp: interruptible_delay_def intro: idle_trans)
qed

lemma pause_ok:
  "\<exists>go w'. (if slow then interruptible_delay os delay w else Some (True, w)) = Some (go, w') \<and> idle w w' \<and> (\<not> go \<longrightarrow> stopped w')"
  using interruptible_delay_ok [of delay w] by (cases slow) auto

text \<open>A part of a worker that sends: nothing is received, and nothing is shut down.\<close>

definition sends :: "int \<Rightarrow> byte list \<Rightarrow> 'w \<Rightarrow> 'w \<Rightarrow> bool" where
  "sends fd data w w' \<longleftrightarrow> received w' = received w \<and> sent w' = (sent w)(fd := sent w fd @ data) \<and> shut w' = shut w \<and>
     (stopped w \<longrightarrow> stopped w') \<and> patience w' \<le> patience w"

lemma sends_trans: "sends fd a w v \<Longrightarrow> sends fd b v u \<Longrightarrow> sends fd (a @ b) w u"
  by (simp add: sends_def)

lemma sends_idle: "sends fd a w v \<Longrightarrow> idle v u \<Longrightarrow> sends fd a w u"
  by (simp add: sends_def idle_def)

lemma server_send_all_ok:
  assumes "0 < sc_chunk_bytes config"
  shows "\<exists>ok w' n. server_send_all os config fd data w = Some (ok, w') \<and> n \<le> length data \<and> sends fd (take n data) w w' \<and>
    (ok \<longrightarrow> n = length data)"
proof -
  let ?I = "\<lambda>(offset, v). offset \<le> length data \<and> sends fd (take offset data) w v"
  let ?Q = "\<lambda>(ok, v). \<exists>n \<le> length data. sends fd (take n data) w v \<and> (ok \<longrightarrow> n = length data)"
  let ?m = "\<lambda>(offset, v). patience v"
  have "\<exists>r. run_loop (server_send_step os config fd data) (0, w) = Some r \<and> ?Q r"
  proof (rule run_loop_total [where I = ?I and m = ?m])
    fix s assume I: "?I s"
    obtain offset v where s: "s = (offset, v)" by (cases s)
    have I': "offset \<le> length data" "sends fd (take offset data) w v" using I by (simp_all add: s)
    obtain stop v1 where q: "so_stop_requested os v = (stop, v1)" by fastforce
    obtain go v2 where d: "(if sc_mode config = SlowWriter then interruptible_delay os (sc_delay config) v1 else Some (True, v1)) = Some (go, v2)"
      "idle v1 v2" using pause_ok by blast
    define amount where "amount = min (length data - offset) (sc_chunk_bytes config)"
    obtain count errno v3 where k: "k_send (so_kernel os) fd (take amount (drop offset data)) v2 = ((count, errno), v3)"
      by (metis prod.collapse)
    have idle2: "sends fd (take offset data) w v1" "sends fd (take offset data) w v2"
      using I'(2) idle_stop [OF q] d(2) by (auto simp: sends_def idle_def)
    show "loop_ok ?I ?m ?Q s (server_send_step os config fd data s)"
    proof (cases "offset < length data \<and> \<not> stop \<and> go")
      case True
      have less: "patience v3 < patience v" using idle_stop [OF q] d(2) send_frame [OF k] True by (auto simp: idle_def)
      have "nat count \<le> amount" "sends fd (take (offset + nat count) data) w v3"
        using ksend_ok [OF k] send_frame [OF k] idle2(2) I'(1) by (auto simp: sends_def amount_def take_add min_def)
      then show ?thesis using True I' q d(1) k less
        by (auto simp: s server_send_step_def amount_def [symmetric] Let_def intro!: exI [of _ offset])
           (auto simp: amount_def)
    next
      case False
      then show ?thesis using I' q d(1) idle2
        by (auto simp: s server_send_step_def Let_def intro!: exI [of _ offset])
    qed
  qed (simp add: sends_def)
  then show ?thesis unfolding server_send_all_def by blast
qed


lemma drain_until_eof_ok:
  "\<exists>w'. drain_until_eof os fd buffer w = Some w' \<and> sent w' = sent w \<and> shut w' = shut w \<and> (stopped w \<longrightarrow> stopped w')"
proof -
  let ?I = "\<lambda>(b :: byte list, v). sent v = sent w \<and> shut v = shut w \<and> (stopped w \<longrightarrow> stopped v)"
  let ?Q = "\<lambda>v. sent v = sent w \<and> shut v = shut w \<and> (stopped w \<longrightarrow> stopped v)"
  have "\<exists>r. run_loop (drain_until_eof_step os fd) (buffer, w) = Some r \<and> ?Q r"
  proof (rule run_loop_total [where I = ?I and m = "\<lambda>(b, v). patience v"])
    fix s assume I: "?I s"
    obtain b v where s: "s = (b, v)" by (cases s)
    obtain stop v1 where q: "so_stop_requested os v = (stop, v1)" by fastforce
    obtain count errno b' v2 where k: "k_recv (so_kernel os) fd b v1 = ((count, errno, b'), v2)" by (metis prod.collapse)
    from idle_stop [OF q] recv_ok [OF k] recv_frame [OF k] I q k
    show "loop_ok ?I (\<lambda>(b, v). patience v) ?Q s (drain_until_eof_step os fd s)"
      by (auto simp: s drain_until_eof_step_def idle_def)
  qed simp
  then show ?thesis by (simp add: drain_until_eof_def)
qed

text \<open>Between two rounds of the echo loop, exactly what was received has been sent back.\<close>

lemma serve_step_ok:
  assumes "0 < sc_chunk_bytes config" and echoed: "sent w fd = received w fd" "shut w = shut w0"
  shows "loop_ok (\<lambda>(b, v). sent v fd = received v fd \<and> shut v = shut w0) (\<lambda>(b, v). patience v)
    (\<lambda>v. (\<exists>rest. received v fd = sent v fd @ rest) \<and>
         (shut v = shut w0 \<or> shut v = shut w0 @ [fd] \<and> sent v fd = received v fd))
    (buffer, w) (serve_step os config fd (buffer, w))"
proof -
  obtain stop v1 where q: "so_stop_requested os w = (stop, v1)" by fastforce
  obtain go v2 where d: "(if sc_mode config = SlowReader then interruptible_delay os (sc_delay config) v1 else Some (True, v1)) = Some (go, v2)"
    "idle v1 v2" using pause_ok by blast
  have idle2: "sent v1 fd = received v1 fd" "shut v1 = shut w0" "sent v2 fd = received v2 fd" "shut v2 = shut w0"
    using idle_stop [OF q] d(2) echoed by (simp_all add: idle_def)
  show ?thesis
  proof (cases "stop \<or> \<not> go")
    case True
    then show ?thesis using q d(1) idle2 by (auto simp: serve_step_def)
  next
    case False
    have less: "patience v2 < patience w" using False idle_stop [OF q] d(2) by (simp add: idle_def)
    obtain count errno b' v3 where k: "k_recv (so_kernel os) fd buffer v2 = ((count, errno, b'), v3)" by (metis prod.collapse)
    note r = recv_ok [OF k] recv_frame [OF k]
    show ?thesis
    proof (cases "0 < count")
      case True
      define D where "D = take (nat count) b'"
      obtain ok v4 n where snd: "server_send_all os config fd D v3 = Some (ok, v4)"
        "n \<le> length D" "sends fd (take n D) v3 v4" "ok \<longrightarrow> n = length D"
        using server_send_all_ok [OF assms(1)] by blast
      have "received v4 fd = sent v2 fd @ D" "sent v4 fd = sent v2 fd @ take n D" "shut v4 = shut w0" "patience v4 < patience w"
        using snd(3) r True idle2 less by (auto simp: sends_def D_def)
      moreover have "D = take n D @ drop n D" by simp
      ultimately have "\<exists>rest. received v4 fd = sent v4 fd @ rest" by (metis append.assoc)
      moreover have "received v4 fd = sent v4 fd" if ok
        using that snd(4) \<open>received v4 fd = sent v2 fd @ D\<close> \<open>sent v4 fd = sent v2 fd @ take n D\<close> by simp
      ultimately show ?thesis using False True q d(1) k snd(1) \<open>shut v4 = shut w0\<close> \<open>patience v4 < patience w\<close>
        by (cases ok) (simp_all add: serve_step_def flip: D_def)
    next
      case F: False
      obtain res v4 where sd: "k_shutdown_wr (so_kernel os) fd v3 = (res, v4)" by fastforce
      from kshutdown_ok [OF sd] shutdown_frame [OF sd] F False q d(1) k r idle2 less sd show ?thesis
        by (auto simp: serve_step_def)
    qed
  qed
qed

lemma serve_loop_ok:
  assumes "0 < sc_chunk_bytes config" and "sent w fd = received w fd"
  shows "\<exists>w'. run_loop (serve_step os config fd) (buffer, w) = Some w' \<and> (\<exists>rest. received w' fd = sent w' fd @ rest) \<and>
    (shut w' = shut w \<or> shut w' = shut w @ [fd] \<and> sent w' fd = received w' fd)"
proof (rule run_loop_total [where I = "\<lambda>(b, v). sent v fd = received v fd \<and> shut v = shut w" and m = "\<lambda>(b, v). patience v"])
  fix s :: "byte list \<times> 'w" assume "case s of (b, v) \<Rightarrow> sent v fd = received v fd \<and> shut v = shut w"
  then show "loop_ok (\<lambda>(b, v). sent v fd = received v fd \<and> shut v = shut w) (\<lambda>(b, v). patience v)
    (\<lambda>v. (\<exists>rest. received v fd = sent v fd @ rest) \<and> (shut v = shut w \<or> shut v = shut w @ [fd] \<and> sent v fd = received v fd))
    s (serve_step os config fd s)"
    by (cases s) (use serve_step_ok [OF assms(1)] in auto)
qed (use assms(2) in simp)

lemma pattern_loop_ok:
  assumes "0 < sc_chunk_bytes config" and chunk: "0 < chunk"
  shows "\<exists>ok w' k. run_loop (pattern_step os config fd (server_pattern chunk)) (amount_all, w) = Some (ok, w') \<and>
    sends fd (take k (pattern_stream chunk amount_all)) w w' \<and> (ok \<longrightarrow> k = amount_all \<or> stopped w')"
proof -
  let ?stream = "pattern_stream chunk amount_all"
  let ?I = "\<lambda>(remaining, v). remaining \<le> amount_all \<and> (remaining = 0 \<or> chunk dvd amount_all - remaining) \<and>
    sends fd (take (amount_all - remaining) ?stream) w v"
  let ?Q = "\<lambda>(ok, v). \<exists>k. sends fd (take k ?stream) w v \<and> (ok \<longrightarrow> k = amount_all \<or> stopped v)"
  have "\<exists>r. run_loop (pattern_step os config fd (server_pattern chunk)) (amount_all, w) = Some r \<and> ?Q r"
  proof (rule run_loop_total [where I = ?I and m = "\<lambda>(remaining, v). patience v"])
    fix s assume I: "?I s"
    obtain remaining v where s: "s = (remaining, v)" by (cases s)
    define k where "k = amount_all - remaining"
    obtain stop v1 where q: "so_stop_requested os v = (stop, v1)" by fastforce
    have I1: "sends fd (take k ?stream) w v" "sends fd (take k ?stream) w v1"
      using I idle_stop [OF q] by (auto simp: s k_def sends_def idle_def)
    show "loop_ok ?I (\<lambda>(remaining, v). patience v) ?Q s (pattern_step os config fd (server_pattern chunk) s)"
    proof (cases "0 < remaining \<and> \<not> stop")
      case True
      define amount where "amount = min remaining chunk"
      obtain ok v2 n where snd: "server_send_all os config fd (take amount (server_pattern chunk)) v1 = Some (ok, v2)"
        "n \<le> length (take amount (server_pattern chunk))" "sends fd (take n (take amount (server_pattern chunk))) v1 v2"
        "ok \<longrightarrow> n = length (take amount (server_pattern chunk))"
        using server_send_all_ok [OF assms(1)] by blast
      have len: "length (take amount (server_pattern chunk)) = amount" by (simp add: amount_def server_pattern_def)
      have dvd: "chunk dvd k" "remaining \<le> amount_all" using I True by (auto simp: s k_def)
      have ext: "take (k + n) ?stream = take k ?stream @ take n (server_pattern chunk)"
        using snd(2) dvd(2) unfolding len by (intro pattern_stream_extend [OF dvd(1)]) (auto simp: amount_def k_def)
      have v2: "sends fd (take (k + n) ?stream) w v2"
        using sends_trans [OF I1(2) snd(3)] snd(2) by (simp add: ext min_absorb1)
      have less: "patience v2 < patience v" using snd(3) idle_stop [OF q] True by (simp add: sends_def)
      have next_inv: "k + amount = amount_all - (remaining - amount)" using dvd by (auto simp: amount_def k_def min_def)
      have next_dvd: "remaining - amount = 0 \<or> chunk dvd k + amount" using dvd(1) by (auto simp: amount_def min_def)
      have len2: "length (server_pattern chunk) = chunk" by (simp add: server_pattern_def)
      show ?thesis using True q snd(1,4) v2 less next_inv next_dvd dvd(2) len len2
        by (cases ok) (auto simp: s pattern_step_def amount_def [symmetric] Let_def)
    next
      case False
      then show ?thesis using I I1 q idle_stop [OF q]
        by (auto simp: s pattern_step_def k_def)
    qed
  qed (simp add: sends_def)
  then show ?thesis by auto
qed

lemma serve_client_ok:
  assumes "0 < sc_chunk_bytes config" and "sent w fd = []" and "received w fd = []"
  shows "\<exists>w'. serve_client os config fd w = Some w' \<and>
    (if sc_mode config = ReadUntilEof then sent w' fd = [] \<and> shut w' = shut w @ [fd]
     else if sc_mode config = SendThenHalfClose
     then (\<exists>k. sent w' fd = take k (pattern_stream (sc_chunk_bytes config) (sc_send_bytes config))) \<and>
       (shut w' = shut w \<or> shut w' = shut w @ [fd] \<and>
          (sent w' fd = pattern_stream (sc_chunk_bytes config) (sc_send_bytes config) \<or> stopped w'))
     else (\<exists>rest. received w' fd = sent w' fd @ rest) \<and>
       (shut w' = shut w \<or> shut w' = shut w @ [fd] \<and> sent w' fd = received w' fd))"
proof -
  define w1 where "w1 = so_setsockopt os fd (SendTimeout 1) (so_setsockopt os fd (ReceiveTimeout 1) w)"
  have w1: "sent w1 fd = []" "received w1 fd = []" "shut w1 = shut w"
    using option_quiet assms(2,3) by (simp_all add: w1_def)
  have client: "serve_client os config fd w = map_option (so_close os fd) (serve_connection os config fd w1)"
    by (simp add: serve_client_def w1_def Let_def)
  let ?buffer = "replicate (sc_chunk_bytes config) 0"
  consider "sc_mode config = ReadUntilEof" | "sc_mode config = SendThenHalfClose"
    | "sc_mode config \<noteq> ReadUntilEof" "sc_mode config \<noteq> SendThenHalfClose" by blast
  then show ?thesis
  proof cases
    case 1
    obtain w2 where d: "drain_until_eof os fd ?buffer w1 = Some w2" "sent w2 = sent w1" "shut w2 = shut w1"
      using drain_until_eof_ok by blast
    obtain r w3 where sd: "k_shutdown_wr (so_kernel os) fd w2 = (r, w3)" by fastforce
    show ?thesis using 1 d sd w1 kshutdown_ok [OF sd] shutdown_frame [OF sd] close_quiet [of fd w3]
      by (simp add: client serve_connection_def)
  next
    case 2
    obtain ok w2 k where p: "run_loop (pattern_step os config fd (server_pattern (sc_chunk_bytes config))) (sc_send_bytes config, w1) = Some (ok, w2)"
      "sends fd (take k (pattern_stream (sc_chunk_bytes config) (sc_send_bytes config))) w1 w2" "ok \<longrightarrow> k = sc_send_bytes config \<or> stopped w2"
      using pattern_loop_ok [OF assms(1,1)] by blast
    obtain r w3 where sd: "k_shutdown_wr (so_kernel os) fd w2 = (r, w3)" by fastforce
    obtain w4 where d: "drain_until_eof os fd (server_pattern (sc_chunk_bytes config)) w3 = Some w4"
      "sent w4 = sent w3" "shut w4 = shut w3" "stopped w3 \<longrightarrow> stopped w4" using drain_until_eof_ok by blast
    have len: "length (pattern_stream (sc_chunk_bytes config) (sc_send_bytes config)) = sc_send_bytes config"
      by (simp add: pattern_stream_def)
    show ?thesis using 2 p sd d w1 kshutdown_ok [OF sd] shutdown_frame [OF sd] close_quiet [of fd w4] close_quiet [of fd w2] len
      by (cases ok) (auto simp: client serve_connection_def send_then_half_close_def sends_def)
  next
    case 3
    obtain w2 where l: "run_loop (serve_step os config fd) (?buffer, w1) = Some w2"
      "\<exists>rest. received w2 fd = sent w2 fd @ rest"
      "shut w2 = shut w1 \<or> shut w2 = shut w1 @ [fd] \<and> sent w2 fd = received w2 fd"
      using serve_loop_ok [OF assms(1), of w1 fd ?buffer] w1 by auto
    show ?thesis using 3 l w1(3) close_quiet [of fd w2] by (auto simp: client serve_connection_def)
  qed
qed

end

section \<open>Threads\<close>

text \<open>
  The calls of the main thread: a new thread is a new one, a join is recorded, nothing else starts
  or joins threads, and the signal arrives eventually. \<open>frame\<close> is what none of these calls touch.
\<close>

locale thread_calls =
  fixes os :: "'w server_threads" and patience :: "'w \<Rightarrow> nat" and spawned :: "'w \<Rightarrow> nat list" and joined :: "'w \<Rightarrow> nat list"
    and frame :: "'w \<Rightarrow> 'f"
  assumes signalled: "st_signalled os w = (b, w') \<Longrightarrow> spawned w' = spawned w \<and> joined w' = joined w \<and> frame w' = frame w \<and>
      (if b then patience w' \<le> patience w else patience w' < patience w)"
    and accept: "st_accept os fd w = (r, w') \<Longrightarrow>
      spawned w' = spawned w \<and> joined w' = joined w \<and> frame w' = frame w \<and> patience w' \<le> patience w"
    and done_query: "st_done os t w = (b, w') \<Longrightarrow>
      spawned w' = spawned w \<and> joined w' = joined w \<and> frame w' = frame w \<and> patience w' \<le> patience w"
    and sleep: "spawned (st_sleep_for os d w) = spawned w \<and> joined (st_sleep_for os d w) = joined w \<and>
      frame (st_sleep_for os d w) = frame w \<and> patience (st_sleep_for os d w) \<le> patience w"
    and request_stop: "spawned (st_request_stop os t w) = spawned w \<and> joined (st_request_stop os t w) = joined w \<and>
      frame (st_request_stop os t w) = frame w"
    and spawn: "st_spawn os config fd w = (t, w') \<Longrightarrow> t \<notin> set (spawned w) \<and> spawned w' = spawned w @ [t] \<and>
      joined w' = joined w \<and> frame w' = frame w \<and> patience w' \<le> patience w"
    and join_one: "spawned (st_join os t w) = spawned w \<and> joined (st_join os t w) = joined w @ [t] \<and>
      frame (st_join os t w) = frame w \<and> patience (st_join os t w) \<le> patience w"
begin

lemma partition_done_ok:
  "partition_done os ts w = ((running, finished), w') \<Longrightarrow>
   spawned w' = spawned w \<and> joined w' = joined w \<and> frame w' = frame w \<and> patience w' \<le> patience w \<and>
   mset ts = mset running + mset finished"
proof (induction ts arbitrary: w running finished w')
  case (Cons t ts)
  obtain b w1 where q: "st_done os t w = (b, w1)" by fastforce
  obtain r f w2 where rest: "partition_done os ts w1 = ((r, f), w2)" by (metis prod.collapse)
  from Cons.IH [OF rest] done_query [OF q] Cons.prems q rest show ?case by (auto split: if_splits)
qed simp

lemma join_all_ok:
  "spawned (join_all os ts w) = spawned w \<and> joined (join_all os ts w) = joined w @ ts \<and> frame (join_all os ts w) = frame w \<and>
   patience (join_all os ts w) \<le> patience w"
proof (induction ts arbitrary: w)
  case (Cons t ts)
  from Cons.IH [of "st_join os t w"] join_one [of t w] show ?case by (auto simp: join_all_def)
qed (simp add: join_all_def)

lemma request_stops_ok:
  "spawned (fold (st_request_stop os) ts w) = spawned w \<and> joined (fold (st_request_stop os) ts w) = joined w \<and>
   frame (fold (st_request_stop os) ts w) = frame w"
  by (induction ts arbitrary: w) (simp_all add: request_stop)

text \<open>Every thread started is either a worker or has been joined, once.\<close>

definition threads_inv :: "'f \<Rightarrow> nat list \<Rightarrow> 'w \<Rightarrow> bool" where
  "threads_inv f workers w \<longleftrightarrow> frame w = f \<and> distinct (spawned w) \<and> mset (spawned w) = mset (joined w) + mset workers"

lemma threads_inv_joined: "threads_inv f [] w \<Longrightarrow> distinct (joined w) \<and> mset (joined w) = mset (spawned w) \<and> frame w = f"
  by (auto simp: threads_inv_def dest: mset_eq_imp_distinct_iff)

lemma reap_finished_ok:
  assumes "threads_inv f workers w" and "reap_finished os workers w = (workers', w')"
  shows "threads_inv f workers' w' \<and> patience w' \<le> patience w"
proof -
  obtain r d w1 where p: "partition_done os workers w = ((r, d), w1)" by (metis prod.collapse)
  from partition_done_ok [OF p] join_all_ok [of d w1] assms p show ?thesis
    by (auto simp: reap_finished_def threads_inv_def)
qed

lemma server_accept_step_ok:
  assumes "threads_inv f workers w"
  shows "loop_ok (\<lambda>(workers, w). threads_inv f workers w) (\<lambda>(workers, w). patience w) (\<lambda>(e, workers, w). threads_inv f workers w)
    (workers, w) (server_accept_step os listener config (workers, w))"
proof -
  obtain stop w1 where q: "st_signalled os w = (stop, w1)" by fastforce
  obtain client errno w2 where a: "st_accept os listener w1 = ((client, errno), w2)" by (metis prod.collapse)
  obtain workers' w3 where reap: "reap_finished os workers w2 = (workers', w3)" by fastforce
  obtain t w4 where sp: "st_spawn os config client w3 = (t, w4)" by fastforce
  have inv: "threads_inv f workers w1" "threads_inv f workers w2"
    using assms signalled [OF q] accept [OF a] by (simp_all add: threads_inv_def)
  note r = reap_finished_ok [OF inv(2) reap]
  have less: "patience w3 < patience w" if "\<not> stop" using that signalled [OF q] accept [OF a] r by simp
  have spawned_inv: "threads_inv f (workers' @ [t]) w4" "patience w4 \<le> patience w3"
    using spawn [OF sp] r by (auto simp: threads_inv_def)
  have slept: "threads_inv f workers' (st_sleep_for os 10 w3)" "patience (st_sleep_for os 10 w3) \<le> patience w3"
    using sleep [of 10 w3] r by (auto simp: threads_inv_def)
  show ?thesis using q a reap sp inv less spawned_inv slept
    by (auto simp: server_accept_step_def)
qed

lemma server_accept_loop_ok:
  assumes "spawned w = []" and "joined w = []"
  shows "\<exists>res w'. server_accept_loop os listener config w = Some (res, w') \<and> (\<forall>status. res = Inr status \<longrightarrow> status = EXIT_SUCCESS) \<and>
    distinct (joined w') \<and> mset (joined w') = mset (spawned w') \<and> frame w' = frame w"
proof -
  let ?f = "frame w"
  have "\<exists>r. run_loop (server_accept_step os listener config) ([], w) = Some r \<and> (case r of (e, workers, w) \<Rightarrow> threads_inv ?f workers w)"
  proof (rule run_loop_total [where I = "\<lambda>(workers, w). threads_inv ?f workers w" and m = "\<lambda>(workers, w). patience w"])
    fix s :: "nat list \<times> 'w" assume "case s of (workers, w) \<Rightarrow> threads_inv ?f workers w"
    then show "loop_ok (\<lambda>(workers, w). threads_inv ?f workers w) (\<lambda>(workers, w). patience w)
      (\<lambda>(e, workers, w). threads_inv ?f workers w) s (server_accept_step os listener config s)"
      using server_accept_step_ok by (cases s) auto
  qed (use assms in \<open>simp add: threads_inv_def\<close>)
  then obtain e workers w1 where run: "run_loop (server_accept_step os listener config) ([], w) = Some (e, workers, w1)"
    "threads_inv ?f workers w1" by auto
  let ?w2 = "fold (st_request_stop os) workers w1"
  have "threads_inv ?f [] (join_all os workers w1)" "threads_inv ?f [] (join_all os workers ?w2)"
    using run(2) join_all_ok [of workers w1] join_all_ok [of workers ?w2] request_stops_ok [of workers w1]
    by (simp_all add: threads_inv_def)
  note finished = this [THEN threads_inv_joined]
  show ?thesis
  proof (cases e)
    case (Inl x)
    with run(1) finished(1) show ?thesis by (simp add: server_accept_loop_def)
  next
    case (Inr x)
    with run(1) finished(2) show ?thesis by (simp add: server_accept_loop_def)
  qed
qed

end

section \<open>The program\<close>

text \<open>
  The calls of \<^verbatim>\<open>main\<close>: \<open>held\<close> are the sockets it has created and not closed, \<open>printed\<close> is what was printed
  on the standard output. Only \<^verbatim>\<open>socket\<close> and \<^verbatim>\<open>close\<close> change the one, only printing the other, and no
  call besides those of the previous section starts or joins a thread.
\<close>

locale server_program = thread_calls "sy_threads os" patience spawned joined "\<lambda>w. (held w, printed w)"
  for os :: "'w server_sys" and patience :: "'w \<Rightarrow> nat" and spawned joined :: "'w \<Rightarrow> nat list"
    and held :: "'w \<Rightarrow> int set" and printed :: "'w \<Rightarrow> string" +
  assumes sy_socket: "sy_socket os w = ((fd, e), w') \<Longrightarrow>
      spawned w' = spawned w \<and> joined w' = joined w \<and> printed w' = printed w \<and>
      (if fd < 0 then held w' = held w else fd \<notin> held w \<and> held w' = insert fd (held w))"
    and sy_close: "spawned (sy_close os fd w) = spawned w" "joined (sy_close os fd w) = joined w"
      "printed (sy_close os fd w) = printed w" "held (sy_close os fd w) = held w - {fd}"
    and sy_print: "spawned (sy_print os line w) = spawned w" "joined (sy_print os line w) = joined w"
      "held (sy_print os line w) = held w" "printed (sy_print os line w) = printed w @ line"
    and sy_handlers: "spawned (sy_install_handlers os w) = spawned w" "joined (sy_install_handlers os w) = joined w"
      "held (sy_install_handlers os w) = held w" "printed (sy_install_handlers os w) = printed w"
    and sy_reuse: "sy_reuse_address os fd w = (r, w') \<Longrightarrow>
      spawned w' = spawned w \<and> joined w' = joined w \<and> held w' = held w \<and> printed w' = printed w"
    and sy_bind: "sy_bind os fd address w = (r, w') \<Longrightarrow>
      spawned w' = spawned w \<and> joined w' = joined w \<and> held w' = held w \<and> printed w' = printed w"
    and sy_listen: "sy_listen os fd backlog w = (r, w') \<Longrightarrow>
      spawned w' = spawned w \<and> joined w' = joined w \<and> held w' = held w \<and> printed w' = printed w"
begin

lemma server_listener_ok:
  assumes run: "server_listener os pton endpoint w = (res, w')"
  shows "spawned w' = spawned w \<and> joined w' = joined w \<and> printed w' = printed w \<and>
    (case res of Inl e \<Rightarrow> held w' = held w | Inr fd \<Rightarrow> fd \<notin> held w \<and> held w' = insert fd (held w))"
proof -
  obtain fd e1 w1 where 1: "sy_socket os w = ((fd, e1), w1)" by (metis prod.collapse)
  obtain r2 e2 w2 where 2: "sy_reuse_address os fd w1 = ((r2, e2), w2)" by (metis prod.collapse)
  note laws = sy_socket [OF 1] sy_reuse [OF 2]
  show ?thesis
  proof (cases "fd < 0 \<or> r2 < 0 \<or> (\<exists>e. ep_to_sockaddr pton endpoint = Inl e)")
    case True
    then show ?thesis using run 1 2 laws by (auto simp: server_listener_def Let_def sy_close split: if_splits)
  next
    case False
    then obtain address where address: "ep_to_sockaddr pton endpoint = Inr address" by (meson sum.exhaust)
    obtain r3 e3 w3 where 3: "sy_bind os fd address w2 = ((r3, e3), w3)" by (metis prod.collapse)
    obtain r4 e4 w4 where 4: "sy_listen os fd 128 w3 = ((r4, e4), w4)" by (metis prod.collapse)
    show ?thesis using run False 1 2 3 4 address laws sy_bind [OF 3] sy_listen [OF 4]
      by (auto simp: server_listener_def Let_def sy_close split: if_splits)
  qed
qed

lemma server_run_ok:
  assumes "spawned w = []" and "joined w = []"
  shows "\<exists>res w'. server_run os pton listen config w = Some (res, w') \<and> held w' = held w \<and>
    distinct (joined w') \<and> mset (joined w') = mset (spawned w') \<and>
    (case res of Inl e \<Rightarrow> printed w' = printed w \<or> printed w' = printed w @ server_started_line listen config
     | Inr status \<Rightarrow> status = EXIT_SUCCESS \<and> printed w' = printed w @ server_started_line listen config @ server_stopped_line)"
proof -
  obtain r w1 where l: "server_listener os pton listen (sy_install_handlers os w) = (r, w1)" by fastforce
  note made = server_listener_ok [OF l, unfolded sy_handlers]
  show ?thesis
  proof (cases r)
    case (Inl e)
    with l made assms show ?thesis by (simp add: server_run_def)
  next
    case (Inr fd)
    let ?w2 = "sy_print os (server_started_line listen config) w1"
    have "spawned ?w2 = []" "joined ?w2 = []" using made assms by (simp_all add: sy_print)
    from server_accept_loop_ok [OF this, of fd config] obtain res w3 where
      loop: "server_accept_loop (sy_threads os) fd config ?w2 = Some (res, w3)" "\<And>status. res = Inr status \<Longrightarrow> status = EXIT_SUCCESS"
      "distinct (joined w3)" "mset (joined w3) = mset (spawned w3)" "held w3 = held ?w2" "printed w3 = printed ?w2" by auto
    show ?thesis
    proof (cases res)
      case (Inl e)
      with Inr l loop made show ?thesis by (auto simp: server_run_def sy_close sy_print)
    next
      case ended: (Inr status)
      with Inr l loop made show ?thesis by (auto simp: server_run_def sy_close sy_print)
    qed
  qed
qed

lemma server_main_ok:
  assumes "spawned w = []" and "joined w = []"
  shows "\<exists>res w'. server_main os pton arguments w = Some (res, w') \<and> held w' = held w \<and>
    distinct (joined w') \<and> mset (joined w') = mset (spawned w') \<and>
    (case server_setup pton arguments of
       Inl e \<Rightarrow> res = catch_exception ''netfault-server'' [] [] e \<and> w' = w
     | Inr ServerHelp \<Rightarrow> res = Inr \<lparr>px_status = 0, px_stdout = server_help, px_stderr = []\<rparr> \<and> w' = w
     | Inr (RunServer listen config) \<Rightarrow>
         res = Inr \<lparr>px_status = 0, px_stdout = [], px_stderr = []\<rparr> \<and>
           printed w' = printed w @ server_started_line listen config @ server_stopped_line \<or>
         (\<exists>e. res = catch_exception ''netfault-server'' [] [] e) \<and>
           (printed w' = printed w \<or> printed w' = printed w @ server_started_line listen config))"
proof (cases "server_setup pton arguments")
  case (Inl e)
  with assms show ?thesis by (simp add: server_main_def)
next
  case (Inr command)
  show ?thesis
  proof (cases command)
    case ServerHelp
    with Inr assms show ?thesis by (simp add: server_main_def EXIT_SUCCESS_def)
  next
    case (RunServer listen config)
    obtain res w' where run: "server_run os pton listen config w = Some (res, w')" "held w' = held w"
      "distinct (joined w')" "mset (joined w') = mset (spawned w')"
      "case res of Inl e \<Rightarrow> printed w' = printed w \<or> printed w' = printed w @ server_started_line listen config
       | Inr status \<Rightarrow> status = EXIT_SUCCESS \<and> printed w' = printed w @ server_started_line listen config @ server_stopped_line"
      using server_run_ok [OF assms] by blast
    show ?thesis
    proof (cases res)
      case (Inl e)
      with run Inr RunServer show ?thesis by (auto simp: server_main_def)
    next
      case (Inr status)
      with run \<open>server_setup pton arguments = Inr command\<close> RunServer show ?thesis by (simp add: server_main_def EXIT_SUCCESS_def)
    qed
  qed
qed

end

section \<open>A scripted server\<close>

text \<open>
  The scripted sockets beside the number of times the stop token still answers no and whether a
  stop was seen; and threads beside the answers of the signal flag and of accept.
\<close>

type_synonym server_world = "script_world \<times> nat \<times> bool"

definition scripted_server :: "server_world server_os" where
  "scripted_server =
     \<lparr>so_kernel = scripted_beside,
      so_stop_requested = (\<lambda>(w, n, b). if n = 0 then (True, (w, 0, True)) else (False, (w, n - 1, b))),
      so_sleep_for = (\<lambda>t w. w), so_setsockopt = (\<lambda>fd opt w. w), so_close = (\<lambda>fd w. w)\<rparr>"

interpretation scripted_server: server_calls scripted_server "\<lambda>w. sw_received (fst w)" "\<lambda>w. sw_sent (fst w)" "\<lambda>w. sw_steps (fst w)"
  "\<lambda>w. fst (snd w)" "\<lambda>w. sw_shutdowns (fst w)" "\<lambda>w. snd (snd w)"
proof -
  have "so_kernel scripted_server = scripted_beside" by (simp add: scripted_server_def)
  then have "posix_kernel (so_kernel scripted_server) (\<lambda>w. sw_received (fst w)) (\<lambda>w. sw_sent (fst w)) (\<lambda>w. sw_steps (fst w))"
    using beside.posix_kernel_axioms by simp
  then show "server_calls scripted_server (\<lambda>w. sw_received (fst w)) (\<lambda>w. sw_sent (fst w)) (\<lambda>w. sw_steps (fst w))
      (\<lambda>w. fst (snd w)) (\<lambda>w. sw_shutdowns (fst w)) (\<lambda>w. snd (snd w))"
    by (rule server_calls.intro) (unfold_locales, auto simp: scripted_server_def scripted_beside_def scripted_kernel_def
        scripted_recv_def scripted_send_def Let_def split: prod.splits if_splits list.splits recv_event.splits send_event.splits)
qed

record thread_world =
  tw_signals :: nat
  tw_accepts :: "int list"
  tw_spawned :: "nat list"
  tw_joined :: "nat list"
  tw_held :: "int list"
  tw_output :: string

definition scripted_threads :: "thread_world server_threads" where
  "scripted_threads =
     \<lparr>st_signalled = (\<lambda>w. if tw_signals w = 0 then (True, w) else (False, w\<lparr>tw_signals := tw_signals w - 1\<rparr>)),
      st_accept = (\<lambda>fd w. case tw_accepts w of [] \<Rightarrow> ((- 1, EAGAIN), w) | fd # rest \<Rightarrow> ((fd, 0), w\<lparr>tw_accepts := rest\<rparr>)),
      st_spawn = (\<lambda>config fd w. let t = Suc (Max (insert 0 (set (tw_spawned w)))) in (t, w\<lparr>tw_spawned := tw_spawned w @ [t]\<rparr>)),
      st_done = (\<lambda>t w. (even t, w)), st_request_stop = (\<lambda>t w. w), st_join = (\<lambda>t w. w\<lparr>tw_joined := tw_joined w @ [t]\<rparr>),
      st_sleep_for = (\<lambda>d w. w), st_strerror = (\<lambda>errno. [])\<rparr>"

definition scripted_sys :: "thread_world server_sys" where
  "scripted_sys =
     \<lparr>sy_threads = scripted_threads, sy_install_handlers = (\<lambda>w. w),
      sy_socket = (\<lambda>w. if 3 \<in> set (tw_held w) then ((- 1, 24), w) else ((3, 0), w\<lparr>tw_held := 3 # tw_held w\<rparr>)),
      sy_reuse_address = (\<lambda>fd w. ((0, 0), w)), sy_bind = (\<lambda>fd address w. ((0, 0), w)), sy_listen = (\<lambda>fd backlog w. ((0, 0), w)),
      sy_close = (\<lambda>fd w. w\<lparr>tw_held := filter (\<lambda>x. x \<noteq> fd) (tw_held w)\<rparr>),
      sy_print = (\<lambda>line w. w\<lparr>tw_output := tw_output w @ line\<rparr>)\<rparr>"

lemma fresh_thread: "Suc (Max (insert 0 (set ts))) \<notin> set (ts :: nat list)"
proof
  assume "Suc (Max (insert 0 (set ts))) \<in> set ts"
  then have "Suc (Max (insert 0 (set ts))) \<le> Max (insert 0 (set ts))" by (intro Max_ge) simp_all
  then show False by simp
qed

interpretation scripted_sys: server_program scripted_sys tw_signals tw_spawned tw_joined "\<lambda>w. set (tw_held w)" tw_output
  by unfold_locales
    (auto simp: scripted_sys_def scripted_threads_def Let_def fresh_thread split: if_splits list.splits)

section \<open>Command line\<close>

lemma server_set_option_chunk:
  assumes "server_set_option pton argument v (listen, config) = Some (Inr (listen', config'))"
    and "0 < sc_chunk_bytes config" "0 < sc_send_bytes config"
  shows "0 < sc_chunk_bytes config' \<and> 0 < sc_send_bytes config'"
  using assms unfolding server_set_option_def
  by (auto simp: bind_sum_Inr server_parse_size_def split: if_splits sum.splits)

lemma server_parse_args_positive:
  assumes "server_parse_args pton arguments settings = Inr (RunServer listen config)"
    and "0 < sc_chunk_bytes (snd settings)" "0 < sc_send_bytes (snd settings)"
  shows "0 < sc_chunk_bytes config \<and> 0 < sc_send_bytes config"
  using assms
proof (induction pton arguments settings rule: server_parse_args.induct)
  case (2 pton argument rest settings)
  from 2(2) obtain v rest' s' where step: "rest = v # rest'" "server_set_option pton argument v settings = Some (Inr s')"
    "server_parse_args pton rest' s' = Inr (RunServer listen config)" "argument \<noteq> ''--help''" "server_set_option pton argument [] settings \<noteq> None"
    by (auto split: if_splits list.splits option.splits sum.splits)
  have "0 < sc_chunk_bytes (snd s') \<and> 0 < sc_send_bytes (snd s')"
    using server_set_option_chunk [of pton argument v "fst settings" "snd settings" "fst s'" "snd s'"] step(2) 2(3,4) by simp
  with 2(1) step show ?case by simp
qed auto

text \<open>The delay is the default one or the value of some \<^verbatim>\<open>--delay-ms\<close>, converted to a signed count.\<close>

lemma server_set_option_delay:
  assumes "server_set_option pton argument v (listen, config) = Some (Inr (listen', config'))"
  shows "sc_delay config' = sc_delay config \<or>
    argument = ''--delay-ms'' \<and> (\<exists>n. server_parse_size v ''delay_ms'' True = Inr n \<and> sc_delay config' = s64_of_size n)"
  using assms unfolding server_set_option_def by (auto simp: bind_sum_Inr split: if_splits)

lemma server_parse_args_delay:
  assumes "server_parse_args pton arguments settings = Inr (RunServer listen config)"
  shows "sc_delay config = sc_delay (snd settings) \<or>
    (\<exists>text n. {''--delay-ms'', text} \<subseteq> set arguments \<and> server_parse_size text ''delay_ms'' True = Inr n \<and>
       sc_delay config = s64_of_size n)"
  using assms
proof (induction pton arguments settings rule: server_parse_args.induct)
  case (2 pton argument rest settings)
  from 2(2) obtain v rest' s' where step: "rest = v # rest'" "server_set_option pton argument v settings = Some (Inr s')"
    "server_parse_args pton rest' s' = Inr (RunServer listen config)" "argument \<noteq> ''--help''" "server_set_option pton argument [] settings \<noteq> None"
    by (auto split: if_splits list.splits option.splits sum.splits)
  have here: "sc_delay (snd s') = sc_delay (snd settings) \<or>
      argument = ''--delay-ms'' \<and> (\<exists>n. server_parse_size v ''delay_ms'' True = Inr n \<and> sc_delay (snd s') = s64_of_size n)"
    using server_set_option_delay [of pton argument v "fst settings" "snd settings" "fst s'" "snd s'"] step(2) by simp
  have "sc_delay config = sc_delay (snd s') \<or>
      (\<exists>text n. {''--delay-ms'', text} \<subseteq> set rest' \<and> server_parse_size text ''delay_ms'' True = Inr n \<and>
         sc_delay config = s64_of_size n)"
    using 2(1) step by blast
  with here step(1) show ?case by auto
qed auto

lemma server_parse_size_bound: "server_parse_size text name zero = Inr n \<Longrightarrow> n < 18446744073709551616"
  by (auto simp: server_parse_size_def split: if_splits sum.splits dest!: from_chars_bound)

lemma no_delay:
  assumes "delay \<le> 0"
  shows "interruptible_delay os delay w = interruptible_delay os 0 w"
proof -
  have "delay_step os (d, w) = Some (Halt w)" if "d \<le> 0" for d using that by (simp add: delay_step_def)
  with assms show ?thesis by (simp add: interruptible_delay_def run_loop_Halt)
qed

lemma server_setup_parsed:
  assumes "server_setup pton arguments = Inr (RunServer listen config)"
  shows "\<exists>e. server_parse_args pton arguments (e, server_config_default) = Inr (RunServer listen config) \<and>
    server_check_limits pton listen config = Inr (RunServer listen config)"
proof -
  obtain e listen' config' where parsed: "server_parse_args pton arguments (e, server_config_default) = Inr (RunServer listen' config')"
    and ok: "server_check_limits pton listen' config' = Inr (RunServer listen config)"
    using assms unfolding server_setup_def bind_sum_Inr
    by (elim exE conjE, split server_command.split_asm) auto
  have "listen' = listen" "config' = config"
    using ok by (auto simp: server_check_limits_def bind_sum_Inr split: if_splits)
  with parsed ok show ?thesis by blast
qed

lemma server_setup_delay:
  assumes "server_setup pton arguments = Inr (RunServer listen config)"
  shows "sc_delay config = sc_delay server_config_default \<or>
    (\<exists>text n. {''--delay-ms'', text} \<subseteq> set arguments \<and> server_parse_size text ''delay_ms'' True = Inr n \<and>
       sc_delay config = s64_of_size n)"
  using server_setup_parsed [OF assms] server_parse_args_delay by fastforce

lemma server_setup_limits:
  assumes "server_setup pton arguments = Inr (RunServer listen config)"
  shows "ep_is_loopback pton listen = Inr True" and "sc_delay config \<le> 60000" and "sc_chunk_bytes config \<in> {1..1048576}"
    and "sc_send_bytes config \<in> {1..16777216}"
proof -
  obtain e where parsed: "server_parse_args pton arguments (e, server_config_default) = Inr (RunServer listen config)"
    and ok: "server_check_limits pton listen config = Inr (RunServer listen config)"
    using server_setup_parsed [OF assms] by blast
  have "0 < sc_chunk_bytes config \<and> 0 < sc_send_bytes config"
    using server_parse_args_positive [OF parsed] by (simp add: server_config_default_def)
  then show "ep_is_loopback pton listen = Inr True" "sc_delay config \<le> 60000" "sc_chunk_bytes config \<in> {1..1048576}"
    "sc_send_bytes config \<in> {1..16777216}"
    using ok by (auto simp: server_check_limits_def bind_sum_Inr split: if_splits)
qed

section \<open>Properties\<close>

text \<open>
  C23. What a worker sends. On a fresh connection, with a stop that is requested eventually, the
  worker returns whatever its calls do. In the echo modes, slow or not, it has sent back a prefix of
  what it received, and it has shut its write side down only if that is everything it received. In
  the mode that reads until the end it has sent nothing and has half-closed. In the last mode it has
  sent a prefix of the repeated pattern, and half-closes before the whole of it only on a stop request.
\<close>

theorem server_worker_streams:
  assumes "server_calls os received sent interruptions patience shut stopped"
    and "0 < sc_chunk_bytes config" and "sent w fd = []" and "received w fd = []"
  shows "\<exists>w'. serve_client os config fd w = Some w' \<and>
    (if sc_mode config = ReadUntilEof then sent w' fd = [] \<and> shut w' = shut w @ [fd]
     else if sc_mode config = SendThenHalfClose
     then (\<exists>k. sent w' fd = take k (pattern_stream (sc_chunk_bytes config) (sc_send_bytes config))) \<and>
       (shut w' = shut w \<or> shut w' = shut w @ [fd] \<and>
          (sent w' fd = pattern_stream (sc_chunk_bytes config) (sc_send_bytes config) \<or> stopped w'))
     else (\<exists>rest. received w' fd = sent w' fd @ rest) \<and>
       (shut w' = shut w \<or> shut w' = shut w @ [fd] \<and> sent w' fd = received w' fd))"
  by (rule server_calls.serve_client_ok [OF assms])

definition echo_script :: server_world where
  "echo_script = (\<lparr>sw_recv_script = [Deliver [1, 2, 3], EndOfStream], sw_send_script = [Accept 2], sw_received = (\<lambda>_. []),
     sw_sent = (\<lambda>_. []), sw_shutdowns = []\<rparr>, 20, False)"

lemma scripted_server_fields [simp]:
  "so_kernel scripted_server = scripted_beside" "so_setsockopt scripted_server fd opt w = w" "so_close scripted_server fd w = w"
  "so_stop_requested scripted_server (v, n, b) = (if n = 0 then (True, (v, 0, True)) else (False, (v, n - 1, b)))"
  by (simp_all add: scripted_server_def)

lemma scripted_server_steps:
  "serve_step os config fd (buffer, w) =
     (let (stop, w) = so_stop_requested os w in
      if stop then Some (Halt w)
      else (case (if sc_mode config = SlowReader then interruptible_delay os (sc_delay config) w else Some (True, w)) of
              None \<Rightarrow> None
            | Some (proceed, w) \<Rightarrow>
                if \<not> proceed then Some (Halt w)
                else (let ((count, errno, buffer), w) = k_recv (so_kernel os) fd buffer w in
                      if count > 0
                      then (case server_send_all os config fd (take (nat count) buffer) w of
                              None \<Rightarrow> None
                            | Some (sent_all, w) \<Rightarrow> if \<not> sent_all then Some (Halt w) else Some (Again (buffer, w)))
                      else if count = 0 then (let (_, w) = k_shutdown_wr (so_kernel os) fd w in Some (Halt w))
                      else if errno = EINTR then Some (Again (buffer, w))
                      else if errno = EAGAIN \<or> errno = EWOULDBLOCK then Some (Again (buffer, w))
                      else Some (Halt w))))"
  "server_send_step os config fd data (offset, w) =
     (if offset < length data
      then (let (stop, w) = so_stop_requested os w in
            if stop then Some (Halt (offset = length data, w))
            else (case (if sc_mode config = SlowWriter then interruptible_delay os (sc_delay config) w else Some (True, w)) of
                    None \<Rightarrow> None
                  | Some (proceed, w) \<Rightarrow>
                      if \<not> proceed then Some (Halt (False, w))
                      else (let request_bytes = min (length data - offset) (sc_chunk_bytes config);
                                ((count, errno), w) = k_send (so_kernel os) fd (take request_bytes (drop offset data)) w
                            in if count > 0 then Some (Again (offset + nat count, w))
                               else if count < 0 \<and> errno = EINTR then Some (Again (offset, w))
                               else Some (Halt (False, w)))))
      else Some (Halt (offset = length data, w)))"
  by (simp_all add: serve_step_def server_send_step_def)

lemma echo_script_send:
  assumes "sc_mode c = Echo" and "sc_chunk_bytes c = 4" and "sw_send_script v = [Accept 2]"
  shows "server_send_all scripted_server c 7 [1, 2, 3] (v, Suc (Suc n), b) =
    Some (True, v\<lparr>sw_send_script := [], sw_sent := (sw_sent v)(7 := sw_sent v 7 @ [1, 2, 3])\<rparr>, n, b)"
  using assms
  by (simp add: server_send_all_def run_loop.simps [of "server_send_step scripted_server c 7 [1, 2, 3]"] scripted_server_steps
      scripted_beside_def scripted_kernel_def scripted_send_def)

lemma echo_script_run:
  assumes "c = server_config_default\<lparr>sc_chunk_bytes := 4\<rparr>"
  shows "\<exists>w'. serve_client scripted_server c 7 echo_script = Some w' \<and> sw_shutdowns (fst w') = [7]"
proof -
  have c: "sc_mode c = Echo" "sc_chunk_bytes c = 4" using assms by (simp_all add: server_config_default_def)
  define n v where "n = (16 :: nat)" and "v = fst echo_script"
  have v: "echo_script = (v, Suc (Suc (Suc (Suc n))), False)" "sw_recv_script v = [Deliver [1, 2, 3], EndOfStream]"
    "sw_send_script v = [Accept 2]" "sw_shutdowns v = []" by (simp_all add: echo_script_def n_def v_def)
  have "\<exists>v1. serve_step scripted_server c 7 ([0, 0, 0, 0], echo_script) = Some (Again ([1, 2, 3, 0], v1, Suc n, False)) \<and>
      sw_recv_script v1 = [EndOfStream] \<and> sw_shutdowns v1 = []"
    unfolding v(1) using c v(2-4)
    by (simp add: scripted_server_steps scripted_beside_def scripted_kernel_def scripted_recv_def echo_script_send)
  then obtain v1 where step1: "serve_step scripted_server c 7 ([0, 0, 0, 0], echo_script) = Some (Again ([1, 2, 3, 0], v1, Suc n, False))"
    and v1: "sw_recv_script v1 = [EndOfStream]" "sw_shutdowns v1 = []" by blast
  have "\<exists>v2. serve_step scripted_server c 7 ([1, 2, 3, 0], v1, Suc n, False) = Some (Halt (v2, n, False)) \<and> sw_shutdowns v2 = [7]"
    using c v1 by (simp add: scripted_server_steps scripted_beside_def scripted_kernel_def scripted_recv_def)
  then obtain v2 where step2: "serve_step scripted_server c 7 ([1, 2, 3, 0], v1, Suc n, False) = Some (Halt (v2, n, False))"
    and v2: "sw_shutdowns v2 = [7]" by blast
  have "run_loop (serve_step scripted_server c 7) ([0, 0, 0, 0], echo_script) = Some (v2, n, False)"
    using run_loop_Again [of "serve_step scripted_server c 7", OF step1] run_loop_Halt [of "serve_step scripted_server c 7", OF step2] by simp
  moreover have "replicate 4 0 = [0, 0, 0, 0 :: byte]" by (simp add: numeral_Bit0)
  ultimately show ?thesis using c v2 by (simp add: serve_client_def serve_connection_def)
qed

theorem server_worker_streams_witness:
  "\<exists>w'. serve_client scripted_server (server_config_default\<lparr>sc_chunk_bytes := 4\<rparr>) 7 echo_script = Some w' \<and>
     sw_shutdowns (fst w') = [7] \<and> sw_sent (fst w') 7 = sw_received (fst w') 7"
proof -
  have "0 < sc_chunk_bytes (server_config_default\<lparr>sc_chunk_bytes := 4\<rparr>)" "sw_sent (fst echo_script) 7 = []"
    "sw_received (fst echo_script) 7 = []" "sw_shutdowns (fst echo_script) = []" by (simp_all add: echo_script_def)
  with server_worker_streams [OF scripted_server.server_calls_axioms this(1-3)] echo_script_run [OF refl]
  show ?thesis by (auto simp: server_config_default_def)
qed

definition server_pton_example :: inet_pton where
  "server_pton_example host = (if host = ''127.0.0.1'' then Some 0x7F000001 else None)"

text \<open>
  C25. The server cleans up. With a signal that arrives eventually, the program ends whatever its
  arguments are and whichever of its calls fail, and then every worker thread it started has been
  joined exactly once and the listener is closed. A refused command line and the help make no
  call at all. Otherwise it exits with 0 exactly if it printed both its events, and a run that an
  exception ended never reports that the server stopped.
\<close>

theorem server_exit_clean:
  assumes "server_program os patience spawned joined held printed" and "spawned w = []" and "joined w = []"
  shows "\<exists>res w'. server_main os pton arguments w = Some (res, w') \<and> held w' = held w \<and>
    distinct (joined w') \<and> mset (joined w') = mset (spawned w') \<and>
    (case server_setup pton arguments of
       Inl e \<Rightarrow> res = catch_exception ''netfault-server'' [] [] e \<and> w' = w
     | Inr ServerHelp \<Rightarrow> res = Inr \<lparr>px_status = 0, px_stdout = server_help, px_stderr = []\<rparr> \<and> w' = w
     | Inr (RunServer listen config) \<Rightarrow>
         res = Inr \<lparr>px_status = 0, px_stdout = [], px_stderr = []\<rparr> \<and>
           printed w' = printed w @ server_started_line listen config @ server_stopped_line \<or>
         (\<exists>e. res = catch_exception ''netfault-server'' [] [] e) \<and>
           (printed w' = printed w \<or> printed w' = printed w @ server_started_line listen config))"
  by (rule server_program.server_main_ok [OF assms])

theorem server_exit_clean_witness:
  "\<exists>res w'. server_main scripted_sys server_pton_example [''--mode'', ''slow-writer'']
     \<lparr>tw_signals = 5, tw_accepts = [4, 5, 6], tw_spawned = [], tw_joined = [], tw_held = [], tw_output = []\<rparr> = Some (res, w') \<and>
     tw_held w' = [] \<and> mset (tw_joined w') = mset (tw_spawned w')"
  using server_exit_clean [OF scripted_sys.server_program_axioms,
      of "\<lparr>tw_signals = 5, tw_accepts = [4, 5, 6], tw_spawned = [], tw_joined = [], tw_held = [], tw_output = []\<rparr>"
         server_pton_example "[''--mode'', ''slow-writer'']"] by auto

text \<open>
  C39. The command line of the server. The name printed for a mode is the one that selects it, and
  only that one does. Options that pass the checks name a loopback listener, a chunk size between 1
  byte and 1 MiB and between 1 byte and 16 MiB to send. The delay is between zero and a minute,
  unless the value of a \<^verbatim>\<open>--delay-ms\<close> option was \<open>2 ^ 63\<close> or more: the check comes after the
  conversion to a signed count, such a value passes it as a negative delay, and the worker then
  does not wait at all.
\<close>

theorem server_options_checked:
  assumes "server_setup pton arguments = Inr (RunServer listen config)"
  shows "ep_is_loopback pton listen = Inr True \<and> sc_chunk_bytes config \<in> {1..1048576} \<and>
    sc_send_bytes config \<in> {1..16777216} \<and>
    (sc_delay config \<in> {0..60000} \<or>
     (\<exists>text n. {''--delay-ms'', text} \<subseteq> set arguments \<and> server_parse_size text ''delay_ms'' True = Inr n \<and>
        9223372036854775808 \<le> n \<and> sc_delay config = int n - 18446744073709551616 \<and>
        interruptible_delay os (sc_delay config) w = interruptible_delay os 0 w)) \<and>
    (\<forall>name mode. parse_mode name = Inr mode \<longleftrightarrow> name = mode_name mode)"
proof -
  have modes: "parse_mode name = Inr mode \<longleftrightarrow> name = mode_name mode" for name mode
    by (cases mode) (auto simp: parse_mode_def)
  note limits = server_setup_limits [OF assms]
  have "sc_delay config \<in> {0..60000} \<or>
     (\<exists>text n. {''--delay-ms'', text} \<subseteq> set arguments \<and> server_parse_size text ''delay_ms'' True = Inr n \<and>
        9223372036854775808 \<le> n \<and> sc_delay config = int n - 18446744073709551616 \<and>
        interruptible_delay os (sc_delay config) w = interruptible_delay os 0 w)"
    using server_setup_delay [OF assms]
  proof
    assume "\<exists>text n. {''--delay-ms'', text} \<subseteq> set arguments \<and> server_parse_size text ''delay_ms'' True = Inr n \<and>
      sc_delay config = s64_of_size n"
    then obtain v n where n: "{''--delay-ms'', v} \<subseteq> set arguments" "server_parse_size v ''delay_ms'' True = Inr n"
      "sc_delay config = s64_of_size n" by blast
    show ?thesis
    proof (cases "n < 9223372036854775808")
      case True
      with n(3) limits(2) show ?thesis by (simp add: s64_of_size_def)
    next
      case False
      moreover have "sc_delay config = int n - 18446744073709551616" using False n(3) by (simp add: s64_of_size_def)
      moreover have "interruptible_delay os (sc_delay config) w = interruptible_delay os 0 w"
        using calculation(2) server_parse_size_bound [OF n(2)] by (intro no_delay) simp
      ultimately show ?thesis using n(1,2) by (intro disjI2 exI [of _ v] exI [of _ n]) simp
    qed
  qed (simp add: server_config_default_def)
  with limits modes show ?thesis by blast
qed

lemma server_default_endpoint:
  "ep_parse server_pton_example ''127.0.0.1:9000'' = Inr \<lparr>ep_host = ''127.0.0.1'', ep_port = 9000\<rparr>"
  by (simp add: ep_parse_def from_chars_def is_digit_char_def digits_value_def c_str_def server_pton_example_def)

theorem server_options_checked_witness:
  "\<exists>config. server_setup server_pton_example [''--mode'', ''slow-writer''] = Inr (RunServer \<lparr>ep_host = ''127.0.0.1'', ep_port = 9000\<rparr> config) \<and>
     sc_mode config = SlowWriter \<and> sc_delay config \<in> {0..60000} \<and> sc_chunk_bytes config \<in> {1..1048576} \<and> parse_mode (mode_name SlowWriter) = Inr SlowWriter"
proof -
  have run: "server_setup server_pton_example [''--mode'', ''slow-writer''] =
      Inr (RunServer \<lparr>ep_host = ''127.0.0.1'', ep_port = 9000\<rparr> (server_config_default\<lparr>sc_mode := SlowWriter\<rparr>))"
    using server_default_endpoint
    by (simp add: server_setup_def bind_sum_def server_set_option_def parse_mode_def server_check_limits_def
        server_config_default_def ep_is_loopback_def ep_to_sockaddr_def c_str_def server_pton_example_def)
  from server_options_checked [OF run] run show ?thesis by (auto simp: server_config_default_def)
qed

text \<open>
  The upper bound on the delay is checked after the conversion to a signed count: a delay of
  \<open>2 ^ 64 - 1\<close> milliseconds is accepted, as minus one.
\<close>

lemma server_delay_wraps:
  "server_setup server_pton_example [''--delay-ms'', ''18446744073709551615''] =
     Inr (RunServer \<lparr>ep_host = ''127.0.0.1'', ep_port = 9000\<rparr> (server_config_default\<lparr>sc_delay := - 1\<rparr>))"
proof -
  have "from_chars 18446744073709551615 ''18446744073709551615'' = Inr (18446744073709551615, [])"
    by (simp add: from_chars_def is_digit_char_def digits_value_def)
  then show ?thesis using server_default_endpoint
    by (simp add: server_setup_def bind_sum_def server_set_option_def server_parse_size_def s64_of_size_def server_check_limits_def
        server_config_default_def ep_is_loopback_def ep_to_sockaddr_def c_str_def server_pton_example_def)
qed

end
