(* ===== verification/Spec2Isabelle.thy ===== *)
theory Spec2Isabelle
  imports Relay_Refinement Timer_Queue Endpoint Logger Proxy_Config Proxy_Program Metrics_Export
    Unique_Fd Client_Program Server_Theorems
begin

text \<open>
  A verification library for NetFault Lab: a TCP proxy that injects faults (latency, jitter, rate
  limits, resets, half-closes), a load client that checks what comes back through it, and a server
  that plays the other end.

  \<^bold>\<open>The programs.\<close> The proxy is one thread around \<^verbatim>\<open>epoll\<close>. \<^verbatim>\<open>src/proxy/main.cpp\<close> reads the command
  line, \<^verbatim>\<open>Proxy\<close> and \<^verbatim>\<open>ProxyRuntime\<close> in \<^verbatim>\<open>src/proxy/proxy.cpp\<close> own the descriptors, the table of connections
  and the timers. Each connection has a \<^verbatim>\<open>Relay\<close> (\<^verbatim>\<open>src/common/relay.cpp\<close>), which moves bytes between the
  two sockets through one \<^verbatim>\<open>ByteQueue\<close> per direction; a \<^verbatim>\<open>BackpressureTracker\<close> stops the reading of a
  direction at its high-water mark, a \<^verbatim>\<open>DelayLine\<close> and a \<^verbatim>\<open>TokenBucket\<close> decide how much may be sent now.
  The relay owns no descriptor and reads no clock: it tells the loop what to wait for (interest,
  next wake-up) and when to close. The client and the server are threaded programs of one file each.

  \<^bold>\<open>Theories and sources.\<close>
  \<^item> \<open>Netfault_Prelude\<close>: machine types, exceptions, 64-bit arithmetic, and \<open>run_loop\<close>, the combinator for
    every \<^verbatim>\<open>while\<close> of the sources. \<open>Charconv\<close>: \<^verbatim>\<open>std::from_chars\<close> and \<^verbatim>\<open>std::to_string\<close>. \<open>Process_Exit\<close>: the
    \<^verbatim>\<open>try\<close> block around each \<^verbatim>\<open>main\<close>. \<open>Mersenne_Twister\<close>: \<^verbatim>\<open>std::mt19937_64\<close>, from the
    parameters and the transition algorithm of the C++ standard.
  \<^item> \<open>Byte_Queue\<close>, \<open>Delay_Line\<close> (both interpretations of \<open>Fifo_Interface\<close>), \<open>Backpressure\<close>, \<open>Token_Bucket\<close>,
    \<open>Fault_Rng\<close>, \<open>Fault_Plan\<close>, \<open>Timer_Queue\<close>, \<open>Connection_State\<close>, \<open>Endpoint\<close>, \<open>Logger\<close>, \<open>Unique_Fd\<close>: the headers
    of the same names in \<^verbatim>\<open>include/netfault\<close> and their sources in \<^verbatim>\<open>src/common\<close>.
  \<^item> \<open>Socket_Io\<close>: \<^verbatim>\<open>SystemSocketIo\<close>, the retry loops around \<^verbatim>\<open>recv\<close>, \<^verbatim>\<open>send\<close> and \<^verbatim>\<open>shutdown\<close>.
  \<^item> \<open>Relay\<close>: the model of \<^verbatim>\<open>Relay\<close>, method by method; \<open>Relay_Properties\<close>, \<open>Relay_Correctness\<close> and
    \<open>Relay_Theorems\<close>: its invariant, the effect of each operation, and its properties;
    \<open>Relay_Refinement\<close>: the specification it implements, two bounded in-order channels.
  \<^item> \<open>Proxy_Config\<close>: \<^verbatim>\<open>ProxyConfig\<close>, the constructor of \<^verbatim>\<open>Proxy\<close> and the command line. \<open>Proxy_Startup\<close>: the
    constructor of \<^verbatim>\<open>ProxyRuntime\<close>. \<open>Proxy_Runtime\<close>: the event loop, handler by handler. \<open>Proxy_Program\<close>:
    the whole program.
  \<^item> \<open>Proxy_Invariants\<close>, \<open>Proxy_Handlers\<close>, \<open>Proxy_Accept\<close>, \<open>Proxy_World\<close>, \<open>Proxy_Loop\<close>, \<open>Proxy_Descriptors\<close>,
    \<open>Proxy_Timers\<close>: the invariants of the loop, of its descriptors and of the kernel timer, and their
    preservation; \<open>Proxy_Theorems\<close> and \<open>Metrics_Export\<close>: its properties.
  \<^item> \<open>Client_Transfer\<close> (the two workloads), \<open>Client_Report\<close> (command line, percentiles, report) and
    \<open>Client_Program\<close> (worker threads and \<^verbatim>\<open>main\<close>) of \<^verbatim>\<open>src/client/main.cpp\<close>, with \<open>Client_Theorems\<close>.
  \<^item> \<open>Echo_Server\<close>: \<^verbatim>\<open>src/server/main.cpp\<close>, with \<open>Server_Theorems\<close>.

  \<^bold>\<open>How the code is modelled.\<close> A class is a record and a method a function that returns the new
  record. A function that may throw returns \<open>exn + 'a\<close>; what the C++ standard leaves undefined is the
  separate exception \<open>UndefinedBehavior\<close>, which no handler catches. Numbers keep their width where the
  sources can leave it: counters are \<open>64 word\<close>, and \<open>add64\<close>, \<open>sub64\<close> and \<open>mul64\<close> reduce lengths modulo
  \<open>2 ^ 64\<close>. The double arithmetic of the percentiles is rational arithmetic rounded to 53 bits.
  A loop is \<open>run_loop\<close> of a step function; its value is \<open>None\<close> if the loop does not end, so that it ends
  is always part of what is proved (\<open>run_loop_total\<close>: an invariant and a measure). No fuel is used in
  the models; \<open>pop_all_due\<close>, a device of the specification, has the length of the heap as its bound.

  \<^bold>\<open>The environment.\<close> System calls, clocks, threads and files are parameters: a record of functions on
  a world of any type. What the sources rely on is stated as locales, in the terms of the manual
  pages: \<open>posix_kernel\<close> (partial transfers, interruptions, errors), \<open>socket_contract\<close> (what \<^verbatim>\<open>SocketIo\<close>
  promises, a consequence of \<open>posix_kernel\<close> for \<^verbatim>\<open>SystemSocketIo\<close>), \<open>proxy_os\<close>, \<open>loop_os\<close> (the clock, and
  finitely many interruptions in a row), \<open>event_os\<close> (connections arrive finitely often within a round),
  \<open>fd_calls\<close>, \<open>timer_calls\<close> and \<open>start_calls\<close> for the proxy, \<open>file_calls\<close> for the metrics file, \<open>client_calls\<close>, \<open>server_calls\<close>,
  \<open>thread_calls\<close> and \<open>server_program\<close>. Each is interpreted on a scripted system, so its laws can hold,
  and the examples run on it. \<open>io_relation\<close> and \<open>os_relation\<close> carry any relation that the calls keep
  through the relay and the handlers. Threads are interleavings: the client's reader and sender
  alternate call by call under an arbitrary schedule, its workers finish in an arbitrary order, and
  a query of another thread's flag is a step of the world.

  \<^bold>\<open>What is shown.\<close>
  \<^item> \<^emph>\<open>Components.\<close> The queue and the delay line are first-in first-out; the watermarks behave as a
    one-bit machine with exact pause times; a bucket whose burst is at most
    18,446,744,070 bytes (\<open>tb_exact\<close>; larger ones are accepted but wrap) never exceeds its rate over any
    interval, earns the same however often it is refilled, and its eligibility times suffice; due
    timers come out in order of deadline and insertion; it is exact which random streams can coincide;
    endpoints survive printing and parsing; a log line cannot be forged; a descriptor has one owner.
  \<^item> \<^emph>\<open>Relay.\<close> No byte is lost, duplicated or reordered, in every reachable state; no operation throws
    or loops; nothing is sent before its delay or beyond its rate; whenever bytes wait, either write
    interest or a timely wake-up is asked for; the end of a stream is forwarded after its last byte.
    All calls of the relay refine an abstract machine of two bounded channels (\<open>duplex_step\<close>).
  \<^item> \<^emph>\<open>Event loop.\<close> Over configurations the constructor accepts, with a burst in the exact range
    (\<open>config_ok\<close>), and every state the loop reaches, that of the last round included (\<open>loop_reaches\<close>): a
    round returns unless new connections arrive without end while it accepts them, and throws only
    if \<^verbatim>\<open>epoll\<close> fails; tables, token bindings, counters and timers stay consistent; no descriptor leaks,
    in the construction, in any round, or at the end; due timers are handled exactly once, and the
    kernel timer is armed with the earliest deadline; stopping closes and counts every connection; the metrics file is replaced at once.
  \<^item> \<^emph>\<open>Programs.\<close> The proxy makes no system call for a refused command line and is never exposed by
    accident; the client exits with 0 only if every connection's stream came back intact; the server
    joins all its workers and closes its listener on every path.

  \<^bold>\<open>Findings.\<close> \<open>Token_Bucket.tb_refill_overflow\<close>, \<open>Token_Bucket.tb_eligible_at_late\<close>,
  \<open>Fault_Plan.fp_validate_accepts_nan\<close>, \<open>Fault_Plan.fp_validate_overflow\<close>,
  \<open>Relay_Theorems.injected_half_close_wedges\<close> and \<open>Server_Theorems.server_delay_wraps\<close> exhibit inputs on
  which the code differs from its comments or messages; the other properties state the bounds within
  which they do not arise.

  \<^bold>\<open>Not modelled.\<close> The world after an exception has left the event loop (the destructors of
  \<^verbatim>\<open>ProxyRuntime\<close> run and the process exits); memory exhaustion and failures to start a thread; include
  directives and declarations without a body; \<^verbatim>\<open>inet_pton\<close>, \<^verbatim>\<open>strerror\<close>, \<^verbatim>\<open>uname\<close> and the floating-point
  overload of \<^verbatim>\<open>std::from_chars\<close>, which are parameters; tests, scripts and the web site.
\<close>

end
